(* ===== verification/Prelude.thy ===== *)
theory Prelude
  imports Main "HOL-Library.Word"
begin

section \<open>Prelude: the Rust values every component uses\<close>

text \<open>
  What the components share: Rust's \<open>Result\<close> and panics as datatypes, the machine integers and
  their saturating and checked operations, \<open>NonZero\<close> integers, \<open>std::time::Duration\<close> and
  \<open>std::time::Instant\<close>. The two lemma collections \<open>dur\<close> and \<open>wsat\<close> rewrite an operation on
  durations or machine integers to the natural number it denotes, so that arithmetic about
  deadlines and budgets is decided on \<open>nat\<close>.
\<close>

named_theorems dur \<comment> \<open>operations on durations, read as nanoseconds\<close>
named_theorems wsat \<comment> \<open>saturating and checked machine arithmetic, read as \<open>nat\<close>\<close>

subsection \<open>Results and panics\<close>

text \<open>
  \<open>result\<close> is Rust's \<open>Result\<close>; \<open>outcome\<close> is what a call that may panic does: it returns a
  value or it panics (\<open>expect\<close> on an error, \<open>unreachable!\<close>, an arithmetic panic of the standard
  library).
\<close>

datatype ('a, 'e) result = Ok 'a | Err 'e

datatype 'a outcome = Return 'a | Panic

fun expect :: "('a, 'e) result \<Rightarrow> 'a outcome" where
  "expect (Ok a) = Return a"
| "expect (Err e) = Panic"

fun map_err :: "('e \<Rightarrow> 'f) \<Rightarrow> ('a, 'e) result \<Rightarrow> ('a, 'f) result" where
  "map_err f (Ok a) = Ok a"
| "map_err f (Err e) = Err (f e)"

fun ok :: "('a, 'e) result \<Rightarrow> 'a option" where
  "ok (Ok a) = Some a"
| "ok (Err e) = None"

fun bind_outcome :: "'a outcome \<Rightarrow> ('a \<Rightarrow> 'b outcome) \<Rightarrow> 'b outcome" where
  "bind_outcome (Return a) f = f a"
| "bind_outcome Panic f = Panic"

lemma map_err_eq_Ok [simp]: "map_err f r = Ok a \<longleftrightarrow> r = Ok a"
  by (cases r) auto

lemma map_err_eq_Err: "map_err f r = Err e \<longleftrightarrow> (\<exists>e'. r = Err e' \<and> e = f e')"
  by (cases r) auto

lemma ok_eq_Some [simp]: "ok r = Some a \<longleftrightarrow> r = Ok a"
  by (cases r) auto

lemma expect_eq_Return [simp]: "expect r = Return a \<longleftrightarrow> r = Ok a"
  by (cases r) auto

lemma bind_outcome_eq_Return:
  "bind_outcome m f = Return b \<longleftrightarrow> (\<exists>a. m = Return a \<and> f a = Return b)"
  by (cases m) auto

subsection \<open>Machine integers\<close>

type_synonym u32 = "32 word"
type_synonym u64 = "64 word"
type_synonym usize = "64 word"

text \<open>\<open>saturating_add\<close>, \<open>saturating_sub\<close>, \<open>checked_add\<close> and \<open>saturating_pow\<close> of Rust's unsigned integers.\<close>

definition saturating_add :: "'a::len word \<Rightarrow> 'a word \<Rightarrow> 'a word" where
  "saturating_add a b = (if unat a + unat b < 2 ^ LENGTH('a) then a + b else - 1)"

definition saturating_sub :: "'a::len word \<Rightarrow> 'a word \<Rightarrow> 'a word" where
  "saturating_sub a b = (if b \<le> a then a - b else 0)"

definition checked_add :: "'a::len word \<Rightarrow> 'a word \<Rightarrow> 'a word option" where
  "checked_add a b = (if unat a + unat b < 2 ^ LENGTH('a) then Some (a + b) else None)"

definition saturating_pow :: "'a::len word \<Rightarrow> u32 \<Rightarrow> 'a word" where
  "saturating_pow a e =
     (if unat a ^ unat e < 2 ^ LENGTH('a) then a ^ unat e else - 1)"

lemma unat_minus_one [simp]: "unat (- 1 :: 'a::len word) = 2 ^ LENGTH('a) - 1"
  by (simp add: unat_arith_simps unsigned_minus_1_eq_mask mask_nat_def)

lemma unat_less: "unat a < 2 ^ LENGTH('a)" for a :: "'a::len word"
  by (rule unsigned_less)

lemma u32_less: "unat (w :: u32) < 4294967296"
  using unat_less [of w] by simp

lemma u64_less: "unat (w :: u64) < 18446744073709551616"
  using unat_less [of w] by simp

lemma unat_saturating_add [wsat]:
  "unat (saturating_add a b) = min (unat a + unat b) (2 ^ LENGTH('a) - 1)" for a :: "'a::len word"
  by (auto simp: saturating_add_def unat_word_ariths min_def)

lemma unat_saturating_sub [wsat]: "unat (saturating_sub a b) = unat a - unat b"
  by (auto simp: saturating_sub_def word_le_nat_alt unat_sub)

lemma checked_add_eq_Some [wsat]:
  "checked_add a b = Some c \<longleftrightarrow> unat a + unat b < 2 ^ LENGTH('a) \<and> unat c = unat a + unat b"
  for a :: "'a::len word"
  by (auto simp: checked_add_def unat_word_ariths word_unat_eq_iff)

lemma checked_add_eq_None [wsat]:
  "checked_add a b = None \<longleftrightarrow> 2 ^ LENGTH('a) \<le> unat a + unat b" for a :: "'a::len word"
  by (auto simp: checked_add_def)

lemma unat_power_lt: "unat a ^ n < 2 ^ LENGTH('a) \<Longrightarrow> unat (a ^ n) = unat a ^ n"
  for a :: "'a::len word"
proof (induction n)
  case (Suc n)
  show ?case
  proof (cases "a = 0")
    case False
    then have "0 < unat a" by (simp add: unat_gt_0)
    then have "unat a ^ n \<le> unat a ^ Suc n" by simp
    with Suc.prems have "unat (a ^ n) = unat a ^ n" by (intro Suc.IH) linarith
    with Suc.prems show ?thesis by (simp add: unat_word_ariths)
  qed simp
qed simp

lemma unat_saturating_pow [wsat]:
  "unat (saturating_pow a e) = min (unat a ^ unat e) (2 ^ LENGTH('a) - 1)" for a :: "'a::len word"
  by (simp add: saturating_pow_def unat_power_lt)

lemma unat_plus_one: "a < b \<Longrightarrow> unat (a + 1) = Suc (unat a)" for a :: "'a::len word"
proof -
  assume "a < b"
  then have "Suc (unat a) < 2 ^ LENGTH('a)"
    using unat_less [of b] unfolding word_less_nat_alt by linarith
  then show ?thesis by (simp add: unat_word_ariths)
qed

lemma unat_minus_1: "a \<noteq> 0 \<Longrightarrow> unat (a - 1) = unat a - 1" for a :: "'a::len word"
  by (simp add: unat_gt_0 unat_sub_if' word_less_nat_alt Suc_le_eq)

subsection \<open>NonZero integers\<close>

text \<open>
  \<open>NonZeroU32\<close> and \<open>NonZeroUsize\<close>: a word that is not 0, by its type. \<open>nz_new\<close> is the checked
  constructor \<open>NonZero::new\<close>, \<open>nz_get\<close> the accessor \<open>get\<close>; \<open>nz_of\<close> names a value for examples.
\<close>

typedef (overloaded) 'a nonzero = "{w :: 'a::len word. w \<noteq> 0}" morphisms nz_get Abs_nonzero
  by (rule exI [of _ 1]) simp

type_synonym nz_u32 = "32 nonzero"
type_synonym nz_usize = "64 nonzero"

definition nz_of :: "'a::len word \<Rightarrow> 'a nonzero" where
  "nz_of w = Abs_nonzero (if w = 0 then 1 else w)"

definition nz_new :: "'a::len word \<Rightarrow> 'a nonzero option" where
  "nz_new w = (if w = 0 then None else Some (nz_of w))"

lemma nz_get_neq_0 [simp]: "nz_get n \<noteq> 0"
  using nz_get [of n] by simp

lemma nz_get_pos [simp]: "0 < unat (nz_get n)"
  by (simp add: unat_gt_0)

lemma nz_get_ge_1 [simp]: "1 \<le> unat (nz_get n)" "Suc 0 \<le> unat (nz_get n)"
  using nz_get_pos [of n] by linarith+

lemma nz_get_of [simp]: "nz_get (nz_of w) = (if w = 0 then 1 else w)"
  by (simp add: nz_of_def Abs_nonzero_inverse)

subsection \<open>Durations\<close>

text \<open>
  \<open>std::time::Duration\<close> is a 64-bit count of seconds and a count of nanoseconds below one billion:
  a number of nanoseconds from 0 to \<open>Duration::MAX\<close>. The type carries that bound.
\<close>

definition duration_max :: nat where
  "duration_max = (2 ^ 64 - 1) * 1000000000 + 999999999"

typedef duration = "{n :: nat. n \<le> duration_max}" morphisms as_nanos Dur
  by (rule exI [of _ 0]) simp

setup_lifting type_definition_duration

text \<open>The duration of \<open>n\<close> nanoseconds, \<open>Duration::MAX\<close> where \<open>n\<close> exceeds it.\<close>

lift_definition dur_of :: "nat \<Rightarrow> duration" is "\<lambda>n. min n duration_max"
  by simp

lemma as_nanos_le: "as_nanos d \<le> duration_max"
  using as_nanos [of d] by simp

lemma not_duration_max_less [simp]: "\<not> duration_max < as_nanos d"
  using as_nanos_le [of d] by simp

lemma as_nanos_dur_of [dur]: "as_nanos (dur_of n) = min n duration_max"
  by transfer simp

lemma dur_of_as_nanos [simp]: "dur_of (as_nanos d) = d"
  by transfer simp

lemma duration_eq_iff [dur]: "d = e \<longleftrightarrow> as_nanos d = as_nanos e"
  by (simp add: as_nanos_inject)

instantiation duration :: linorder
begin

definition less_eq_duration :: "duration \<Rightarrow> duration \<Rightarrow> bool" where
  "less_eq_duration d e \<longleftrightarrow> as_nanos d \<le> as_nanos e"

definition less_duration :: "duration \<Rightarrow> duration \<Rightarrow> bool" where
  "less_duration d e \<longleftrightarrow> as_nanos d < as_nanos e"

instance
  by standard (auto simp: less_eq_duration_def less_duration_def as_nanos_inject)

end

instantiation duration :: equal
begin

definition equal_duration :: "duration \<Rightarrow> duration \<Rightarrow> bool" where
  "equal_duration d e \<longleftrightarrow> as_nanos d = as_nanos e"

instance
  by standard (simp add: equal_duration_def as_nanos_inject)

end

declare less_eq_duration_def [dur] less_duration_def [dur]

text \<open>
  The operations of \<open>Duration\<close> the crate calls: \<open>ZERO\<close>, \<open>is_zero\<close>, \<open>saturating_add\<close>,
  \<open>saturating_sub\<close>, \<open>saturating_mul\<close>, division by a number, \<open>from_nanos\<close>, \<open>as_micros\<close>.
  \<open>min\<close> is the library's on the linear order above.
\<close>

definition dur_zero :: duration where
  "dur_zero = dur_of 0"

definition dur_is_zero :: "duration \<Rightarrow> bool" where
  "dur_is_zero d \<longleftrightarrow> as_nanos d = 0"

definition dur_add :: "duration \<Rightarrow> duration \<Rightarrow> duration" where
  "dur_add d e = dur_of (as_nanos d + as_nanos e)"

definition dur_sub :: "duration \<Rightarrow> duration \<Rightarrow> duration" where
  "dur_sub d e = dur_of (as_nanos d - as_nanos e)"

definition dur_mul :: "duration \<Rightarrow> u32 \<Rightarrow> duration" where
  "dur_mul d k = dur_of (as_nanos d * unat k)"

definition dur_div :: "duration \<Rightarrow> nat \<Rightarrow> duration" where
  "dur_div d k = dur_of (as_nanos d div k)"

definition from_nanos :: "u64 \<Rightarrow> duration" where
  "from_nanos w = dur_of (unat w)"

definition from_millis :: "nat \<Rightarrow> duration" where
  "from_millis n = dur_of (n * 1000000)"

definition as_micros :: "duration \<Rightarrow> nat" where
  "as_micros d = as_nanos d div 1000"

lemma u64_le_duration_max: "unat (w :: u64) \<le> duration_max"
  using u64_less [of w] by (simp add: duration_max_def)

lemma as_nanos_zero [dur]: "as_nanos dur_zero = 0"
  by (simp add: dur_zero_def dur)

lemma as_nanos_add [dur]: "as_nanos (dur_add d e) = min (as_nanos d + as_nanos e) duration_max"
  by (simp add: dur_add_def dur)

lemma as_nanos_sub [dur]: "as_nanos (dur_sub d e) = as_nanos d - as_nanos e"
  by (simp add: dur_sub_def as_nanos_dur_of min_def) (meson as_nanos_le diff_le_self le_trans)

lemma as_nanos_mul [dur]: "as_nanos (dur_mul d k) = min (as_nanos d * unat k) duration_max"
  by (simp add: dur_mul_def dur)

lemma as_nanos_div [dur]: "as_nanos (dur_div d k) = as_nanos d div k"
  by (simp add: dur_div_def as_nanos_dur_of min_def) (meson as_nanos_le div_le_dividend le_trans)

lemma as_nanos_from_nanos [dur]: "as_nanos (from_nanos w) = unat w"
  using u64_le_duration_max [of w] by (simp add: from_nanos_def dur)

lemma as_nanos_from_millis [dur]: "as_nanos (from_millis n) = min (n * 1000000) duration_max"
  by (simp add: from_millis_def dur)

lemma as_nanos_min [dur]: "as_nanos (min d e) = min (as_nanos d) (as_nanos e)"
  by (simp add: min_def less_eq_duration_def)

lemma dur_add_ge: "d \<le> dur_add d e"
  using as_nanos_le [of d] by (simp add: dur)

lemma dur_is_zero_iff [dur]: "dur_is_zero d \<longleftrightarrow> as_nanos d = 0"
  by (simp add: dur_is_zero_def)

subsection \<open>Instants\<close>

text \<open>
  \<open>std::time::Instant\<close> on the 64-bit Unix targets of the standard library is a signed 64-bit
  count of seconds with nanoseconds; here the nanoseconds since the clock's origin. \<open>Instant + Duration\<close>
  panics where the sum is not representable; \<open>Instant::elapsed\<close> stops at zero.
\<close>

type_synonym instant = nat

definition instant_max :: instant where
  "instant_max = (2 ^ 63 - 1) * 1000000000 + 999999999"

definition instant_add :: "instant \<Rightarrow> duration \<Rightarrow> instant outcome" where
  "instant_add t d =
     (if t + as_nanos d \<le> instant_max then Return (t + as_nanos d) else Panic)"

definition elapsed_since :: "instant \<Rightarrow> instant \<Rightarrow> duration" where
  "elapsed_since started now = dur_of (now - started)"

lemma elapsed_since_mono: "now \<le> now' \<Longrightarrow> elapsed_since started now \<le> elapsed_since started now'"
  by (auto simp: elapsed_since_def dur min_def)

subsection \<open>Lists\<close>

lemma sum_list_filter_le: "sum_list (map f (filter P xs)) \<le> sum_list (map f xs)" for f :: "'a \<Rightarrow> nat"
  by (induction xs) auto

lemma sum_list_filter_mono:
  "(\<And>x. x \<in> set xs \<Longrightarrow> P x \<Longrightarrow> Q x) \<Longrightarrow>
     sum_list (map f (filter P xs)) \<le> sum_list (map f (filter Q xs))" for f :: "'a \<Rightarrow> nat"
  by (induction xs) (auto simp: le_SucI trans_le_add2)

lemma filter_list_update:
  "i < length xs \<Longrightarrow> length (filter P (xs[i := v])) + (if P (xs ! i) then 1 else 0) =
     length (filter P xs) + (if P v then 1 else 0)"
proof (induction xs arbitrary: i)
  case (Cons x xs)
  show ?case
  proof (cases i)
    case (Suc j)
    with Cons.prems Cons.IH [of j] show ?thesis by simp
  qed simp
qed simp

lemma length_filter_other:
  "distinct (map f xs) \<Longrightarrow> x \<in> set xs \<Longrightarrow> Suc (length (filter (\<lambda>y. f y \<noteq> f x) xs)) = length xs"
proof (induction xs)
  case (Cons a xs)
  show ?case
  proof (cases "a = x")
    case True
    with Cons.prems have "filter (\<lambda>y. f y \<noteq> f x) xs = xs" 
      by (simp add: filter_id_conv) (metis image_eqI)
    with True show ?thesis by simp
  next
    case False
    with Cons show ?thesis by auto
  qed
qed simp

end
