(* ===== verification/Contracts.thy ===== *)
theory Contracts
  imports Prelude
begin

section \<open>Contracts: what the components promise each other\<close>

text \<open>
  The interfaces of the library, each a locale with the operations a client calls and the laws
  the provider keeps. A client's lemma is proved once here; the theory of each provider
  interprets the locale on the model's own definitions.
  \<open>state_machine\<close> is a component driven by operations that keep an invariant,
  \<open>simulation\<close> one that in addition computes like an abstract specification,
  \<open>token_pool\<close> one that admits callers against a finite stock,
  \<open>weighted_choice\<close> a routine that maps a random number to a weighted candidate, and
  \<open>retry_schedule\<close> a policy that admits a bounded number of retries with capped delays.
\<close>

subsection \<open>Components driven by operations\<close>

fun run :: "('s \<Rightarrow> 'op \<Rightarrow> 's) \<Rightarrow> 's \<Rightarrow> 'op list \<Rightarrow> 's" where
  "run step s [] = s"
| "run step s (x # xs) = run step (step s x) xs"

lemma run_append: "run step s (xs @ ys) = run step (run step s xs) ys"
  by (induction xs arbitrary: s) auto

lemma run_snoc: "run step s (xs @ [x]) = step (run step s xs) x"
  by (simp add: run_append)

text \<open>\<open>legal\<close> are the operations the component's clients may perform.\<close>

locale state_machine =
  fixes step :: "'s \<Rightarrow> 'op \<Rightarrow> 's" and inv :: "'s \<Rightarrow> bool" and legal :: "'op \<Rightarrow> bool"
  assumes step_inv: "inv s \<Longrightarrow> legal x \<Longrightarrow> inv (step s x)"
begin

lemma run_inv: "inv s \<Longrightarrow> list_all legal xs \<Longrightarrow> inv (run step s xs)"
  by (induction xs arbitrary: s) (auto intro: step_inv)

end

locale simulation = state_machine step inv legal
  for step :: "'s \<Rightarrow> 'op \<Rightarrow> 's" and inv :: "'s \<Rightarrow> bool" and legal :: "'op \<Rightarrow> bool" +
  fixes astep :: "'a \<Rightarrow> 'op \<Rightarrow> 'a" and absf :: "'s \<Rightarrow> 'a"
  assumes step_sim: "inv s \<Longrightarrow> legal x \<Longrightarrow> absf (step s x) = astep (absf s) x"
begin

lemma run_sim: "inv s \<Longrightarrow> list_all legal xs \<Longrightarrow> absf (run step s xs) = run astep (absf s) xs"
  by (induction xs arbitrary: s) (simp_all add: step_sim step_inv)

end

subsection \<open>Admission against a finite stock\<close>

text \<open>
  A pool hands out tokens: \<open>admits\<close> says whether an operation in a state takes one,
  \<open>returned\<close> how many it puts back, \<open>stock\<close> how many are left. No run takes more tokens
  than it found and had put back.
\<close>

fun admitted :: "('s \<Rightarrow> 'op \<Rightarrow> 's) \<Rightarrow> ('s \<Rightarrow> 'op \<Rightarrow> bool) \<Rightarrow> 's \<Rightarrow> 'op list \<Rightarrow> nat" where
  "admitted step admits s [] = 0"
| "admitted step admits s (x # xs) =
     (if admits s x then 1 else 0) + admitted step admits (step s x) xs"

locale token_pool = state_machine step inv legal
  for step :: "'s \<Rightarrow> 'op \<Rightarrow> 's" and inv :: "'s \<Rightarrow> bool" and legal :: "'op \<Rightarrow> bool" +
  fixes admits :: "'s \<Rightarrow> 'op \<Rightarrow> bool" and stock :: "'s \<Rightarrow> nat" and returned :: "'op \<Rightarrow> nat"
  assumes step_stock: "inv s \<Longrightarrow> legal x \<Longrightarrow>
    stock (step s x) + (if admits s x then 1 else 0) \<le> stock s + returned x"
begin

lemma admitted_le:
  "inv s \<Longrightarrow> list_all legal xs \<Longrightarrow>
     admitted step admits s xs + stock (run step s xs) \<le> stock s + sum_list (map returned xs)"
proof (induction xs arbitrary: s)
  case (Cons x xs)
  then have "admitted step admits (step s x) xs + stock (run step (step s x) xs)
      \<le> stock (step s x) + sum_list (map returned xs)"
    by (simp add: step_inv)
  with Cons.prems step_stock [of s x] show ?case by simp
qed simp

end

subsection \<open>Weighted choice\<close>

text \<open>
  The mathematical weighted choice: the number \<open>n\<close> falls in the interval of one candidate when
  the candidates' weights are laid end to end.
\<close>

fun pick :: "('r \<Rightarrow> nat) \<Rightarrow> 'r list \<Rightarrow> nat \<Rightarrow> 'r option" where
  "pick wt [] n = None"
| "pick wt (r # rs) n = (if n < wt r then Some r else pick wt rs (n - wt r))"

lemma pick_in_range: "n < sum_list (map wt rs) \<Longrightarrow> \<exists>r. pick wt rs n = Some r"
  by (induction rs arbitrary: n) auto

lemma pick_Some: "pick wt rs n = Some r \<Longrightarrow> r \<in> set rs \<and> 0 < wt r"
  by (induction rs arbitrary: n) (auto split: if_splits)

lemma pick_notin: "r \<notin> set rs \<Longrightarrow> pick wt rs n \<noteq> Some r"
  using pick_Some by fast

text \<open>A candidate that occurs once is chosen by exactly as many numbers as its weight.\<close>

lemma card_pick:
  assumes "distinct rs" and "r \<in> set rs"
  shows "card {n. n < sum_list (map wt rs) \<and> pick wt rs n = Some r} = wt r"
  using assms
proof (induction rs)
  case (Cons a rs)
  let ?S = "\<lambda>rs. {n. n < sum_list (map wt rs) \<and> pick wt rs n = Some r}"
  show ?case
  proof (cases "r = a")
    case True
    with Cons.prems have "?S (a # rs) = {..<wt a}"
      by (auto simp: pick_notin)
    with True show ?thesis by simp
  next
    case False
    then have "?S (a # rs) = (\<lambda>n. n + wt a) ` ?S rs"
      by (auto simp: image_iff not_less) (metis add.commute add_less_cancel_left le_add_diff_inverse)
    then have "card (?S (a # rs)) = card (?S rs)"
      by (simp add: card_image inj_on_def)
    with False Cons show ?thesis by simp
  qed
qed simp

text \<open>
  A provider computes the choice on 64-bit words for each valid configuration \<open>c\<close>. The laws:
  the total does not overflow, and an in-range draw gives what \<open>pick\<close> gives.
\<close>

locale weighted_choice =
  fixes valid :: "'c \<Rightarrow> bool" and candidates :: "'c \<Rightarrow> 'r list" and wt :: "'r \<Rightarrow> nat"
    and total :: "'c \<Rightarrow> u64" and chosen :: "'c \<Rightarrow> u64 \<Rightarrow> 'r option"
  assumes unat_total: "valid c \<Longrightarrow> unat (total c) = sum_list (map wt (candidates c))"
    and chosen_pick: "valid c \<Longrightarrow> d < total c \<Longrightarrow> chosen c d = pick wt (candidates c) (unat d)"
begin

lemma chosen_Some:
  assumes "valid c" and "d < total c"
  obtains r where "chosen c d = Some r" "r \<in> set (candidates c)" "0 < wt r"
proof -
  from assms have "unat d < sum_list (map wt (candidates c))"
    by (simp add: word_less_nat_alt unat_total)
  then obtain r where "pick wt (candidates c) (unat d) = Some r"
    using pick_in_range by blast
  then show ?thesis using that assms by (metis chosen_pick pick_Some)
qed

lemma card_chosen:
  assumes "valid c" and "distinct (candidates c)" and "r \<in> set (candidates c)"
  shows "card {d. d < total c \<and> chosen c d = Some r} = wt r"
proof -
  let ?N = "{n. n < sum_list (map wt (candidates c)) \<and> pick wt (candidates c) n = Some r}"
  have "unat ` {d. d < total c \<and> chosen c d = Some r} = ?N"
  proof (intro equalityI subsetI)
    fix n assume "n \<in> ?N"
    then have n: "n < unat (total c)" and p: "pick wt (candidates c) n = Some r"
      using assms(1) by (auto simp: unat_total)
    from n have u: "unat (word_of_nat n :: u64) = n"
      using u64_less [of "total c"] by (simp add: unat_of_nat)
    have "word_of_nat n < total c" using n by (simp add: word_less_nat_alt u)
    moreover from this have "chosen c (word_of_nat n) = Some r"
      using assms(1) p by (simp add: chosen_pick u)
    ultimately have "word_of_nat n \<in> {d. d < total c \<and> chosen c d = Some r}" by simp
    then have "unat (word_of_nat n :: u64) \<in> unat ` {d. d < total c \<and> chosen c d = Some r}"
      by (rule imageI)
    then show "n \<in> unat ` {d. d < total c \<and> chosen c d = Some r}" by (simp only: u)
  next
    fix n assume "n \<in> unat ` {d. d < total c \<and> chosen c d = Some r}"
    then obtain d where d: "n = unat d" "d < total c" "chosen c d = Some r" by auto
    from d(2) have "unat d < sum_list (map wt (candidates c))"
      by (simp only: word_less_nat_alt unat_total [OF assms(1)])
    with d chosen_pick [OF assms(1) d(2)] show "n \<in> ?N" by simp
  qed
  moreover have "inj_on unat {d. d < total c \<and> chosen c d = Some r}"
    by (rule inj_onI) (rule word_unat_eq_iff [THEN iffD2])
  then have "card (unat ` {d. d < total c \<and> chosen c d = Some r})
      = card {d. d < total c \<and> chosen c d = Some r}"
    by (rule card_image)
  ultimately show ?thesis using card_pick [OF assms(2,3), of wt] by simp
qed

end

subsection \<open>Retry schedules\<close>

text \<open>
  A retry policy answers, for the number of the attempt that failed and what the client saw of
  it, whether another attempt is admitted and after which delay. A client that asks it after
  attempts \<open>a\<close>, \<open>a + 1\<close>, \<dots> until it declines gets \<open>granted\<close>.
\<close>

fun granted :: "(u32 \<Rightarrow> 'x \<Rightarrow> duration option) \<Rightarrow> u32 \<Rightarrow> 'x list \<Rightarrow> duration list" where
  "granted f a [] = []"
| "granted f a (x # xs) = (case f a x of None \<Rightarrow> [] | Some d \<Rightarrow> d # granted f (a + 1) xs)"

locale retry_schedule =
  fixes admit :: "'p \<Rightarrow> u32 \<Rightarrow> 'x \<Rightarrow> duration option" and sound :: "'p \<Rightarrow> bool"
    and attempts :: "'p \<Rightarrow> u32" and cap :: "'p \<Rightarrow> duration"
  assumes admit_below: "admit p a x = Some d \<Longrightarrow> a < attempts p"
    and admit_capped: "sound p \<Longrightarrow> admit p a x = Some d \<Longrightarrow> d \<le> cap p"
begin

lemma granted_bounded: "length (granted (admit p) a xs) \<le> unat (attempts p) - unat a"
proof (induction xs arbitrary: a)
  case (Cons x xs)
  show ?case
  proof (cases "admit p a x")
    case (Some d)
    then have "a < attempts p" by (rule admit_below)
    then have "unat a < unat (attempts p)" "unat (a + 1) = Suc (unat a)"
      by (simp_all add: word_less_nat_alt unat_plus_one)
    with Some Cons.IH [of "a + 1"] show ?thesis by simp
  qed simp
qed simp

lemma granted_capped: "sound p \<Longrightarrow> list_all (\<lambda>d. d \<le> cap p) (granted (admit p) a xs)"
  by (induction xs arbitrary: a) (auto split: option.splits intro: admit_capped)

end

subsection \<open>Request budgets\<close>

text \<open>
  An outer time budget: whether it is exhausted after an elapsed time, how it clamps the time a
  child asks for, and whether it allows a wait. A client that makes every wait conditional on
  \<open>can_wait\<close> at the time spent so far never sleeps the budget away.
\<close>

fun checked_waits :: "(duration \<Rightarrow> duration \<Rightarrow> bool) \<Rightarrow> duration \<Rightarrow> duration list \<Rightarrow> duration option" where
  "checked_waits allowed e [] = Some e"
| "checked_waits allowed e (d # ds) =
     (if allowed e d then checked_waits allowed (dur_add e d) ds else None)"

locale request_budget =
  fixes exhausted :: "'b \<Rightarrow> duration \<Rightarrow> bool"
    and clamp :: "'b \<Rightarrow> duration \<Rightarrow> duration \<Rightarrow> duration"
    and allowed :: "'b \<Rightarrow> duration \<Rightarrow> duration \<Rightarrow> bool"
  assumes exhausted_mono: "exhausted b e \<Longrightarrow> e \<le> e' \<Longrightarrow> exhausted b e'"
    and allowed_iff: "allowed b e d \<longleftrightarrow> \<not> exhausted b (dur_add e d)"
    and clamp_le: "clamp b e r \<le> r"
    and clamp_safe: "t < clamp b e r \<Longrightarrow> \<not> exhausted b (dur_add e t)"
    and clamp_greatest: "\<not> exhausted b (dur_add e t) \<Longrightarrow> t \<le> r \<Longrightarrow> t \<le> clamp b e r"
begin

lemma allowed_not_exhausted: "allowed b e d \<Longrightarrow> \<not> exhausted b e"
  using exhausted_mono [OF _ dur_add_ge] by (auto simp: allowed_iff)

lemma checked_waits_not_exhausted:
  "\<not> exhausted b e \<Longrightarrow> checked_waits (allowed b) e ds = Some e' \<Longrightarrow> \<not> exhausted b e'"
  by (induction ds arbitrary: e) (auto simp: allowed_iff split: if_splits)

end

subsection \<open>Registries of shared handles\<close>

text \<open>
  A registry answers lookups by key with shared handles: \<open>lookup\<close> reads, \<open>acquire\<close> reads or
  publishes a fresh handle, \<open>discard\<close> forgets one. Callers race in any order; \<open>answers\<close> are the
  handles they get, in the order of the critical sections.
\<close>

datatype 'k registry_op = Find 'k | Acquire_Handle 'k | Discard 'k

fun registry_step ::
    "('s \<Rightarrow> 'k \<Rightarrow> 'r \<times> 's) \<Rightarrow> ('s \<Rightarrow> 'k \<Rightarrow> 's) \<Rightarrow> 's \<Rightarrow> 'k registry_op \<Rightarrow> 's" where
  "registry_step acquire discard s (Find k) = s"
| "registry_step acquire discard s (Acquire_Handle k) = snd (acquire s k)"
| "registry_step acquire discard s (Discard k) = discard s k"

fun answers ::
    "('s \<Rightarrow> 'k \<Rightarrow> 'r option) \<Rightarrow> ('s \<Rightarrow> 'k \<Rightarrow> 'r \<times> 's) \<Rightarrow> ('s \<Rightarrow> 'k \<Rightarrow> 's) \<Rightarrow>
     's \<Rightarrow> 'k registry_op list \<Rightarrow> ('k \<times> 'r) list" where
  "answers lookup acquire discard s [] = []"
| "answers lookup acquire discard s (Find k # xs) =
     (case lookup s k of None \<Rightarrow> [] | Some r \<Rightarrow> [(k, r)]) @ answers lookup acquire discard s xs"
| "answers lookup acquire discard s (Acquire_Handle k # xs) =
     (k, fst (acquire s k)) # answers lookup acquire discard (snd (acquire s k)) xs"
| "answers lookup acquire discard s (Discard k # xs) = answers lookup acquire discard (discard s k) xs"

locale keyed_registry =
  fixes lookup :: "'s \<Rightarrow> 'k \<Rightarrow> 'r option" and acquire :: "'s \<Rightarrow> 'k \<Rightarrow> 'r \<times> 's"
    and discard :: "'s \<Rightarrow> 'k \<Rightarrow> 's"
  assumes lookup_acquired: "lookup (snd (acquire s k)) k = Some (fst (acquire s k))"
    and acquire_found: "lookup s k = Some r \<Longrightarrow> acquire s k = (r, s)"
    and acquire_other: "k' \<noteq> k \<Longrightarrow> lookup (snd (acquire s k)) k' = lookup s k'"
    and discard_other: "k' \<noteq> k \<Longrightarrow> lookup (discard s k) k' = lookup s k'"
    and discard_same: "lookup (discard s k) k = None"
begin

lemma answers_found:
  "lookup s k = Some r \<Longrightarrow> Discard k \<notin> set xs \<Longrightarrow> (k, r') \<in> set (answers lookup acquire discard s xs) \<Longrightarrow> r' = r"
proof (induction xs arbitrary: s)
  case (Cons x xs)
  show ?case
  proof (cases x)
    case (Find k')
    with Cons show ?thesis by (auto split: option.splits)
  next
    case (Acquire_Handle k')
    with Cons.prems Cons.IH [of "snd (acquire s k')"] acquire_other [of k k' s] show ?thesis
      by (cases "k' = k") (auto simp: acquire_found)
  next
    case (Discard k')
    with Cons.prems Cons.IH [of "discard s k'"] discard_other [of k k' s] show ?thesis by auto
  qed
qed simp

text \<open>Callers of one key that nobody discards get one handle, however their lookups race.\<close>

lemma answers_agree:
  "Discard k \<notin> set xs \<Longrightarrow> (k, r) \<in> set (answers lookup acquire discard s xs) \<Longrightarrow>
     (k, r') \<in> set (answers lookup acquire discard s xs) \<Longrightarrow> r = r'"
proof (induction xs arbitrary: s)
  case (Cons x xs)
  show ?case
  proof (cases "lookup s k")
    case (Some r0)
    with Cons.prems answers_found [of s k r0 "x # xs"] show ?thesis by metis
  next
    case None
    show ?thesis
    proof (cases "x = Acquire_Handle k")
      case True
      have rest: "r'' = fst (acquire s k)"
        if "(k, r'') \<in> set (answers lookup acquire discard (snd (acquire s k)) xs)" for r''
        using that Cons.prems(1) by (intro answers_found [OF lookup_acquired]) simp_all
      with True Cons.prems(2,3) show ?thesis by auto
    next
      case False
      have "(k, r'') \<in> set (answers lookup acquire discard (registry_step acquire discard s x) xs)"
        if "(k, r'') \<in> set (answers lookup acquire discard s (x # xs))" for r''
        using that False None by (cases x) (auto split: option.splits)
      with Cons.IH [of "registry_step acquire discard s x"] Cons.prems show ?thesis by simp
    qed
  qed
qed simp

end

end
