(* ===== verification/Deadline.thy ===== *)
theory Deadline
  imports Contracts
begin

section \<open>Logical-request budgets (src/src/deadline.rs)\<close>

text \<open>
  \<open>LogicalRequestBudget\<close>: the outer time limit of one logical request, or none. The caller
  supplies the elapsed time; the budget never reads a clock. The lemmas say when it is
  exhausted, that a wait is allowed exactly when it leaves positive budget, and that a clamped
  child is the largest that ends in time. The interpretation \<open>budget\<close> provides the
  \<open>request_budget\<close> contract to the runtime adapters.
\<close>

record logical_request_budget =
  limit :: "duration option"

definition unlimited :: logical_request_budget where
  "unlimited = \<lparr>limit = None\<rparr>"

definition bounded :: "duration \<Rightarrow> logical_request_budget" where
  "bounded l = \<lparr>limit = Some l\<rparr>"

definition default_budget :: logical_request_budget where
  "default_budget = unlimited"

definition remaining :: "logical_request_budget \<Rightarrow> duration \<Rightarrow> duration option" where
  "remaining b elapsed = map_option (\<lambda>l. dur_sub l elapsed) (limit b)"

definition is_exhausted :: "logical_request_budget \<Rightarrow> duration \<Rightarrow> bool" where
  "is_exhausted b elapsed = (case limit b of None \<Rightarrow> False | Some l \<Rightarrow> l \<le> elapsed)"

definition clamp_child :: "logical_request_budget \<Rightarrow> duration \<Rightarrow> duration \<Rightarrow> duration" where
  "clamp_child b elapsed requested =
     (case remaining b elapsed of
       Some rest \<Rightarrow> min requested rest
     | None \<Rightarrow> requested)"

definition can_wait :: "logical_request_budget \<Rightarrow> duration \<Rightarrow> duration \<Rightarrow> bool" where
  "can_wait b elapsed delay =
     (case remaining b elapsed of
       Some rest \<Rightarrow> \<not> dur_is_zero rest \<and> delay < rest
     | None \<Rightarrow> True)"

lemmas budget_defs = unlimited_def bounded_def remaining_def is_exhausted_def clamp_child_def can_wait_def

interpretation budget: request_budget is_exhausted clamp_child can_wait
proof
  fix b e e' d r t
  show "is_exhausted b e \<Longrightarrow> e \<le> e' \<Longrightarrow> is_exhausted b e'"
    by (auto simp: budget_defs split: option.splits)
  show "can_wait b e d \<longleftrightarrow> \<not> is_exhausted b (dur_add e d)"
    using as_nanos_le [of "the (limit b)"]
    by (cases "limit b") (auto simp: budget_defs dur min_def not_le)
  show "clamp_child b e r \<le> r"
    by (auto simp: budget_defs split: option.splits)
  show "t < clamp_child b e r \<Longrightarrow> \<not> is_exhausted b (dur_add e t)"
    by (cases "limit b") (auto simp: budget_defs dur min_def split: if_splits)
  show "\<not> is_exhausted b (dur_add e t) \<Longrightarrow> t \<le> r \<Longrightarrow> t \<le> clamp_child b e r"
    by (cases "limit b") (auto simp: budget_defs dur min_def as_nanos_le split: if_splits)
qed

lemma remaining_antimono:
  "e \<le> e' \<Longrightarrow> remaining b e = Some r \<Longrightarrow> remaining b e' = Some r' \<Longrightarrow> r' \<le> r"
  by (auto simp: remaining_def dur)

lemma is_exhausted_iff_remaining: "is_exhausted b e \<longleftrightarrow> remaining b e = Some dur_zero"
  by (auto simp: budget_defs dur split: option.splits)

subsection \<open>Properties\<close>

text \<open>a request that makes each of its waits conditional on \<open>can_wait\<close> never waits its budget
  away: however many waits it performs, what is left is positive.\<close>

theorem waits_leave_budget:
  assumes "\<not> is_exhausted b e" and "checked_waits (can_wait b) e ds = Some e'"
  shows "\<not> is_exhausted b e' \<and> remaining b e' \<noteq> Some dur_zero"
  using budget.checked_waits_not_exhausted [OF assms] by (simp add: is_exhausted_iff_remaining)

theorem waits_leave_budget_witness:
  "\<not> is_exhausted (bounded (from_millis 100)) (from_millis 90) \<and>
   checked_waits (can_wait (bounded (from_millis 100))) (from_millis 0) [from_millis 50, from_millis 40]
     = Some (from_millis 90) \<and>
   checked_waits (can_wait (bounded (from_millis 100))) (from_millis 0) [from_millis 50, from_millis 50]
     = None"
proof (intro conjI)
  show run: "checked_waits (can_wait (bounded (from_millis 100))) (from_millis 0)
      [from_millis 50, from_millis 40] = Some (from_millis 90)"
    by (simp add: budget_defs dur duration_max_def)
  show "\<not> is_exhausted (bounded (from_millis 100)) (from_millis 90)"
    by (rule waits_leave_budget [OF _ run, THEN conjunct1]) (simp add: budget_defs dur duration_max_def)
  show "checked_waits (can_wait (bounded (from_millis 100))) (from_millis 0)
      [from_millis 50, from_millis 50] = None"
    by (simp add: budget_defs dur duration_max_def)
qed

text \<open>\<open>clamp_child\<close> grants the largest time a child may take: a child that uses less than it was
  granted leaves budget, and any time up to the requested one that leaves budget is granted.\<close>

theorem clamp_child_greatest:
  assumes "t \<le> requested"
  shows "(t < clamp_child b e requested \<longrightarrow> \<not> is_exhausted b (dur_add e t)) \<and>
    (\<not> is_exhausted b (dur_add e t) \<longrightarrow> t \<le> clamp_child b e requested) \<and>
    clamp_child b e requested \<le> requested"
  using budget.clamp_safe budget.clamp_greatest [OF _ assms] budget.clamp_le by blast

theorem clamp_child_greatest_witness:
  "from_millis 20 < clamp_child (bounded (from_millis 100)) (from_millis 70) (from_millis 50) \<and>
   \<not> is_exhausted (bounded (from_millis 100)) (dur_add (from_millis 70) (from_millis 20)) \<and>
   clamp_child (bounded (from_millis 100)) (from_millis 70) (from_millis 50) = from_millis 30"
proof -
  let ?b = "bounded (from_millis 100)"
  have "from_millis 20 < clamp_child ?b (from_millis 70) (from_millis 50)"
    by (simp add: budget_defs dur duration_max_def)
  moreover have "\<not> is_exhausted ?b (dur_add (from_millis 70) (from_millis 20))"
    using clamp_child_greatest [of "from_millis 20" "from_millis 50" ?b "from_millis 70"] calculation
    by (simp add: dur duration_max_def)
  moreover have "clamp_child ?b (from_millis 70) (from_millis 50) = from_millis 30"
    by (simp add: budget_defs dur duration_max_def)
  ultimately show ?thesis by blast
qed

end
