(* ===== verification/Retry.thy ===== *)
theory Retry
  imports Contracts
begin

section \<open>Backoff, retry policies and the retry loops (src/src/retry.rs)\<close>

text \<open>
  \<open>ExponentialBackoff\<close> and \<open>RetryPolicy\<close> with their constructors and the delay they compute, and
  the loops \<open>retry\<close> and \<open>retry_async\<close>. The closures a caller supplies, the clock, the sleep and
  the random source of the \<open>fastrand\<close> crate are the fields of an \<open>env\<close> over a world of type
  \<open>'w\<close> that every effect threads; the loops are total functions, since \<open>attempt\<close> is bounded by
  the policy. \<open>fastrand\<close> is a parameter: its documented law, a draw from \<open>0..=n\<close> is at most
  \<open>n\<close>, is the hypothesis \<open>draw_ok\<close> of the lemmas that need it.
\<close>

datatype retry_decision = Retry | DoNotRetry

datatype jitter = NoJitter | Full | Equal

definition default_jitter :: jitter where
  "default_jitter = Full"

datatype backoff_config_error = ZeroInitialDelay | MaximumBelowInitial | FactorBelowOne

fun backoff_error_message :: "backoff_config_error \<Rightarrow> string" where
  "backoff_error_message ZeroInitialDelay = ''initial delay must be greater than zero''"
| "backoff_error_message MaximumBelowInitial = ''maximum delay must not be below initial delay''"
| "backoff_error_message FactorBelowOne = ''backoff factor must be at least one''"

record exponential_backoff =
  initial :: duration
  maximum :: duration
  factor :: u32
  backoff_jitter :: jitter

definition backoff_new ::
    "duration \<Rightarrow> duration \<Rightarrow> u32 \<Rightarrow> jitter \<Rightarrow> (exponential_backoff, backoff_config_error) result" where
  "backoff_new init mx fac jit =
     (if dur_is_zero init then Err ZeroInitialDelay
      else if mx < init then Err MaximumBelowInitial
      else if fac < 1 then Err FactorBelowOne
      else Ok \<lparr>initial = init, maximum = mx, factor = fac, backoff_jitter = jit\<rparr>)"

subsection \<open>Delays\<close>

text \<open>A draw \<open>fastrand::u64(0..=n)\<close>, reading and updating the world.\<close>

type_synonym 'w draw_inclusive = "u64 \<Rightarrow> 'w \<Rightarrow> u64 \<times> 'w"

definition draw_ok :: "'w draw_inclusive \<Rightarrow> bool" where
  "draw_ok rng \<longleftrightarrow> (\<forall>n w. fst (rng n w) \<le> n)"

definition random_duration :: "'w draw_inclusive \<Rightarrow> duration \<Rightarrow> 'w \<Rightarrow> duration \<times> 'w" where
  "random_duration rng mx w =
     (let nanos = word_of_nat (min (as_nanos mx) (2 ^ 64 - 1)) :: u64;
          (r, w') = rng nanos w
      in (from_nanos r, w'))"

text \<open>The exponential cap: \<open>initial * factor ^ (attempt - 1)\<close>, saturating, at most \<open>maximum\<close>.\<close>

definition delay_cap :: "exponential_backoff \<Rightarrow> u32 \<Rightarrow> duration" where
  "delay_cap b attempt =
     (let exponent = saturating_sub attempt 1;
          multiplier = saturating_pow (factor b) exponent
      in min (dur_mul (initial b) multiplier) (maximum b))"

definition delay_after ::
    "'w draw_inclusive \<Rightarrow> exponential_backoff \<Rightarrow> u32 \<Rightarrow> 'w \<Rightarrow> duration \<times> 'w" where
  "delay_after rng b attempt w =
     (let cap = delay_cap b attempt
      in case backoff_jitter b of
           NoJitter \<Rightarrow> (cap, w)
         | Full \<Rightarrow> random_duration rng cap w
         | Equal \<Rightarrow>
             let flr = dur_div cap 2;
                 (r, w') = random_duration rng (dur_sub cap flr) w
             in (dur_add flr r, w'))"

lemma unat_nanos: "unat (word_of_nat (min n (2 ^ 64 - 1)) :: u64) = min n (2 ^ 64 - 1)"
  by (simp add: unat_of_nat)

lemma random_duration_le:
  assumes "draw_ok rng" and "random_duration rng mx w = (d, w')"
  shows "d \<le> mx"
proof -
  let ?n = "word_of_nat (min (as_nanos mx) (2 ^ 64 - 1)) :: u64"
  have "unat (fst (rng ?n w)) \<le> unat ?n"
    using assms(1) by (simp add: draw_ok_def word_le_nat_alt)
  also have "\<dots> \<le> as_nanos mx" unfolding unat_nanos by simp
  finally show ?thesis
    using assms(2) by (auto simp: random_duration_def dur split: prod.splits)
qed

lemma delay_cap_le_maximum: "delay_cap b a \<le> maximum b"
  by (simp add: delay_cap_def Let_def)

lemma as_nanos_delay_cap:
  "as_nanos (delay_cap b a) =
     min (min (as_nanos (initial b) * min (unat (factor b) ^ (unat a - 1)) (2 ^ 32 - 1)) duration_max)
         (as_nanos (maximum b))"
  by (simp add: delay_cap_def Let_def dur wsat)

lemma delay_cap_mono:
  assumes "a \<le> a'" and "factor b \<noteq> 0"
  shows "delay_cap b a \<le> delay_cap b a'"
proof -
  have "unat (factor b) ^ (unat a - 1) \<le> unat (factor b) ^ (unat a' - 1)"
    using assms by (intro power_increasing) (auto simp: word_le_nat_alt unat_gt_0 Suc_le_eq)
  then show ?thesis
    by (simp add: less_eq_duration_def as_nanos_delay_cap min.coboundedI1 min.coboundedI2
        mult_le_mono2 min_le_iff_disj)
qed

lemma delay_after_le_cap:
  assumes "draw_ok rng" and "delay_after rng b a w = (d, w')"
  shows "d \<le> delay_cap b a"
proof (cases "backoff_jitter b")
  case Equal
  let ?c = "delay_cap b a" and ?f = "dur_div (delay_cap b a) 2"
  from assms(2) Equal obtain r where
    r: "random_duration rng (dur_sub ?c ?f) w = (r, w')" and d: "d = dur_add ?f r"
    by (auto simp: delay_after_def Let_def split: prod.splits)
  have "r \<le> dur_sub ?c ?f" by (rule random_duration_le [OF assms(1) r])
  then show ?thesis by (auto simp: d dur min_def)
qed (use assms in \<open>auto simp: delay_after_def Let_def intro: random_duration_le\<close>)

lemma delay_after_equal_ge_half:
  assumes "backoff_jitter b = Equal"
  shows "dur_div (delay_cap b a) 2 \<le> fst (delay_after rng b a w)"
  using assms dur_add_ge by (auto simp: delay_after_def Let_def split: prod.splits)

lemma delay_after_no_jitter:
  "backoff_jitter b = NoJitter \<Longrightarrow> delay_after rng b a w = (delay_cap b a, w)"
  by (simp add: delay_after_def)

subsection \<open>The retry policy\<close>

record retry_policy =
  max_attempts :: nz_u32
  max_elapsed :: "duration option"
  backoff :: exponential_backoff

definition policy_new :: "nz_u32 \<Rightarrow> exponential_backoff \<Rightarrow> retry_policy" where
  "policy_new n b = \<lparr>max_attempts = n, max_elapsed = None, backoff = b\<rparr>"

definition with_max_elapsed :: "retry_policy \<Rightarrow> duration \<Rightarrow> retry_policy" where
  "with_max_elapsed p d = p\<lparr>max_elapsed := Some d\<rparr>"

definition next_delay ::
    "'w draw_inclusive \<Rightarrow> retry_policy \<Rightarrow> u32 \<Rightarrow> duration \<Rightarrow> retry_decision \<Rightarrow> 'w \<Rightarrow> duration option \<times> 'w"
  where
  "next_delay rng p attempt elapsed decision w =
     (if decision = DoNotRetry \<or> attempt \<ge> nz_get (max_attempts p) then (None, w)
      else
        let (delay, w') = delay_after rng (backoff p) attempt w
        in case max_elapsed p of
             Some mx \<Rightarrow> if dur_add elapsed delay > mx then (None, w') else (Some delay, w')
           | None \<Rightarrow> (Some delay, w'))"

lemma next_delay_SomeD:
  assumes "next_delay rng p a e dec w = (Some d, w')"
  shows "dec = Retry" and "a < nz_get (max_attempts p)"
    and "delay_after rng (backoff p) a w = (d, w')"
    and "max_elapsed p = Some m \<Longrightarrow> dur_add e d \<le> m"
  using assms
  by (cases dec; auto simp: next_delay_def not_le not_less split: if_splits option.splits prod.splits)+

lemma next_delay_None_iff:
  "fst (next_delay rng p a e dec w) = None \<longleftrightarrow>
     dec = DoNotRetry \<or> nz_get (max_attempts p) \<le> a \<or>
     (\<exists>m. max_elapsed p = Some m \<and> m < dur_add e (fst (delay_after rng (backoff p) a w)))"
  by (auto simp: next_delay_def split: if_splits option.splits prod.splits)

text \<open>What drawing preserves of the world, computing the delay preserves.\<close>

lemma next_delay_preserves:
  assumes "next_delay rng p a e dec w = (d, w')" and "P w" and "\<And>n w. P w \<Longrightarrow> P (snd (rng n w))"
  shows "P w'"
proof -
  have rand: "P (snd (random_duration rng mx w))" for mx
    using assms(2,3) by (simp add: random_duration_def Let_def split_beta)
  then have "P (snd (delay_after rng b a w))" for b
    using assms(2) by (cases "backoff_jitter b") (auto simp: delay_after_def Let_def split_beta)
  moreover have "w' = w \<or> w' = snd (delay_after rng (backoff p) a w)"
    using assms(1) by (auto simp: next_delay_def Let_def split: if_splits prod.splits option.splits)
  ultimately show ?thesis using assms(2) by auto
qed

lemma next_delay_measure:
  fixes \<mu> :: "'w \<Rightarrow> nat"
  assumes "next_delay rng p a e dec w = (d, w')" and "\<And>n w. \<mu> (snd (rng n w)) \<le> \<mu> w"
  shows "\<mu> w' \<le> \<mu> w"
  by (rule next_delay_preserves [OF assms(1), of "\<lambda>v. \<mu> v \<le> \<mu> w"]) (use assms(2) order_trans in blast)+

text \<open>The policy as a retry schedule: a question is the elapsed time, the decision and the world.\<close>

definition policy_admits ::
    "'w draw_inclusive \<Rightarrow> retry_policy \<Rightarrow> u32 \<Rightarrow> duration \<times> retry_decision \<times> 'w \<Rightarrow> duration option" where
  "policy_admits rng p a x = (case x of (e, dec, w) \<Rightarrow> fst (next_delay rng p a e dec w))"

lemma policy_admits_SomeD:
  assumes "policy_admits rng p a x = Some d"
  shows "a < nz_get (max_attempts p)" and "draw_ok rng \<Longrightarrow> d \<le> maximum (backoff p)"
proof -
  obtain e dec w where x: "x = (e, dec, w)" by (cases x)
  obtain w' where n: "next_delay rng p a e dec w = (Some d, w')"
    using assms by (cases "next_delay rng p a e dec w") (auto simp: x policy_admits_def)
  show "a < nz_get (max_attempts p)" by (rule next_delay_SomeD(2) [OF n])
  show "d \<le> maximum (backoff p)" if "draw_ok rng"
    using delay_after_le_cap [OF that next_delay_SomeD(3) [OF n]] delay_cap_le_maximum
    by (rule order_trans)
qed

text \<open>The random source is part of the schedule's configuration, which is sound where the source is.\<close>

interpretation policy: retry_schedule
  "\<lambda>(rng, p). policy_admits rng p" "\<lambda>(rng, p). draw_ok rng"
  "\<lambda>(rng, p). nz_get (max_attempts p)" "\<lambda>(rng, p). maximum (backoff p)"
  by standard (auto dest: policy_admits_SomeD)

lemma next_delay_progress:
  assumes "next_delay rng p a e dec w = (Some d, w')"
  shows "unat (nz_get (max_attempts p)) - unat (a + 1) < unat (nz_get (max_attempts p)) - unat a"
  using next_delay_SomeD(2) [OF assms] by (simp add: unat_plus_one) (simp add: word_less_nat_alt)

subsection \<open>The retry loops\<close>

text \<open>
  The caller's closures act on the world: an operation returns or panics, and the classifier may
  consult shared state, such as a retry budget, before it decides.
\<close>

record ('w, 't, 'e) env =
  operation :: "'w \<Rightarrow> ('t, 'e) result outcome \<times> 'w"
  clock :: "'w \<Rightarrow> instant"
  sleep :: "duration \<Rightarrow> 'w \<Rightarrow> 'w"
  draw :: "'w draw_inclusive"

type_synonym ('w, 'e) classifier = "'e \<Rightarrow> 'w \<Rightarrow> retry_decision \<times> 'w"

function retry_loop ::
    "retry_policy \<Rightarrow> ('w, 't, 'e) env \<Rightarrow> ('w, 'e) classifier \<Rightarrow> instant \<Rightarrow> u32 \<Rightarrow> 'w \<Rightarrow>
     ('t, 'e) result outcome \<times> 'w" where
  "retry_loop p env classify started attempt w =
     (case operation env w of
       (Panic, w1) \<Rightarrow> (Panic, w1)
     | (Return (Ok v), w1) \<Rightarrow> (Return (Ok v), w1)
     | (Return (Err e), w1) \<Rightarrow>
         (case classify e w1 of (decision, w2) \<Rightarrow>
            (case next_delay (draw env) p attempt (elapsed_since started (clock env w2)) decision w2 of
              (None, w3) \<Rightarrow> (Return (Err e), w3)
            | (Some delay, w3) \<Rightarrow>
                retry_loop p env classify started (attempt + 1) (sleep env delay w3))))"
  by pat_completeness auto
termination
  by (relation "measure (\<lambda>(p, env, c, st, a, w). unat (nz_get (max_attempts p)) - unat a)")
    (auto dest!: next_delay_progress [OF sym])

declare retry_loop.simps [simp del]

definition retry ::
    "retry_policy \<Rightarrow> ('w, 't, 'e) env \<Rightarrow> ('w, 'e) classifier \<Rightarrow> 'w \<Rightarrow> ('t, 'e) result outcome \<times> 'w" where
  "retry p env classify w = retry_loop p env classify (clock env w) 1 w"

text \<open>
  The asynchronous loop has the same body, with the operation and the sleep awaited; awaiting
  them is the world transition \<open>operation\<close> and \<open>sleep\<close>.
\<close>

function retry_async_loop ::
    "retry_policy \<Rightarrow> ('w, 't, 'e) env \<Rightarrow> ('w, 'e) classifier \<Rightarrow> instant \<Rightarrow> u32 \<Rightarrow> 'w \<Rightarrow>
     ('t, 'e) result outcome \<times> 'w" where
  "retry_async_loop p env classify started attempt w =
     (case operation env w of
       (Panic, w1) \<Rightarrow> (Panic, w1)
     | (Return (Ok v), w1) \<Rightarrow> (Return (Ok v), w1)
     | (Return (Err e), w1) \<Rightarrow>
         (case classify e w1 of (decision, w2) \<Rightarrow>
            (case next_delay (draw env) p attempt (elapsed_since started (clock env w2)) decision w2 of
              (None, w3) \<Rightarrow> (Return (Err e), w3)
            | (Some delay, w3) \<Rightarrow>
                retry_async_loop p env classify started (attempt + 1) (sleep env delay w3))))"
  by pat_completeness auto
termination
  by (relation "measure (\<lambda>(p, env, c, st, a, w). unat (nz_get (max_attempts p)) - unat a)")
    (auto dest!: next_delay_progress [OF sym])

declare retry_async_loop.simps [simp del]

definition retry_async ::
    "retry_policy \<Rightarrow> ('w, 't, 'e) env \<Rightarrow> ('w, 'e) classifier \<Rightarrow> 'w \<Rightarrow> ('t, 'e) result outcome \<times> 'w" where
  "retry_async p env classify w = retry_async_loop p env classify (clock env w) 1 w"

lemma retry_async_loop_eq: "retry_async_loop p env c st a w = retry_loop p env c st a w"
proof (induction p env c st a w rule: retry_loop.induct)
  case (1 p env c st a w)
  show ?case
    by (subst retry_async_loop.simps, subst retry_loop.simps)
      (auto simp: "1.IH" split: prod.splits outcome.splits result.splits option.splits)
qed

text \<open>A classifier that looks only at the error.\<close>

definition by_error :: "('e \<Rightarrow> retry_decision) \<Rightarrow> ('w, 'e) classifier" where
  "by_error f = (\<lambda>e w. (f e, w))"

lemma by_error_apply [simp]: "by_error f e w = (f e, w)"
  by (simp add: by_error_def)

text \<open>How the loop goes on after one attempt, in the three ways an attempt can end.\<close>

lemma retry_loop_ends:
  assumes "operation env w = (r, w1)" and "\<And>e. r \<noteq> Return (Err e)"
  shows "retry_loop p env c st a w = (r, w1)"
  using assms by (subst retry_loop.simps) (auto split: outcome.split result.split)

lemma retry_loop_gives_up:
  assumes "operation env w = (Return (Err e), w1)" and "c e w1 = (dec, w2)"
    and "next_delay (draw env) p a (elapsed_since st (clock env w2)) dec w2 = (None, w3)"
  shows "retry_loop p env c st a w = (Return (Err e), w3)"
  using assms by (subst retry_loop.simps) simp

lemma retry_loop_again:
  assumes "operation env w = (Return (Err e), w1)" and "c e w1 = (dec, w2)"
    and "next_delay (draw env) p a (elapsed_since st (clock env w2)) dec w2 = (Some d, w3)"
  shows "retry_loop p env c st a w = retry_loop p env c st (a + 1) (sleep env d w3)"
  using assms by (subst retry_loop.simps) simp

lemma retry_loop_cases:
  obtains (ends) r w1 where "operation env w = (r, w1)" "\<And>e. r \<noteq> Return (Err e)"
  | (gives_up) e w1 dec w2 w3 where "operation env w = (Return (Err e), w1)" "c e w1 = (dec, w2)"
      "next_delay (draw env) p a (elapsed_since st (clock env w2)) dec w2 = (None, w3)"
  | (again) e w1 dec w2 d w3 where "operation env w = (Return (Err e), w1)" "c e w1 = (dec, w2)"
      "next_delay (draw env) p a (elapsed_since st (clock env w2)) dec w2 = (Some d, w3)"
proof -
  obtain r w1 where op: "operation env w = (r, w1)" by fastforce
  show thesis
  proof (cases "\<exists>e. r = Return (Err e)")
    case False
    with op that(1) show ?thesis by blast
  next
    case True
    then obtain e where e: "r = Return (Err e)" by blast
    obtain dec w2 where c: "c e w1 = (dec, w2)" by fastforce
    obtain od w3 where nd: "next_delay (draw env) p a (elapsed_since st (clock env w2)) dec w2 = (od, w3)"
      by fastforce
    show ?thesis
    proof (cases od)
      case None
      with op e c nd that(2) show ?thesis by blast
    next
      case (Some d)
      with op e c nd that(3) show ?thesis by blast
    qed
  qed
qed

text \<open>
  Induction over the attempts of a run: it ends with this attempt, or it goes on from the state
  that the next attempt starts in.
\<close>

lemma retry_loop_induct [case_names ends gives_up again]:
  assumes "\<And>a w r w1. operation env w = (r, w1) \<Longrightarrow> (\<And>e. r \<noteq> Return (Err e)) \<Longrightarrow> P a w (r, w1)"
    and "\<And>a w e w1 dec w2 w3. operation env w = (Return (Err e), w1) \<Longrightarrow> c e w1 = (dec, w2) \<Longrightarrow>
      next_delay (draw env) p a (elapsed_since st (clock env w2)) dec w2 = (None, w3) \<Longrightarrow>
      P a w (Return (Err e), w3)"
    and "\<And>a w e w1 dec w2 d w3 r. operation env w = (Return (Err e), w1) \<Longrightarrow> c e w1 = (dec, w2) \<Longrightarrow>
      next_delay (draw env) p a (elapsed_since st (clock env w2)) dec w2 = (Some d, w3) \<Longrightarrow>
      P (a + 1) (sleep env d w3) r \<Longrightarrow> P a w r"
  shows "P a w (retry_loop p env c st a w)"
  using assms
proof (induction p env c st a w arbitrary: P rule: retry_loop.induct)
  case (1 p env c st a w P)
  note goal_1 = "1.prems"
  show ?case
  proof (cases rule: retry_loop_cases [where env = env and w = w and c = c and p = p and a = a and st = st])
    case (ends r w1)
    then show ?thesis using goal_1(1) by (simp add: retry_loop_ends)
  next
    case (gives_up e w1 dec w2 w3)
    then show ?thesis using goal_1(2) by (simp add: retry_loop_gives_up)
  next
    case (again e w1 dec w2 d w3)
    have "P (a + 1) (sleep env d w3) (retry_loop p env c st (a + 1) (sleep env d w3))"
      by (rule "1.IH" [OF again(1) [symmetric] refl refl again(2) [symmetric] again(3) [symmetric] refl])
        (rule goal_1; assumption)+
    from goal_1(3) [OF again this] show ?thesis
      using retry_loop_again [where c = c and p = p and st = st and a = a, OF again] by simp
  qed
qed

subsection \<open>What a run of the loop does\<close>

text \<open>
  A run is observed through a log of the attempts' results, the classifications and the sleeps,
  kept beside the world by \<open>logged\<close> and \<open>logged_by\<close>. It changes nothing of the run
  (\<open>retry_loop_logged\<close>).
\<close>

datatype ('t, 'e) retry_event =
  Attempt "('t, 'e) result outcome" | Classified 'e retry_decision | Slept duration

definition logged :: "('w, 't, 'e) env \<Rightarrow> (('t, 'e) retry_event list \<times> 'w, 't, 'e) env" where
  "logged env =
     \<lparr>operation = (\<lambda>(l, w). let (r, w') = operation env w in (r, (l @ [Attempt r], w'))),
      clock = (\<lambda>(l, w). clock env w),
      sleep = (\<lambda>d (l, w). (l @ [Slept d], sleep env d w)),
      draw = (\<lambda>n (l, w). let (x, w') = draw env n w in (x, (l, w')))\<rparr>"

definition logged_by :: "('w, 'e) classifier \<Rightarrow> (('t, 'e) retry_event list \<times> 'w, 'e) classifier" where
  "logged_by c = (\<lambda>e (l, w). let (dec, w') = c e w in (dec, (l @ [Classified e dec], w')))"

text \<open>
  The shape of a run's log: attempts separated by one classification as retryable and one sleep no
  longer than \<open>cap\<close>; the last attempt's result is the loop's, and an error that ends the loop has
  been classified.
\<close>

fun paced :: "duration \<Rightarrow> ('t, 'e) retry_event list \<Rightarrow> ('t, 'e) result outcome \<Rightarrow> bool" where
  "paced cap [Attempt r'] r \<longleftrightarrow> r' = r \<and> (\<forall>e. r \<noteq> Return (Err e))"
| "paced cap [Attempt (Return (Err e)), Classified e' dec] r \<longleftrightarrow> e' = e \<and> r = Return (Err e)"
| "paced cap (Attempt (Return (Err e)) # Classified e' dec # Slept d # l) r \<longleftrightarrow>
     e' = e \<and> dec = Retry \<and> d \<le> cap \<and> paced cap l r"
| "paced cap l r \<longleftrightarrow> False"

fun attempts :: "('t, 'e) retry_event list \<Rightarrow> nat" where
  "attempts [] = 0"
| "attempts (Attempt r # l) = Suc (attempts l)"
| "attempts (x # l) = attempts l"

lemma attempts_append [simp]: "attempts (l @ l') = attempts l + attempts l'"
  by (induction l rule: attempts.induct) auto

lemma paced_attempts_pos: "paced cap l r \<Longrightarrow> 0 < attempts l"
  by (induction cap l r rule: paced.induct) auto

lemma random_duration_logged:
  "random_duration (draw (logged env)) mx (l, w) =
     (let (d, w') = random_duration (draw env) mx w in (d, (l, w')))"
  by (simp add: random_duration_def logged_def Let_def split: prod.splits)

lemma delay_after_logged:
  "delay_after (draw (logged env)) b a (l, w) =
     (let (d, w') = delay_after (draw env) b a w in (d, (l, w')))"
  by (cases "backoff_jitter b")
    (simp_all add: delay_after_def random_duration_logged Let_def split: prod.splits)

lemma next_delay_logged:
  "next_delay (draw (logged env)) p a e dec (l, w) =
     (let (d, w') = next_delay (draw env) p a e dec w in (d, (l, w')))"
  by (simp add: next_delay_def delay_after_logged Let_def split: prod.splits option.splits)

lemma logged_simps:
  "operation (logged env) (l, w) = (let (r, w') = operation env w in (r, (l @ [Attempt r], w')))"
  "clock (logged env) (l, w) = clock env w"
  "sleep (logged env) d (l, w) = (l @ [Slept d], sleep env d w)"
  "logged_by c e (l, w) = (let (dec, w') = c e w in (dec, (l @ [Classified e dec], w')))"
  by (simp_all add: logged_def logged_by_def)

definition run_ok ::
    "retry_policy \<Rightarrow> u32 \<Rightarrow> ('t, 'e) retry_event list \<Rightarrow> ('t, 'e) result outcome \<Rightarrow> bool" where
  "run_ok p a l r \<longleftrightarrow>
     paced (maximum (backoff p)) l r \<and>
     attempts l \<le> max 1 (Suc (unat (nz_get (max_attempts p))) - unat a) \<and>
     (\<forall>e. last l = Classified e Retry \<longrightarrow> max_elapsed p \<noteq> None \<or>
        unat (nz_get (max_attempts p)) \<le> attempts l + unat a - 1)"

lemma paced_Nil [simp]: "\<not> paced cap [] r"
  by simp

lemma run_ok_last:
  assumes "next_delay rng p a el dec w = (None, w')"
  shows "run_ok p a [Attempt (Return (Err e)), Classified e dec] (Return (Err e))"
  using assms next_delay_None_iff [of rng p a el dec w]
  by (auto simp: run_ok_def word_le_nat_alt)

lemma run_ok_step:
  assumes "draw_ok rng" and d: "next_delay rng p a el dec w = (Some d, w')"
    and l: "run_ok p (a + 1) l r"
  shows "run_ok p a (Attempt (Return (Err e)) # Classified e dec # Slept d # l) r"
proof -
  note n = next_delay_SomeD [OF d]
  have "d \<le> maximum (backoff p)"
    using delay_after_le_cap [OF assms(1) n(3)] delay_cap_le_maximum by (rule order_trans)
  moreover have "unat (a + 1) = Suc (unat a)" "unat a < unat (nz_get (max_attempts p))"
    using n(2) by (simp_all add: unat_plus_one word_less_nat_alt)
  moreover have "l \<noteq> []" using l by (auto simp: run_ok_def)
  ultimately show ?thesis
    using l n(1) by (auto simp: run_ok_def)
qed

lemma retry_loop_logged:
  assumes "draw_ok (draw env)"
  shows "\<exists>l'. retry_loop p (logged env) (logged_by c) st a (l, w) =
              (fst (retry_loop p env c st a w), (l @ l', snd (retry_loop p env c st a w))) \<and>
            run_ok p a l' (fst (retry_loop p env c st a w))"
  using assms
proof (induction p env c st a w arbitrary: l rule: retry_loop.induct)
  case (1 p env c st a w)
  show ?case
  proof (cases rule: retry_loop_cases [where env = env and w = w and c = c and p = p and a = a and st = st])
    case (ends r w1)
    then have "run_ok p a [Attempt r] r" by (simp add: run_ok_def)
    moreover have "retry_loop p (logged env) (logged_by c) st a (l, w) = (r, (l @ [Attempt r], w1))"
      using ends by (intro retry_loop_ends) (simp_all add: logged_simps)
    ultimately show ?thesis by (simp add: retry_loop_ends [OF ends])
  next
    case (gives_up e w1 dec w2 w3)
    let ?l = "[Attempt (Return (Err e)), Classified e dec]"
    have "retry_loop p (logged env) (logged_by c) st a (l, w) = (Return (Err e), (l @ ?l, w3))"
      by (subst retry_loop.simps) (simp add: gives_up logged_simps next_delay_logged)
    moreover have "retry_loop p env c st a w = (Return (Err e), w3)"
      using gives_up by (rule retry_loop_gives_up)
    ultimately show ?thesis using run_ok_last [OF gives_up(3), of e] by (intro exI [of _ ?l]) simp
  next
    case (again e w1 dec w2 d w3)
    let ?l = "[Attempt (Return (Err e)), Classified e dec, Slept d]"
    have go: "retry_loop p (logged env) (logged_by c) st a (l, w) =
        retry_loop p (logged env) (logged_by c) st (a + 1) (l @ ?l, sleep env d w3)"
      by (subst retry_loop.simps) (simp add: again logged_simps next_delay_logged)
    from "1.IH" [OF again(1) [symmetric] refl refl again(2) [symmetric] again(3) [symmetric] refl "1.prems",
        of "l @ ?l"]
    obtain l' where "retry_loop p (logged env) (logged_by c) st (a + 1) (l @ ?l, sleep env d w3) =
          (fst (retry_loop p env c st (a + 1) (sleep env d w3)),
            (l @ ?l) @ l', snd (retry_loop p env c st (a + 1) (sleep env d w3)))"
      and ok: "run_ok p (a + 1) l' (fst (retry_loop p env c st (a + 1) (sleep env d w3)))"
      by blast
    with run_ok_step [OF "1.prems" again(3) ok] show ?thesis
      using retry_loop_again [where c = c and p = p and st = st and a = a, OF again]
      by (auto simp: go intro!: exI [of _ "?l @ l'"])
  qed
qed

text \<open>What the shape says of a run from the first attempt on.\<close>

lemma run_ok_whole:
  assumes "run_ok p 1 l r"
  shows "paced (maximum (backoff p)) l r" and "0 < attempts l" and "attempts l \<le> unat (nz_get (max_attempts p))"
    and "last l = Classified err Retry \<Longrightarrow> max_elapsed p = None \<Longrightarrow> attempts l = unat (nz_get (max_attempts p))"
proof -
  show pace: "paced (maximum (backoff p)) l r" using assms by (simp add: run_ok_def)
  then show "0 < attempts l" by (rule paced_attempts_pos)
  show le: "attempts l \<le> unat (nz_get (max_attempts p))"
    using assms nz_get_ge_1 [of "max_attempts p"] by (simp add: run_ok_def max_def split: if_splits)
  show "attempts l = unat (nz_get (max_attempts p))" if "last l = Classified err Retry" "max_elapsed p = None"
    using assms that le by (auto simp: run_ok_def intro: antisym)
qed

subsection \<open>Properties\<close>

text \<open>the waits an accepted backoff configuration can compute lie between the initial and the
  maximum delay before jitter, and never shrink from one attempt to the next.\<close>

theorem backoff_caps_ordered:
  assumes "backoff_new i m f j = Ok b" and "a \<le> a'"
  shows "i \<le> delay_cap b a \<and> delay_cap b a \<le> delay_cap b a' \<and> delay_cap b a' \<le> m"
proof (intro conjI)
  from assms(1) have b: "b = \<lparr>initial = i, maximum = m, factor = f, backoff_jitter = j\<rparr>"
      and ok: "i \<le> m" "f \<noteq> 0"
    by (auto simp: backoff_new_def not_less word_less_1 split: if_splits)
  have "1 \<le> min (unat f ^ n) (2 ^ 32 - 1)" for n
    using ok(2) by (simp add: Suc_le_eq unat_gt_0)
  from mult_le_mono2 [OF this, of "as_nanos i"] ok(1) show "i \<le> delay_cap b a"
    using as_nanos_le [of i] by (simp add: b less_eq_duration_def as_nanos_delay_cap)
  show "delay_cap b a \<le> delay_cap b a'" using assms(2) ok(2) by (intro delay_cap_mono) (simp_all add: b)
  show "delay_cap b a' \<le> m" using delay_cap_le_maximum [of b a'] by (simp add: b)
qed

theorem backoff_caps_ordered_witness:
  "\<exists>b. backoff_new (from_millis 10) (from_millis 100) 2 NoJitter = Ok b \<and>
     from_millis 10 \<le> delay_cap b 3 \<and> delay_cap b 3 \<le> delay_cap b 9 \<and> delay_cap b 9 \<le> from_millis 100 \<and>
     delay_cap b 3 = from_millis 40"
proof -
  let ?b = "\<lparr>initial = from_millis 10, maximum = from_millis 100, factor = 2, backoff_jitter = NoJitter\<rparr>"
  have new: "backoff_new (from_millis 10) (from_millis 100) 2 NoJitter = Ok ?b"
    by (simp add: backoff_new_def dur duration_max_def)
  have "delay_cap ?b 3 = from_millis 40"
    by (simp add: duration_eq_iff as_nanos_delay_cap as_nanos_from_millis duration_max_def)
  with new backoff_caps_ordered [OF new, of 3 9] show ?thesis by auto
qed

text \<open>with a random source that stays in its range, the wait after attempt \<open>a\<close> never exceeds
  the exponential cap \<open>min (initial * factor ^ (a - 1)) maximum\<close>, in which the multiplication and the power
  saturate; without jitter it is the cap, with equal jitter at least half of it.\<close>

theorem delay_after_within_cap:
  assumes "draw_ok rng"
  shows "fst (delay_after rng b a w) \<le> delay_cap b a \<and>
    (backoff_jitter b = NoJitter \<longrightarrow> fst (delay_after rng b a w) = delay_cap b a) \<and>
    (backoff_jitter b = Equal \<longrightarrow> dur_div (delay_cap b a) 2 \<le> fst (delay_after rng b a w)) \<and>
    as_nanos (delay_cap b a) =
      min (min (as_nanos (initial b) * min (unat (factor b) ^ (unat a - 1)) (2 ^ 32 - 1)) duration_max)
        (as_nanos (maximum b))"
  using delay_after_le_cap [OF assms surjective_pairing]
  by (simp add: delay_after_no_jitter delay_after_equal_ge_half as_nanos_delay_cap)

theorem delay_after_within_cap_witness:
  "fst (delay_after (\<lambda>n w. (n, w))
     \<lparr>initial = from_millis 10, maximum = from_millis 100, factor = 2, backoff_jitter = Equal\<rparr> 4 ())
   \<le> from_millis 80"
proof -
  let ?b = "\<lparr>initial = from_millis 10, maximum = from_millis 100, factor = 2, backoff_jitter = Equal\<rparr>"
  have cap: "delay_cap ?b 4 = from_millis 80"
    by (simp add: duration_eq_iff as_nanos_delay_cap as_nanos_from_millis duration_max_def)
  show ?thesis
    by (rule delay_after_within_cap [of "\<lambda>n w. (n, w)" ?b 4 "()", THEN conjunct1, unfolded cap])
      (simp add: draw_ok_def)
qed

text \<open>\<open>next_delay\<close> admits another attempt exactly when the caller classified the failure as
  retryable, attempts are left, and the elapsed time plus the wait stays within \<open>max_elapsed\<close>; the
  wait is the backoff's.\<close>

theorem next_delay_admits_iff:
  "fst (next_delay rng p a e dec w) = Some d \<longleftrightarrow>
     dec = Retry \<and> a < nz_get (max_attempts p) \<and> d = fst (delay_after rng (backoff p) a w) \<and>
     (case max_elapsed p of None \<Rightarrow> True | Some m \<Rightarrow> dur_add e d \<le> m)"
  by (cases dec) (auto simp: next_delay_def not_le not_less split: option.splits prod.splits)

text \<open>C4: a run of \<open>retry\<close> makes at least one and at most \<open>max_attempts\<close> attempts; between two
  attempts it classifies the error, as retryable, and sleeps once, no longer than the backoff's
  maximum; it returns the last attempt's result or panics as that attempt did; and it gives up on a
  retryable error only when the attempts are used up or a time limit is set. Observing the run
  changes nothing of it.\<close>

theorem retry_run_bounded:
  assumes "draw_ok (draw env)"
  shows "\<exists>l. retry p (logged env) (logged_by c) ([], w) = (fst (retry p env c w), (l, snd (retry p env c w))) \<and>
    paced (maximum (backoff p)) l (fst (retry p env c w)) \<and>
    0 < attempts l \<and> attempts l \<le> unat (nz_get (max_attempts p)) \<and>
    (\<forall>err. last l = Classified err Retry \<and> max_elapsed p = None \<longrightarrow>
       attempts l = unat (nz_get (max_attempts p)))"
proof -
  let ?st = "clock env w"
  obtain l where l: "retry_loop p (logged env) (logged_by c) ?st 1 ([], w) =
        (fst (retry_loop p env c ?st 1 w), ([] @ l, snd (retry_loop p env c ?st 1 w)))"
      and ok: "run_ok p 1 l (fst (retry_loop p env c ?st 1 w))"
    using retry_loop_logged [OF assms, of p c ?st 1 "[]" w] by blast
  have "clock (logged env) ([], w) = ?st" by (simp add: logged_simps)
  with l run_ok_whole [OF ok] show ?thesis
    unfolding retry_def by (intro exI [of _ l]) simp
qed

text \<open>A dependency that always fails at once, in a world that is the instant.\<close>

definition failing_env :: "(instant, unit, unit) env" where
  "failing_env =
     \<lparr>operation = (\<lambda>w. (Return (Err ()), w + 1)), clock = (\<lambda>w. w), sleep = (\<lambda>d w. w + as_nanos d),
      draw = (\<lambda>n w. (n, w))\<rparr>"

definition three_attempts :: retry_policy where
  "three_attempts = policy_new (nz_of 3)
     \<lparr>initial = from_millis 10, maximum = from_millis 100, factor = 2, backoff_jitter = Full\<rparr>"

theorem retry_run_bounded_witness:
  "\<exists>l. paced (from_millis 100) l (fst (retry three_attempts failing_env (by_error (\<lambda>_. Retry)) 0)) \<and>
     0 < attempts l \<and> attempts l \<le> 3"
proof -
  have "draw_ok (draw failing_env)" by (simp add: draw_ok_def failing_env_def)
  from retry_run_bounded [OF this, of three_attempts "by_error (\<lambda>_. Retry)" 0] show ?thesis
    by (auto simp: three_attempts_def policy_new_def)
qed

text \<open>the asynchronous retry makes the same attempts, waits and result as the blocking one.\<close>

theorem retry_async_like_retry: "retry_async p env c w = retry p env c w"
  by (simp add: retry_async_def retry_def retry_async_loop_eq)

end
