(* ===== verification/Retry_Budget.thy ===== *)
theory Retry_Budget
  imports Contracts
begin

section \<open>Shared retry budgets (src/src/retry_budget.rs)\<close>

text \<open>
  \<open>SharedRetryBudget\<close>: a stock of retry tokens behind a mutex, shared by all clones of one
  namespace. Each operation runs under the lock, so a concurrent execution is a sequence of
  operations on one state. The lemmas bound what is admitted by the capacity and what successes
  put back, and relate the 32-bit counter to an unbounded one. The public types
  \<open>PrimaryRetryBudget\<close> and \<open>ShadowRetryBudget\<close> wrap one such budget each; they are the type
  \<open>'n budget_of\<close> at two tags, so that one cannot stand for the other.
\<close>

record retry_budget_config =
  capacity :: nz_u32
  replenish_per_success :: nz_u32

definition budget_config_new :: "nz_u32 \<Rightarrow> nz_u32 \<Rightarrow> retry_budget_config" where
  "budget_config_new c r = \<lparr>capacity = c, replenish_per_success = r\<rparr>"

datatype retry_budget_decision = Admitted u32 | Suppressed

record shared_retry_budget =
  budget_config :: retry_budget_config
  tokens :: u32

definition budget_new :: "retry_budget_config \<Rightarrow> shared_retry_budget" where
  "budget_new cfg = \<lparr>budget_config = cfg, tokens = nz_get (capacity cfg)\<rparr>"

definition try_acquire_retry ::
    "shared_retry_budget \<Rightarrow> retry_budget_decision \<times> shared_retry_budget" where
  "try_acquire_retry s =
     (if tokens s = 0 then (Suppressed, s)
      else let s' = s\<lparr>tokens := tokens s - 1\<rparr> in (Admitted (tokens s'), s'))"

definition budget_record_success :: "shared_retry_budget \<Rightarrow> u32 \<times> shared_retry_budget" where
  "budget_record_success s =
     (let n = min (saturating_add (tokens s) (nz_get (replenish_per_success (budget_config s))))
                  (nz_get (capacity (budget_config s)));
          s' = s\<lparr>tokens := n\<rparr>
      in (tokens s', s'))"

definition available_retries :: "shared_retry_budget \<Rightarrow> u32" where
  "available_retries s = tokens s"

subsection \<open>The two namespaces\<close>

datatype primary_tag = Primary_Tag
datatype shadow_tag = Shadow_Tag
datatype 'n budget_of = Budget_Of (inner: shared_retry_budget)

type_synonym primary_retry_budget = "primary_tag budget_of"
type_synonym shadow_retry_budget = "shadow_tag budget_of"

definition ns_new :: "retry_budget_config \<Rightarrow> 'n budget_of" where
  "ns_new cfg = Budget_Of (budget_new cfg)"

definition ns_try_acquire_retry :: "'n budget_of \<Rightarrow> retry_budget_decision \<times> 'n budget_of" where
  "ns_try_acquire_retry b = (let (d, s) = try_acquire_retry (inner b) in (d, Budget_Of s))"

definition ns_record_success :: "'n budget_of \<Rightarrow> u32 \<times> 'n budget_of" where
  "ns_record_success b = (let (n, s) = budget_record_success (inner b) in (n, Budget_Of s))"

definition ns_available_retries :: "'n budget_of \<Rightarrow> u32" where
  "ns_available_retries b = available_retries (inner b)"

definition ns_config :: "'n budget_of \<Rightarrow> retry_budget_config" where
  "ns_config b = budget_config (inner b)"

subsection \<open>Sequences of operations\<close>

datatype budget_op = Acquire | Success

fun budget_step :: "shared_retry_budget \<Rightarrow> budget_op \<Rightarrow> shared_retry_budget" where
  "budget_step s Acquire = snd (try_acquire_retry s)"
| "budget_step s Success = snd (budget_record_success s)"

definition budget_inv :: "shared_retry_budget \<Rightarrow> bool" where
  "budget_inv s \<longleftrightarrow> tokens s \<le> nz_get (capacity (budget_config s))"

lemma tokens_acquire:
  "unat (tokens (snd (try_acquire_retry s))) = unat (tokens s) - 1"
  by (simp add: try_acquire_retry_def Let_def unat_minus_1)

lemma tokens_success:
  "unat (tokens (snd (budget_record_success s))) =
     min (unat (tokens s) + unat (nz_get (replenish_per_success (budget_config s))))
       (unat (nz_get (capacity (budget_config s))))"
  using u32_less [of "nz_get (capacity (budget_config s))"]
  by (simp add: budget_record_success_def Let_def wsat min_def word_le_nat_alt)

lemma budget_config_step [simp]: "budget_config (budget_step s x) = budget_config s"
  by (cases x) (simp_all add: try_acquire_retry_def budget_record_success_def Let_def)

lemma budget_config_run [simp]: "budget_config (run budget_step s xs) = budget_config s"
  by (induction xs arbitrary: s) simp_all

lemma budget_inv_new [simp]: "budget_inv (budget_new cfg)"
  by (simp add: budget_inv_def budget_new_def)

lemma budget_inv_step: "budget_inv s \<Longrightarrow> budget_inv (budget_step s x)"
  by (cases x)
    (simp_all add: budget_inv_def word_le_nat_alt tokens_acquire tokens_success
      budget_config_step [of s Acquire, simplified] budget_config_step [of s Success, simplified])

fun admits_retry :: "shared_retry_budget \<Rightarrow> budget_op \<Rightarrow> bool" where
  "admits_retry s Acquire = (case fst (try_acquire_retry s) of Admitted _ \<Rightarrow> True | Suppressed \<Rightarrow> False)"
| "admits_retry s Success = False"

lemma admits_retry_iff: "admits_retry s Acquire \<longleftrightarrow> tokens s \<noteq> 0"
  by (simp add: try_acquire_retry_def Let_def)

text \<open>
  The counter of the specification: an unbounded number that \<open>Acquire\<close> takes from and
  \<open>Success\<close> adds to, cut at the capacity.
\<close>

fun budget_spec :: "nat \<Rightarrow> nat \<Rightarrow> nat \<Rightarrow> budget_op \<Rightarrow> nat" where
  "budget_spec cap per_success n Acquire = n - 1"
| "budget_spec cap per_success n Success = min cap (n + per_success)"

text \<open>The contracts, for the budgets of one configuration.\<close>

definition has_config :: "retry_budget_config \<Rightarrow> shared_retry_budget \<Rightarrow> bool" where
  "has_config cfg s \<longleftrightarrow> budget_config s = cfg \<and> budget_inv s"

fun put_back :: "retry_budget_config \<Rightarrow> budget_op \<Rightarrow> nat" where
  "put_back cfg Acquire = 0"
| "put_back cfg Success = unat (nz_get (replenish_per_success cfg))"

interpretation tokens: token_pool budget_step "has_config cfg" "\<lambda>_. True" admits_retry
  "\<lambda>s. unat (tokens s)" "put_back cfg" for cfg
proof
  fix s x
  assume s: "has_config cfg s"
  then show "has_config cfg (budget_step s x)" by (simp add: has_config_def budget_inv_step)
  show "unat (tokens (budget_step s x)) + (if admits_retry s x then 1 else 0)
      \<le> unat (tokens s) + put_back cfg x"
    using s by (cases x) (auto simp: admits_retry_iff tokens_acquire tokens_success has_config_def
        unat_gt_0 Suc_le_eq simp del: admits_retry.simps(1))
qed

interpretation counter: simulation budget_step "has_config cfg" "\<lambda>_. True"
  "budget_spec (unat (nz_get (capacity cfg))) (unat (nz_get (replenish_per_success cfg)))"
  "\<lambda>s. unat (tokens s)" for cfg
proof
  fix s x
  assume "has_config cfg s"
  then show "unat (tokens (budget_step s x)) =
      budget_spec (unat (nz_get (capacity cfg))) (unat (nz_get (replenish_per_success cfg)))
        (unat (tokens s)) x"
    by (cases x) (simp_all add: tokens_acquire tokens_success has_config_def min.commute)
qed

lemma has_config_new [simp]: "has_config cfg (budget_new cfg)"
  by (simp add: has_config_def) (simp add: budget_new_def)

subsection \<open>Properties\<close>

text \<open>however retries and successes interleave, a budget admits at most its capacity plus what
  the recorded successes replenish, and never holds more than its capacity.\<close>

theorem retries_bounded_by_budget:
  "admitted budget_step admits_retry (budget_new cfg) xs
     \<le> unat (nz_get (capacity cfg)) + sum_list (map (put_back cfg) xs) \<and>
   available_retries (run budget_step (budget_new cfg) xs) \<le> nz_get (capacity cfg)"
proof (intro conjI)
  have all: "list_all (\<lambda>_. True) xs" by (simp add: list_all_iff)
  show "admitted budget_step admits_retry (budget_new cfg) xs
     \<le> unat (nz_get (capacity cfg)) + sum_list (map (put_back cfg) xs)"
    using tokens.admitted_le [OF has_config_new all, of cfg] by (simp add: budget_new_def)
  show "available_retries (run budget_step (budget_new cfg) xs) \<le> nz_get (capacity cfg)"
    using tokens.run_inv [OF has_config_new all, of cfg]
    by (metis has_config_def budget_inv_def available_retries_def)
qed

text \<open>C31: the saturating 32-bit counter behind the mutex is the mathematical token count: after any retries and
  successes it holds as many tokens as the specification, and it admits the next retry exactly where one is left,
  announcing how many are left after it.\<close>

theorem retry_budget_counts:
  "let s = run budget_step (budget_new cfg) xs;
       n = run (budget_spec (unat (nz_get (capacity cfg))) (unat (nz_get (replenish_per_success cfg))))
         (unat (nz_get (capacity cfg))) xs
   in unat (available_retries s) = n \<and>
     (case fst (try_acquire_retry s) of Suppressed \<Rightarrow> n = 0 | Admitted left \<Rightarrow> n = Suc (unat left))"
proof -
  have n: "unat (tokens (run budget_step (budget_new cfg) xs)) =
      run (budget_spec (unat (nz_get (capacity cfg))) (unat (nz_get (replenish_per_success cfg))))
        (unat (nz_get (capacity cfg))) xs"
    using counter.run_sim [OF has_config_new, of xs cfg] by (simp add: budget_new_def list_all_iff)
  show ?thesis
    unfolding Let_def n [symmetric]
    by (simp add: available_retries_def try_acquire_retry_def Let_def unat_minus_1 unat_gt_0)
qed

end
