(* ===== verification/Circuit_Breaker.thy ===== *)
theory Circuit_Breaker
  imports Contracts
begin

section \<open>The circuit breaker (src/src/circuit_breaker.rs)\<close>

text \<open>
  The breaker's configuration, its shared state (a generation number and a mode) and every
  operation on it: the transitions, the refresh of an expired \<open>Open\<close>, admission, the three ways a
  permit ends, and \<open>call\<close>. Each operation runs under the breaker's mutex and reads the clock at
  most once, so it is a function of the state and the instant \<open>now\<close>. \<open>Instant::now() + timeout\<close>
  panics where the sum is not representable; a panic under the lock poisons the mutex, \<open>lock\<close>
  recovers the poisoned state, and so the operation returns the state at the panic.
\<close>

datatype circuit_state = Closed | Open | HalfOpen

datatype breaker_config_error = ZeroFailureThreshold | ZeroOpenTimeout | ZeroHalfOpenSuccessThreshold

fun breaker_error_message :: "breaker_config_error \<Rightarrow> string" where
  "breaker_error_message ZeroFailureThreshold = ''failure threshold must be greater than zero''"
| "breaker_error_message ZeroOpenTimeout = ''open timeout must be greater than zero''"
| "breaker_error_message ZeroHalfOpenSuccessThreshold =
     ''half-open success threshold must be greater than zero''"

record circuit_breaker_config =
  failure_threshold :: u32
  open_timeout :: duration
  half_open_success_threshold :: u32

definition breaker_config_new ::
    "u32 \<Rightarrow> duration \<Rightarrow> u32 \<Rightarrow> (circuit_breaker_config, breaker_config_error) result" where
  "breaker_config_new ft ot hs =
     (if ft = 0 then Err ZeroFailureThreshold
      else if dur_is_zero ot then Err ZeroOpenTimeout
      else if hs = 0 then Err ZeroHalfOpenSuccessThreshold
      else Ok \<lparr>failure_threshold = ft, open_timeout = ot, half_open_success_threshold = hs\<rparr>)"

datatype breaker_rejected = CircuitBreakerRejected

fun breaker_rejected_display :: "breaker_rejected \<Rightarrow> string" where
  "breaker_rejected_display CircuitBreakerRejected = ''circuit breaker rejected the call''"

datatype 'e breaker_call_error = BreakerRejected breaker_rejected | BreakerInner 'e

fun breaker_call_error_display :: "('e \<Rightarrow> string) \<Rightarrow> 'e breaker_call_error \<Rightarrow> string" where
  "breaker_call_error_display show_error (BreakerRejected r) = breaker_rejected_display r"
| "breaker_call_error_display show_error (BreakerInner e) = show_error e"

datatype permit_kind = PermitClosed | PermitHalfOpen

datatype mode =
  ModeClosed (consecutive_failures: u32)
| ModeOpen (until: instant)
| ModeHalfOpen (in_flight: u32) (successes: u32)

record shared =
  generation :: u64
  mode :: mode

subsection \<open>Transitions\<close>

definition transition_closed :: "shared \<Rightarrow> shared" where
  "transition_closed s = s\<lparr>generation := generation s + 1, mode := ModeClosed 0\<rparr>"

definition transition_open :: "duration \<Rightarrow> instant \<Rightarrow> shared \<Rightarrow> unit outcome \<times> shared" where
  "transition_open timeout now s =
     (let s' = s\<lparr>generation := generation s + 1\<rparr>
      in case instant_add now timeout of
           Return u \<Rightarrow> (Return (), s'\<lparr>mode := ModeOpen u\<rparr>)
         | Panic \<Rightarrow> (Panic, s'))"

definition transition_half_open :: "shared \<Rightarrow> shared" where
  "transition_half_open s = s\<lparr>generation := generation s + 1, mode := ModeHalfOpen 0 0\<rparr>"

definition breaker_new :: shared where
  "breaker_new = \<lparr>generation = 0, mode = ModeClosed 0\<rparr>"

definition refresh_open_state :: "instant \<Rightarrow> shared \<Rightarrow> shared" where
  "refresh_open_state now s =
     (case mode s of
       ModeOpen u \<Rightarrow> if now \<ge> u then transition_half_open s else s
     | _ \<Rightarrow> s)"

definition breaker_state :: "instant \<Rightarrow> shared \<Rightarrow> circuit_state \<times> shared" where
  "breaker_state now s =
     (let s' = refresh_open_state now s
      in (case mode s' of
            ModeClosed _ \<Rightarrow> Closed
          | ModeOpen _ \<Rightarrow> Open
          | ModeHalfOpen _ _ \<Rightarrow> HalfOpen, s'))"

subsection \<open>Permits\<close>

record permit =
  permit_generation :: u64
  kind :: permit_kind
  completed :: bool

definition try_acquire ::
    "circuit_breaker_config \<Rightarrow> instant \<Rightarrow> shared \<Rightarrow> (permit, breaker_rejected) result \<times> shared" where
  "try_acquire cfg now s0 =
     (let s = refresh_open_state now s0;
          admit = (\<lambda>k s'. (Ok \<lparr>permit_generation = generation s', kind = k, completed = False\<rparr>, s'))
      in case mode s of
           ModeClosed _ \<Rightarrow> admit PermitClosed s
         | ModeOpen _ \<Rightarrow> (Err CircuitBreakerRejected, s)
         | ModeHalfOpen i k \<Rightarrow>
             if i \<ge> half_open_success_threshold cfg then (Err CircuitBreakerRejected, s)
             else admit PermitHalfOpen (s\<lparr>mode := ModeHalfOpen (i + 1) k\<rparr>))"

definition record_success :: "circuit_breaker_config \<Rightarrow> u64 \<Rightarrow> permit_kind \<Rightarrow> shared \<Rightarrow> shared" where
  "record_success cfg g k s =
     (if generation s \<noteq> g then s
      else case (mode s, k) of
        (ModeClosed _, PermitClosed) \<Rightarrow> s\<lparr>mode := ModeClosed 0\<rparr>
      | (ModeHalfOpen i n, PermitHalfOpen) \<Rightarrow>
          let n' = saturating_add n 1;
              s' = s\<lparr>mode := ModeHalfOpen (saturating_sub i 1) n'\<rparr>
          in if n' \<ge> half_open_success_threshold cfg then transition_closed s' else s'
      | _ \<Rightarrow> s)"

definition record_failure ::
    "circuit_breaker_config \<Rightarrow> instant \<Rightarrow> u64 \<Rightarrow> permit_kind \<Rightarrow> shared \<Rightarrow> unit outcome \<times> shared" where
  "record_failure cfg now g k s =
     (if generation s \<noteq> g then (Return (), s)
      else case (mode s, k) of
        (ModeClosed f, PermitClosed) \<Rightarrow>
          let f' = saturating_add f 1;
              s' = s\<lparr>mode := ModeClosed f'\<rparr>
          in if f' \<ge> failure_threshold cfg then transition_open (open_timeout cfg) now s'
             else (Return (), s')
      | (ModeHalfOpen i n, PermitHalfOpen) \<Rightarrow>
          transition_open (open_timeout cfg) now (s\<lparr>mode := ModeHalfOpen (saturating_sub i 1) n\<rparr>)
      | _ \<Rightarrow> (Return (), s))"

definition abandon :: "u64 \<Rightarrow> permit_kind \<Rightarrow> shared \<Rightarrow> shared" where
  "abandon g k s =
     (if k \<noteq> PermitHalfOpen then s
      else if generation s \<noteq> g then s
      else case mode s of
        ModeHalfOpen i n \<Rightarrow> s\<lparr>mode := ModeHalfOpen (saturating_sub i 1) n\<rparr>
      | _ \<Rightarrow> s)"

text \<open>
  Dropping a permit abandons it unless it is completed. \<open>success\<close> and \<open>failure\<close> consume the
  permit: it is dropped at their end, completed, or, when \<open>failure\<close> panics, not completed.
\<close>

definition permit_drop :: "permit \<Rightarrow> shared \<Rightarrow> shared" where
  "permit_drop p s = (if \<not> completed p then abandon (permit_generation p) (kind p) s else s)"

definition permit_success :: "circuit_breaker_config \<Rightarrow> permit \<Rightarrow> shared \<Rightarrow> shared" where
  "permit_success cfg p s =
     (let s' = record_success cfg (permit_generation p) (kind p) s
      in permit_drop (p\<lparr>completed := True\<rparr>) s')"

definition permit_failure ::
    "circuit_breaker_config \<Rightarrow> instant \<Rightarrow> permit \<Rightarrow> shared \<Rightarrow> unit outcome \<times> shared" where
  "permit_failure cfg now p s =
     (case record_failure cfg now (permit_generation p) (kind p) s of
       (Return u, s') \<Rightarrow> (Return (), permit_drop (p\<lparr>completed := True\<rparr>) s')
     | (Panic, s') \<Rightarrow> (Panic, permit_drop p s'))"

text \<open>
  \<open>call\<close>: the operation runs without the lock, so time passes and other callers may change the
  breaker meanwhile; it takes and returns the world, in which \<open>clock\<close> reads the time, and the
  breaker's state. A panic of the operation drops the permit.
\<close>

definition breaker_call ::
    "circuit_breaker_config \<Rightarrow> ('w \<Rightarrow> instant) \<Rightarrow> ('w \<Rightarrow> shared \<Rightarrow> ('t, 'e) result outcome \<times> 'w \<times> shared) \<Rightarrow>
     'w \<Rightarrow> shared \<Rightarrow> ('t, 'e breaker_call_error) result outcome \<times> 'w \<times> shared" where
  "breaker_call cfg clock operation w s =
     (case try_acquire cfg (clock w) s of
       (Err r, s1) \<Rightarrow> (Return (Err (BreakerRejected r)), w, s1)
     | (Ok p, s1) \<Rightarrow>
         (case operation w s1 of
           (Return (Ok v), w2, s2) \<Rightarrow> (Return (Ok v), w2, permit_success cfg p s2)
         | (Return (Err e), w2, s2) \<Rightarrow>
             (case permit_failure cfg (clock w2) p s2 of
               (Return _, s3) \<Rightarrow> (Return (Err (BreakerInner e)), w2, s3)
             | (Panic, s3) \<Rightarrow> (Panic, w2, s3))
         | (Panic, w2, s2) \<Rightarrow> (Panic, w2, permit_drop p s2)))"

subsection \<open>Behaviour of each operation\<close>

lemmas breaker_defs =
  transition_closed_def transition_open_def transition_half_open_def refresh_open_state_def
  try_acquire_def record_success_def record_failure_def abandon_def permit_drop_def
  permit_success_def permit_failure_def breaker_state_def

definition config_ok :: "circuit_breaker_config \<Rightarrow> bool" where
  "config_ok cfg \<longleftrightarrow> failure_threshold cfg \<noteq> 0 \<and> \<not> dur_is_zero (open_timeout cfg) \<and>
     half_open_success_threshold cfg \<noteq> 0"

lemma breaker_config_new_Ok:
  "breaker_config_new ft ot hs = Ok cfg \<longleftrightarrow>
     config_ok cfg \<and> cfg = \<lparr>failure_threshold = ft, open_timeout = ot, half_open_success_threshold = hs\<rparr>"
  by (auto simp: breaker_config_new_def config_ok_def)

text \<open>The instant at which an opened circuit may be probed is representable.\<close>

definition clock_ok :: "circuit_breaker_config \<Rightarrow> instant \<Rightarrow> bool" where
  "clock_ok cfg now \<longleftrightarrow> now + as_nanos (open_timeout cfg) \<le> instant_max"

lemma transition_open_ok:
  "clock_ok cfg now \<Longrightarrow> transition_open (open_timeout cfg) now s =
     (Return (), s\<lparr>generation := generation s + 1, mode := ModeOpen (now + as_nanos (open_timeout cfg))\<rparr>)"
  by (simp add: transition_open_def clock_ok_def instant_add_def)

lemma stale_outcomes_ignored:
  assumes "permit_generation p \<noteq> generation s"
  shows "permit_success cfg p s = s" and "permit_failure cfg now p s = (Return (), s)"
    and "permit_drop p s = s"
  using assms by (simp_all add: breaker_defs)

lemma permit_drop_completed [simp]: "permit_drop (p\<lparr>completed := True\<rparr>) s = s"
  by (simp add: permit_drop_def)

lemma permit_success_eq: "permit_success cfg p s = record_success cfg (permit_generation p) (kind p) s"
  by (simp add: permit_success_def)

lemma permit_failure_ok:
  assumes "clock_ok cfg now"
  shows "permit_failure cfg now p s = record_failure cfg now (permit_generation p) (kind p) s"
  using assms
  by (auto simp: permit_failure_def record_failure_def transition_open_ok Let_def
      split: mode.splits permit_kind.splits)

subsection \<open>Properties\<close>

text \<open>an open circuit rejects every caller, unchanged, until its instant, and the first caller
  from then on is admitted as a half-open probe, the only one in flight.\<close>

theorem open_rejects_then_probes:
  assumes "config_ok cfg" and "mode s = ModeOpen u"
  shows "try_acquire cfg now s =
    (if now < u then (Err CircuitBreakerRejected, s)
     else (Ok \<lparr>permit_generation = generation s + 1, kind = PermitHalfOpen, completed = False\<rparr>,
           \<lparr>generation = generation s + 1, mode = ModeHalfOpen 1 0\<rparr>))"
  using assms
  by (simp_all add: try_acquire_def refresh_open_state_def transition_half_open_def Let_def config_ok_def)

definition sample_breaker_config :: circuit_breaker_config where
  "sample_breaker_config =
     \<lparr>failure_threshold = 2, open_timeout = from_millis 10, half_open_success_threshold = 1\<rparr>"

lemma sample_breaker_config_ok [simp]:
  "config_ok sample_breaker_config" "now \<le> 1000000000 \<Longrightarrow> clock_ok sample_breaker_config now"
  by (simp_all add: sample_breaker_config_def config_ok_def clock_ok_def dur duration_max_def
      instant_max_def)

theorem open_rejects_then_probes_witness:
  "try_acquire sample_breaker_config 4 \<lparr>generation = 1, mode = ModeOpen 5\<rparr> =
     (Err CircuitBreakerRejected, \<lparr>generation = 1, mode = ModeOpen 5\<rparr>) \<and>
   fst (try_acquire sample_breaker_config 5 \<lparr>generation = 1, mode = ModeOpen 5\<rparr>) =
     Ok \<lparr>permit_generation = 2, kind = PermitHalfOpen, completed = False\<rparr>"
  using open_rejects_then_probes [of sample_breaker_config "\<lparr>generation = 1, mode = ModeOpen 5\<rparr>" 5 4]
    open_rejects_then_probes [of sample_breaker_config "\<lparr>generation = 1, mode = ModeOpen 5\<rparr>" 5 5]
  by simp

text \<open>C36: where the clock plus the open timeout is not representable as an instant, the failure that
  should open the circuit panics instead: the generation has moved on, and the mode is still
  closed, so the recovered breaker keeps admitting callers.\<close>

theorem opening_can_panic:
  assumes "mode s = ModeClosed f" and "failure_threshold cfg \<le> saturating_add f 1"
    and "permit_generation p = generation s" and "kind p = PermitClosed" and "\<not> clock_ok cfg now"
  shows "permit_failure cfg now p s =
      (Panic, \<lparr>generation = generation s + 1, mode = ModeClosed (saturating_add f 1)\<rparr>) \<and>
    fst (try_acquire cfg t (snd (permit_failure cfg now p s))) =
      Ok \<lparr>permit_generation = generation s + 1, kind = PermitClosed, completed = False\<rparr>"
proof (intro conjI)
  show f: "permit_failure cfg now p s =
      (Panic, \<lparr>generation = generation s + 1, mode = ModeClosed (saturating_add f 1)\<rparr>)"
    using assms by (simp add: breaker_defs instant_add_def clock_ok_def)
  show "fst (try_acquire cfg t (snd (permit_failure cfg now p s))) =
      Ok \<lparr>permit_generation = generation s + 1, kind = PermitClosed, completed = False\<rparr>"
    unfolding f by (simp add: try_acquire_def refresh_open_state_def)
qed

theorem opening_can_panic_witness:
  "\<exists>cfg. breaker_config_new 1 (dur_of duration_max) 1 = Ok cfg \<and>
     permit_failure cfg 0 \<lparr>permit_generation = 0, kind = PermitClosed, completed = False\<rparr> breaker_new =
       (Panic, \<lparr>generation = 1, mode = ModeClosed 1\<rparr>)"
proof -
  let ?c = "\<lparr>failure_threshold = 1, open_timeout = dur_of duration_max, half_open_success_threshold = 1\<rparr>"
  let ?p = "\<lparr>permit_generation = 0, kind = PermitClosed, completed = False\<rparr>"
  have new: "breaker_config_new 1 (dur_of duration_max) 1 = Ok ?c"
    by (simp add: breaker_config_new_def dur duration_max_def)
  have one: "saturating_add 0 1 = (1 :: u32)" by (simp add: saturating_add_def)
  have "permit_failure ?c 0 ?p breaker_new =
      (Panic, \<lparr>generation = generation breaker_new + 1, mode = ModeClosed (saturating_add 0 1)\<rparr>)"
    by (rule opening_can_panic [THEN conjunct1])
      (simp_all add: breaker_new_def one clock_ok_def dur duration_max_def instant_max_def)
  with new show ?thesis by (simp add: breaker_new_def one)
qed

end
