(* ===== verification/Breaker_System.thy ===== *)
theory Breaker_System
  imports Circuit_Breaker
begin

section \<open>The breaker and its outstanding permits (src/src/circuit_breaker.rs)\<close>

text \<open>
  The breaker as a concurrent system: its shared state, the clock, and the permits that callers
  hold. Every critical section is one step, so an execution is any interleaving of steps. The
  reachable states are those of executions in which the 64-bit generation has not wrapped
  around and the clock stays where the open timeout is representable. The invariant ties the
  counters to the permits: a permit of the current generation is of the current mode's kind, and
  a half-open breaker counts exactly the probes in flight.
\<close>

record breaker_system =
  breaker :: shared
  now :: instant
  permits :: "permit list"

inductive breaker_step :: "circuit_breaker_config \<Rightarrow> breaker_system \<Rightarrow> breaker_system \<Rightarrow> bool"
  for cfg where
  tick: "now s \<le> t \<Longrightarrow> breaker_step cfg s (s\<lparr>now := t\<rparr>)"
| query: "breaker_state (now s) (breaker s) = (c, b) \<Longrightarrow> breaker_step cfg s (s\<lparr>breaker := b\<rparr>)"
| admit: "try_acquire cfg (now s) (breaker s) = (Ok p, b) \<Longrightarrow>
    breaker_step cfg s (s\<lparr>breaker := b, permits := p # permits s\<rparr>)"
| reject: "try_acquire cfg (now s) (breaker s) = (Err r, b) \<Longrightarrow>
    breaker_step cfg s (s\<lparr>breaker := b\<rparr>)"
| succeed: "p \<in> set (permits s) \<Longrightarrow> permit_success cfg p (breaker s) = b \<Longrightarrow>
    breaker_step cfg s (s\<lparr>breaker := b, permits := remove1 p (permits s)\<rparr>)"
| fail: "p \<in> set (permits s) \<Longrightarrow> permit_failure cfg (now s) p (breaker s) = (v, b) \<Longrightarrow>
    breaker_step cfg s (s\<lparr>breaker := b, permits := remove1 p (permits s)\<rparr>)"
| drop: "p \<in> set (permits s) \<Longrightarrow> permit_drop p (breaker s) = b \<Longrightarrow>
    breaker_step cfg s (s\<lparr>breaker := b, permits := remove1 p (permits s)\<rparr>)"

inductive breaker_reach :: "circuit_breaker_config \<Rightarrow> breaker_system \<Rightarrow> bool" for cfg where
  start: "clock_ok cfg t \<Longrightarrow> breaker_reach cfg \<lparr>breaker = breaker_new, now = t, permits = []\<rparr>"
| step: "breaker_reach cfg s \<Longrightarrow> breaker_step cfg s s' \<Longrightarrow>
    generation (breaker s) \<le> generation (breaker s') \<Longrightarrow> clock_ok cfg (now s') \<Longrightarrow>
    breaker_reach cfg s'"

subsection \<open>The invariant\<close>

definition current :: "breaker_system \<Rightarrow> permit \<Rightarrow> bool" where
  "current s p \<longleftrightarrow> permit_generation p = generation (breaker s)"

definition probes :: "breaker_system \<Rightarrow> nat" where
  "probes s = length (filter (current s) (permits s))"

fun kind_fits :: "mode \<Rightarrow> permit_kind \<Rightarrow> bool" where
  "kind_fits (ModeClosed f) k = (k = PermitClosed)"
| "kind_fits (ModeOpen u) k = False"
| "kind_fits (ModeHalfOpen i n) k = (k = PermitHalfOpen)"

definition permit_ok :: "shared \<Rightarrow> permit \<Rightarrow> bool" where
  "permit_ok b p \<longleftrightarrow> \<not> completed p \<and> permit_generation p \<le> generation b \<and>
     (permit_generation p = generation b \<longrightarrow> kind_fits (mode b) (kind p))"

definition counters_ok :: "circuit_breaker_config \<Rightarrow> nat \<Rightarrow> instant \<Rightarrow> mode \<Rightarrow> bool" where
  "counters_ok cfg n t m =
     (case m of
       ModeClosed f \<Rightarrow> f < failure_threshold cfg
     | ModeOpen u \<Rightarrow> u \<le> t + as_nanos (open_timeout cfg)
     | ModeHalfOpen i k \<Rightarrow> unat i = n \<and> i \<le> half_open_success_threshold cfg \<and>
         k < half_open_success_threshold cfg)"

definition breaker_inv :: "circuit_breaker_config \<Rightarrow> breaker_system \<Rightarrow> bool" where
  "breaker_inv cfg s \<longleftrightarrow> list_all (permit_ok (breaker s)) (permits s) \<and>
     counters_ok cfg (probes s) (now s) (mode (breaker s))"

text \<open>A transition makes every outstanding permit stale.\<close>

lemma bumped_greater: "g \<le> g + 1 \<Longrightarrow> g' \<le> g \<Longrightarrow> g' < g + 1" for g :: u64
  by (metis add_cancel_right_right antisym_conv2 le_less_trans one_neq_zero)

lemma permit_ok_bumped:
  assumes "permit_ok b p" and "generation b \<le> generation b + 1" and "generation b' = generation b + 1"
  shows "permit_ok b' p" and "permit_generation p \<noteq> generation b'"
  using assms bumped_greater [of "generation b" "permit_generation p"]
  by (auto simp: permit_ok_def)

lemma probes_bumped:
  assumes "list_all (permit_ok (breaker s)) (permits s)"
    and "generation (breaker s) \<le> generation (breaker s) + 1"
    and "generation (breaker s') = generation (breaker s) + 1" and "set (permits s') \<subseteq> set (permits s)"
  shows "probes s' = 0" and "list_all (permit_ok (breaker s')) (permits s')"
  using assms permit_ok_bumped
  by (auto simp: probes_def current_def list_all_iff filter_empty_conv) blast+

lemma inv_bumped:
  assumes "breaker_inv cfg s" and "generation (breaker s) \<le> generation (breaker s')"
    and "generation (breaker s') = generation (breaker s) + 1" and "set (permits s') \<subseteq> set (permits s)"
    and "counters_ok cfg 0 (now s') (mode (breaker s'))"
  shows "breaker_inv cfg s'"
  using assms probes_bumped [of s s'] by (simp add: breaker_inv_def)

lemma counters_ok_fresh:
  assumes "config_ok cfg"
  shows "counters_ok cfg 0 t (ModeClosed 0)" and "counters_ok cfg 0 t (ModeHalfOpen 0 0)"
    and "counters_ok cfg 0 t (ModeOpen (t + as_nanos (open_timeout cfg)))"
  using assms by (simp_all add: counters_ok_def config_ok_def word_gt_0)

lemma probes_cong: "generation (breaker s) = generation (breaker s') \<Longrightarrow> permits s = permits s' \<Longrightarrow>
    probes s = probes s'"
  by (simp add: probes_def current_def [abs_def])

lemma probes_remove:
  assumes "p \<in> set (permits s)" and "generation b = generation (breaker s)"
  shows "probes (s\<lparr>breaker := b, permits := remove1 p (permits s)\<rparr>) =
    (if current s p then probes s - 1 else probes s)"
  using assms
  by (auto simp: probes_def current_def [abs_def] filter_remove1 length_remove1)

lemma probes_pos: "p \<in> set (permits s) \<Longrightarrow> current s p \<Longrightarrow> 0 < probes s"
  by (auto simp: probes_def filter_empty_conv)

lemma inv_tick:
  assumes "breaker_inv cfg s" and "now s \<le> t"
  shows "breaker_inv cfg (s\<lparr>now := t\<rparr>)"
proof -
  have "probes (s\<lparr>now := t\<rparr>) = probes s" by (rule probes_cong) simp_all
  with assms show ?thesis by (auto simp: breaker_inv_def counters_ok_def split: mode.splits)
qed

lemma inv_refresh:
  assumes "config_ok cfg" and "breaker_inv cfg s"
    and "generation (breaker s) \<le> generation (refresh_open_state (now s) (breaker s))"
  shows "breaker_inv cfg (s\<lparr>breaker := refresh_open_state (now s) (breaker s)\<rparr>)"
proof (cases "refresh_open_state (now s) (breaker s) = breaker s")
  case False
  then have "refresh_open_state (now s) (breaker s) = transition_half_open (breaker s)"
    by (simp add: refresh_open_state_def split: mode.splits if_splits)
  with assms show ?thesis
    by (intro inv_bumped [OF assms(2)]) (simp_all add: transition_half_open_def counters_ok_fresh)
qed (use assms in simp)

lemma inv_admit:
  assumes inv: "breaker_inv cfg (s\<lparr>breaker := b\<rparr>)" and b: "b = refresh_open_state t b0"
    and acq: "try_acquire cfg t b0 = (Ok p, b')"
  shows "breaker_inv cfg (s\<lparr>breaker := b', permits := p # permits s\<rparr>)"
proof (cases "mode b")
  case (ModeClosed f)
  with acq b have b': "b' = b" and p: "p = \<lparr>permit_generation = generation b, kind = PermitClosed, completed = False\<rparr>"
    by (auto simp: try_acquire_def Let_def)
  from inv ModeClosed show ?thesis
    by (auto simp: b' p breaker_inv_def permit_ok_def counters_ok_def)
next
  case (ModeOpen u)
  with acq b show ?thesis by (auto simp: try_acquire_def Let_def)
next
  case (ModeHalfOpen i k)
  with acq b have lt: "i < half_open_success_threshold cfg"
    and b': "b' = b\<lparr>mode := ModeHalfOpen (i + 1) k\<rparr>"
    and p: "p = \<lparr>permit_generation = generation b, kind = PermitHalfOpen, completed = False\<rparr>"
    by (auto simp: try_acquire_def Let_def not_le split: if_splits)
  have "i + 1 \<le> half_open_success_threshold cfg"
    using lt by (simp add: word_le_nat_alt word_less_nat_alt unat_plus_one [OF lt])
  moreover have "probes (s\<lparr>breaker := b', permits := p # permits s\<rparr>) = Suc (probes (s\<lparr>breaker := b\<rparr>))"
    by (simp add: b' p probes_def current_def [abs_def])
  ultimately show ?thesis
    using inv ModeHalfOpen
    by (auto simp: b' p breaker_inv_def permit_ok_def counters_ok_def unat_plus_one [OF lt] list_all_iff)
qed

text \<open>A permit ends without a transition: the generation stays and the counters follow.\<close>

lemma inv_ended:
  assumes inv: "breaker_inv cfg s" and p: "p \<in> set (permits s)"
    and g: "generation b = generation (breaker s)"
    and k: "kind_fits (mode b) = kind_fits (mode (breaker s))"
    and c: "counters_ok cfg (if current s p then probes s - 1 else probes s) (now s) (mode b)"
  shows "breaker_inv cfg (s\<lparr>breaker := b, permits := remove1 p (permits s)\<rparr>)"
proof -
  have "permit_ok (breaker s) q" if "q \<in> set (remove1 p (permits s))" for q
    using that inv notin_set_remove1 by (fastforce simp: breaker_inv_def list_all_iff)
  then show ?thesis
    using c probes_remove [OF p g] by (auto simp: breaker_inv_def list_all_iff permit_ok_def g k)
qed

lemma inv_stale_ended:
  assumes "breaker_inv cfg s" and "p \<in> set (permits s)" and "\<not> current s p"
  shows "breaker_inv cfg (s\<lparr>breaker := breaker s, permits := remove1 p (permits s)\<rparr>)"
  using assms by (intro inv_ended) (simp_all add: breaker_inv_def)

lemma inv_transition_ended:
  assumes "breaker_inv cfg s" and "generation (breaker s) \<le> generation b"
    and "generation b = generation (breaker s) + 1" and "counters_ok cfg 0 (now s) (mode b)"
  shows "breaker_inv cfg (s\<lparr>breaker := b, permits := remove1 p (permits s)\<rparr>)"
  using assms set_remove1_subset [of p "permits s"] by (intro inv_bumped [OF assms(1)]) simp_all

text \<open>What the invariant says of a current permit.\<close>

lemma inv_current:
  assumes "breaker_inv cfg s" and "p \<in> set (permits s)" and "current s p"
  shows "kind_fits (mode (breaker s)) (kind p)" and "permit_generation p = generation (breaker s)"
    and "\<not> completed p"
  using assms by (auto simp: breaker_inv_def list_all_iff permit_ok_def current_def)

lemma current_cases:
  assumes "breaker_inv cfg s" and "p \<in> set (permits s)" and "current s p"
  obtains (closed) f where "mode (breaker s) = ModeClosed f" "kind p = PermitClosed"
    "f < failure_threshold cfg"
  | (half_open) i k where "mode (breaker s) = ModeHalfOpen i k" "kind p = PermitHalfOpen"
    "unat i = probes s" "0 < probes s" "i \<le> half_open_success_threshold cfg"
    "k < half_open_success_threshold cfg"
  using inv_current [OF assms] probes_pos [OF assms(2,3)] assms(1)
  by (cases "mode (breaker s)") (auto simp: breaker_inv_def counters_ok_def)

lemma released_probe:
  assumes "unat i = probes s" and "i \<le> h" and "0 < probes s"
  shows "unat (saturating_sub i 1) = probes s - 1" and "saturating_sub i 1 \<le> h"
  using assms by (auto simp: wsat word_le_nat_alt)

lemma inv_drop:
  assumes inv: "breaker_inv cfg s" and p: "p \<in> set (permits s)"
  shows "breaker_inv cfg (s\<lparr>breaker := permit_drop p (breaker s), permits := remove1 p (permits s)\<rparr>)"
proof (cases "current s p")
  case False
  with inv_stale_ended [OF assms] show ?thesis by (simp add: stale_outcomes_ignored current_def)
next
  case cur: True
  note facts = inv_current [OF inv p cur]
  from inv p cur show ?thesis
  proof (cases rule: current_cases)
    case (closed f)
    with facts cur inv show ?thesis
      by (intro inv_ended [OF inv p]) (auto simp: breaker_defs breaker_inv_def counters_ok_def)
  next
    case (half_open i k)
    with facts cur show ?thesis
      by (intro inv_ended [OF inv p])
        (auto simp: breaker_defs counters_ok_def released_probe fun_eq_iff)
  qed
qed

lemma inv_success:
  assumes cfg: "config_ok cfg" and inv: "breaker_inv cfg s" and p: "p \<in> set (permits s)"
    and g: "generation (breaker s) \<le> generation (permit_success cfg p (breaker s))"
  shows "breaker_inv cfg (s\<lparr>breaker := permit_success cfg p (breaker s), permits := remove1 p (permits s)\<rparr>)"
proof (cases "current s p")
  case False
  with inv_stale_ended [OF inv p] show ?thesis by (simp add: stale_outcomes_ignored current_def)
next
  case cur: True
  note facts = inv_current [OF inv p cur]
  from inv p cur show ?thesis
  proof (cases rule: current_cases)
    case (closed f)
    with facts cfg show ?thesis
      by (intro inv_ended [OF inv p])
        (auto simp: permit_success_eq record_success_def counters_ok_def config_ok_def word_gt_0 fun_eq_iff)
  next
    case (half_open i k)
    let ?n = "saturating_add k 1"
    show ?thesis
    proof (cases "?n \<ge> half_open_success_threshold cfg")
      case True
      with half_open facts g cfg show ?thesis
        by (intro inv_transition_ended [OF inv g])
          (simp_all add: permit_success_eq record_success_def transition_closed_def counters_ok_fresh)
    next
      case False
      with half_open facts cur show ?thesis
        by (intro inv_ended [OF inv p])
          (auto simp: permit_success_eq record_success_def counters_ok_def released_probe fun_eq_iff Let_def)
    qed
  qed
qed

lemma inv_failure:
  assumes cfg: "config_ok cfg" "clock_ok cfg (now s)" and inv: "breaker_inv cfg s"
    and p: "p \<in> set (permits s)" and b: "permit_failure cfg (now s) p (breaker s) = (v, b)"
    and g: "generation (breaker s) \<le> generation b"
  shows "breaker_inv cfg (s\<lparr>breaker := b, permits := remove1 p (permits s)\<rparr>)"
proof (cases "current s p")
  case False
  with b have "b = breaker s" by (simp add: stale_outcomes_ignored current_def)
  with inv_stale_ended [OF inv p False] show ?thesis by simp
next
  case cur: True
  note facts = inv_current [OF inv p cur]
  note b' = b [unfolded permit_failure_ok [OF cfg(2)]]
  from inv p cur show ?thesis
  proof (cases rule: current_cases)
    case (closed f)
    show ?thesis
    proof (cases "saturating_add f 1 \<ge> failure_threshold cfg")
      case True
      with closed facts b' g cfg show ?thesis
        by (intro inv_transition_ended [OF inv g])
          (auto simp: record_failure_def transition_open_ok counters_ok_fresh)
    next
      case False
      with closed facts b' show ?thesis
        by (intro inv_ended [OF inv p])
          (auto simp: record_failure_def counters_ok_def fun_eq_iff)
    qed
  next
    case (half_open i k)
    with facts b' g cfg show ?thesis
      by (intro inv_transition_ended [OF inv g])
        (auto simp: record_failure_def transition_open_ok counters_ok_fresh)
  qed
qed

lemma try_acquire_generation:
  "generation (snd (try_acquire cfg t b)) = generation (refresh_open_state t b)"
  by (auto simp: try_acquire_def Let_def split: mode.splits)

lemma try_acquire_Err: "try_acquire cfg t b = (Err r, b') \<Longrightarrow> b' = refresh_open_state t b"
  by (auto simp: try_acquire_def Let_def split: mode.splits if_splits)

lemma breaker_state_snd: "breaker_state t b = (c, b') \<Longrightarrow> b' = refresh_open_state t b"
  by (simp add: breaker_state_def Let_def)

lemma breaker_inv_step:
  assumes "breaker_step cfg s s'" and "config_ok cfg" and "breaker_inv cfg s"
    and "generation (breaker s) \<le> generation (breaker s')" and "clock_ok cfg (now s')"
  shows "breaker_inv cfg s'"
  using assms
proof (induction rule: breaker_step.induct)
  case (admit s p b)
  then have "generation (breaker s) \<le> generation (refresh_open_state (now s) (breaker s))"
    using try_acquire_generation [of cfg "now s" "breaker s"] by simp
  with admit have "breaker_inv cfg (s\<lparr>breaker := refresh_open_state (now s) (breaker s)\<rparr>)"
    by (intro inv_refresh) simp_all
  from inv_admit [OF this refl admit.hyps] show ?case .
qed (auto simp: inv_tick inv_refresh inv_success inv_failure inv_drop dest!: try_acquire_Err breaker_state_snd)

lemma breaker_reach_inv:
  assumes "breaker_reach cfg s" and "config_ok cfg"
  shows "breaker_inv cfg s" and "clock_ok cfg (now s)"
proof -
  from assms have "breaker_inv cfg s \<and> clock_ok cfg (now s)"
  proof (induction rule: breaker_reach.induct)
    case (start t)
    then show ?case
      by (simp add: breaker_inv_def breaker_new_def counters_ok_fresh probes_def)
  qed (simp add: breaker_inv_step)
  then show "breaker_inv cfg s" and "clock_ok cfg (now s)" by simp_all
qed

subsection \<open>Properties\<close>

text \<open>C2: in every reachable state a half-open breaker counts exactly the probes that are out, and
  there are at most \<open>half_open_success_threshold\<close> of them; a closed one has counted fewer failures than
  the threshold, and an open one waits at most the open timeout.\<close>

theorem probes_bounded:
  assumes "config_ok cfg" and "breaker_reach cfg s"
  shows "case mode (breaker s) of
      ModeClosed f \<Rightarrow> f < failure_threshold cfg
    | ModeOpen u \<Rightarrow> u \<le> now s + as_nanos (open_timeout cfg)
    | ModeHalfOpen i k \<Rightarrow>
        unat i = length (filter (\<lambda>p. permit_generation p = generation (breaker s)) (permits s)) \<and>
        i \<le> half_open_success_threshold cfg \<and> k < half_open_success_threshold cfg"
  using breaker_reach_inv(1) [OF assms(2,1)]
  by (auto simp: breaker_inv_def counters_ok_def probes_def current_def [abs_def] split: mode.splits)

text \<open>An execution: a first failure opens the circuit while another call of the closed period runs.\<close>

definition one_failure_config :: circuit_breaker_config where
  "one_failure_config = sample_breaker_config\<lparr>failure_threshold := 1\<rparr>"

definition first_permit :: permit where
  "first_permit = \<lparr>permit_generation = 0, kind = PermitClosed, completed = False\<rparr>"

definition sample_opened :: breaker_system where
  "sample_opened = \<lparr>breaker = \<lparr>generation = 1, mode = ModeOpen 10000007\<rparr>, now = 7, permits = [first_permit]\<rparr>"

lemma one_failure_config_ok [simp]:
  "config_ok one_failure_config" "t \<le> 1000000000 \<Longrightarrow> clock_ok one_failure_config t"
  using sample_breaker_config_ok by (simp_all add: one_failure_config_def config_ok_def clock_ok_def)

lemma sample_opened_reach: "breaker_reach one_failure_config sample_opened"
proof -
  let ?s = "\<lambda>n. \<lparr>breaker = breaker_new, now = 7, permits = replicate n first_permit\<rparr>"
  have admit: "breaker_step one_failure_config (?s n) (?s (Suc n))" for n
    using breaker_step.admit [of one_failure_config "?s n" first_permit breaker_new]
    by (simp add: breaker_defs breaker_new_def first_permit_def)
  have "breaker_reach one_failure_config (?s n)" for n
  proof (induction n)
    case 0
    then show ?case using breaker_reach.start [of one_failure_config 7] by simp
  next
    case (Suc n)
    from breaker_reach.step [OF Suc admit] show ?case by simp
  qed
  moreover have "permit_failure one_failure_config 7 first_permit breaker_new =
      (Return (), \<lparr>generation = 1, mode = ModeOpen 10000007\<rparr>)"
    by (simp add: permit_failure_ok record_failure_def breaker_new_def first_permit_def transition_open_ok
        saturating_add_def) (simp add: one_failure_config_def sample_breaker_config_def dur
        duration_max_def transition_open_def instant_add_def instant_max_def)
  then have "breaker_step one_failure_config (?s 2) sample_opened"
    using breaker_step.fail [of first_permit "?s 2" one_failure_config]
    by (simp add: numeral_2_eq_2 sample_opened_def)
  ultimately show ?thesis
    by (rule breaker_reach.step) (simp_all add: sample_opened_def breaker_new_def)
qed

theorem probes_bounded_witness:
  "case mode (breaker sample_opened) of ModeOpen u \<Rightarrow> u \<le> now sample_opened + 10000000 | _ \<Rightarrow> False"
  using probes_bounded [OF one_failure_config_ok(1) sample_opened_reach]
  by (simp add: sample_opened_def one_failure_config_def sample_breaker_config_def dur duration_max_def)

text \<open>C20: a permit granted before a transition is stale for good: no way of ending it changes the
  breaker, and every step leaves it stale.\<close>

theorem stale_permit_powerless:
  assumes "config_ok cfg" and "breaker_reach cfg s" and "p \<in> set (permits s)"
    and "permit_generation p \<noteq> generation (breaker s)"
  shows "permit_success cfg p (breaker s) = breaker s \<and>
    permit_failure cfg (now s) p (breaker s) = (Return (), breaker s) \<and>
    permit_drop p (breaker s) = breaker s \<and>
    (\<forall>s'. breaker_step cfg s s' \<and> generation (breaker s) \<le> generation (breaker s') \<longrightarrow>
      permit_generation p \<noteq> generation (breaker s'))"
proof -
  have "permit_generation p < generation (breaker s)"
    using breaker_reach_inv(1) [OF assms(2,1)] assms(3,4)
    by (auto simp: breaker_inv_def list_all_iff permit_ok_def)
  then have "permit_generation p \<noteq> generation (breaker s')"
    if "generation (breaker s) \<le> generation (breaker s')" for s' :: breaker_system
    using that by auto
  then show ?thesis using assms(4) by (simp add: stale_outcomes_ignored)
qed

theorem stale_permit_powerless_witness:
  "permit_success one_failure_config first_permit (breaker sample_opened) = breaker sample_opened"
  by (rule stale_permit_powerless [OF one_failure_config_ok(1) sample_opened_reach, THEN conjunct1])
    (simp_all add: sample_opened_def first_permit_def)

end
