(* ===== verification/Breaker_Spec.thy ===== *)
theory Breaker_Spec
  imports Circuit_Breaker
begin

section \<open>What the breaker promises a sequential caller\<close>

text \<open>
  The specification of the breaker as its documentation states it, without permits, generations
  or words: a count of consecutive failures, an instant, or a count of successful probes. A
  caller that makes one \<open>call\<close> after the other drives the code's breaker through exactly the
  specification's states (the interpretation \<open>sequential\<close>).
\<close>

text \<open>One call: when it starts, when its operation ends, and how.\<close>

type_synonym call_event = "instant \<times> instant \<times> (unit, unit) result outcome"

fun seq_call :: "circuit_breaker_config \<Rightarrow> shared \<Rightarrow> call_event \<Rightarrow> shared" where
  "seq_call cfg s (t, t', r) = snd (snd (breaker_call cfg (\<lambda>t. t) (\<lambda>_ b. (r, t', b)) t s))"

declare seq_call.simps [simp del]

datatype spec_state = SpecClosed nat | SpecOpen instant | SpecHalfOpen nat

fun spec_wake :: "instant \<Rightarrow> spec_state \<Rightarrow> spec_state" where
  "spec_wake t (SpecOpen u) = (if u \<le> t then SpecHalfOpen 0 else SpecOpen u)"
| "spec_wake t a = a"

fun spec_call :: "circuit_breaker_config \<Rightarrow> spec_state \<Rightarrow> call_event \<Rightarrow> spec_state" where
  "spec_call cfg a (t, t', r) =
     (let opened = SpecOpen (t' + as_nanos (open_timeout cfg))
      in case spec_wake t a of
        SpecOpen u \<Rightarrow> SpecOpen u
      | SpecClosed n \<Rightarrow>
          (case r of
            Return (Ok _) \<Rightarrow> SpecClosed 0
          | Return (Err _) \<Rightarrow> if Suc n \<ge> unat (failure_threshold cfg) then opened else SpecClosed (Suc n)
          | Panic \<Rightarrow> SpecClosed n)
      | SpecHalfOpen k \<Rightarrow>
          (case r of
            Return (Ok _) \<Rightarrow>
              if Suc k \<ge> unat (half_open_success_threshold cfg) then SpecClosed 0 else SpecHalfOpen (Suc k)
          | Return (Err _) \<Rightarrow> opened
          | Panic \<Rightarrow> SpecHalfOpen k))"

fun abs_mode :: "mode \<Rightarrow> spec_state" where
  "abs_mode (ModeClosed f) = SpecClosed (unat f)"
| "abs_mode (ModeOpen u) = SpecOpen u"
| "abs_mode (ModeHalfOpen i k) = SpecHalfOpen (unat k)"

text \<open>Between two calls no permit is out.\<close>

definition idle :: "circuit_breaker_config \<Rightarrow> shared \<Rightarrow> bool" where
  "idle cfg s \<longleftrightarrow> config_ok cfg \<and>
     (case mode s of
       ModeClosed f \<Rightarrow> f < failure_threshold cfg
     | ModeOpen u \<Rightarrow> True
     | ModeHalfOpen i k \<Rightarrow> i = 0 \<and> k < half_open_success_threshold cfg)"

fun legal_call :: "circuit_breaker_config \<Rightarrow> call_event \<Rightarrow> bool" where
  "legal_call cfg (t, t', r) = clock_ok cfg t'"

lemma idle_new [simp]: "config_ok cfg \<Longrightarrow> idle cfg breaker_new"
  by (simp add: idle_def breaker_new_def config_ok_def word_gt_0)

lemma idle_refresh: "idle cfg s \<Longrightarrow> idle cfg (refresh_open_state t s)"
  by (auto simp: idle_def refresh_open_state_def transition_half_open_def config_ok_def word_gt_0
      split: mode.splits)

lemma abs_refresh: "abs_mode (mode (refresh_open_state t s)) = spec_wake t (abs_mode (mode s))"
  by (auto simp: refresh_open_state_def transition_half_open_def split: mode.splits)

lemma unat_counter:
  fixes c :: u32
  assumes "c < h"
  shows "unat (saturating_add c 1) = Suc (unat c)"
  using assms u32_less [of h] by (simp add: wsat word_less_nat_alt)

lemma counter_reaches:
  "c < h \<Longrightarrow> h \<le> saturating_add c 1 \<longleftrightarrow> unat h \<le> Suc (unat c)" for c :: u32
  by (simp add: word_le_nat_alt unat_counter)

lemma counter_below:
  "c < h \<Longrightarrow> saturating_add c 1 < h \<longleftrightarrow> Suc (unat c) < unat h" for c :: u32
  by (simp add: word_less_nat_alt unat_counter)

text \<open>One call on a breaker that has just been refreshed, mode by mode.\<close>

lemma seq_call_refreshed: "seq_call cfg s (t, e) = seq_call cfg (refresh_open_state t s) (t, e)"
proof -
  have "refresh_open_state t (refresh_open_state t s) = refresh_open_state t s"
    by (auto simp: refresh_open_state_def transition_half_open_def split: mode.splits)
  then have "try_acquire cfg t s = try_acquire cfg t (refresh_open_state t s)"
    by (simp add: try_acquire_def)
  then show ?thesis by (cases e) (simp add: seq_call.simps breaker_call_def)
qed

lemma seq_call_closed:
  assumes "mode s = ModeClosed f" and "f < failure_threshold cfg" and "clock_ok cfg t'"
  shows "mode (seq_call cfg s (t, t', r)) =
    (case r of
      Return (Ok _) \<Rightarrow> ModeClosed 0
    | Return (Err _) \<Rightarrow>
        if failure_threshold cfg \<le> saturating_add f 1 then ModeOpen (t' + as_nanos (open_timeout cfg))
        else ModeClosed (saturating_add f 1)
    | Panic \<Rightarrow> ModeClosed f)"
  using assms
  by (auto simp: seq_call.simps breaker_call_def try_acquire_def refresh_open_state_def permit_success_eq
      record_success_def permit_failure_ok record_failure_def transition_open_ok permit_drop_def
      abandon_def Let_def split: outcome.splits result.splits)

lemma seq_call_half_open:
  assumes "mode s = ModeHalfOpen 0 k" and "k < half_open_success_threshold cfg"
    and "config_ok cfg" and "clock_ok cfg t'"
  shows "mode (seq_call cfg s (t, t', r)) =
    (case r of
      Return (Ok _) \<Rightarrow>
        if half_open_success_threshold cfg \<le> saturating_add k 1 then ModeClosed 0
        else ModeHalfOpen 0 (saturating_add k 1)
    | Return (Err _) \<Rightarrow> ModeOpen (t' + as_nanos (open_timeout cfg))
    | Panic \<Rightarrow> ModeHalfOpen 0 k)"
proof -
  have "saturating_sub 1 1 = (0 :: u32)" by (simp add: saturating_sub_def)
  with assms show ?thesis
    by (auto simp: seq_call.simps breaker_call_def try_acquire_def refresh_open_state_def permit_success_eq
        record_success_def permit_failure_ok record_failure_def transition_open_ok permit_drop_def
        transition_closed_def abandon_def Let_def config_ok_def split: outcome.splits result.splits)
qed

lemma seq_call_open:
  assumes "mode s = ModeOpen u" and "t < u"
  shows "seq_call cfg s (t, e) = s"
  using assms
  by (cases e) (simp add: seq_call.simps breaker_call_def try_acquire_def refresh_open_state_def Let_def)

interpretation sequential: simulation "seq_call cfg" "idle cfg" "legal_call cfg" "spec_call cfg"
  "\<lambda>s. abs_mode (mode s)" for cfg
proof
  fix s :: shared and x :: call_event
  assume s: "idle cfg s" and x: "legal_call cfg x"
  obtain t t' r where xt: "x = (t, t', r)" by (cases x)
  let ?s = "refresh_open_state t s"
  have idle: "idle cfg ?s" using s by (rule idle_refresh)
  have ok: "clock_ok cfg t'" "config_ok cfg" using x s by (simp_all add: xt idle_def)
  have eq: "seq_call cfg s (t, t', r) = seq_call cfg ?s (t, t', r)" by (rule seq_call_refreshed)
  have wake: "spec_wake t (abs_mode (mode s)) = abs_mode (mode ?s)" by (simp add: abs_refresh)
  have "idle cfg (seq_call cfg s x) \<and>
    abs_mode (mode (seq_call cfg s x)) = spec_call cfg (abs_mode (mode s)) x"
  proof (cases "mode ?s")
    case (ModeClosed f)
    with idle ok show ?thesis
      unfolding xt eq spec_call.simps wake idle_def seq_call_closed [OF ModeClosed _ ok(1)]
      by (auto simp: seq_call_closed counter_reaches counter_below unat_counter Let_def config_ok_def word_gt_0 not_le
          split: outcome.splits result.splits)
  next
    case (ModeOpen u)
    then have "t < u"
      by (auto simp: refresh_open_state_def transition_half_open_def split: mode.splits if_splits)
    with ModeOpen idle show ?thesis
      unfolding xt eq spec_call.simps wake by (simp add: seq_call_open)
  next
    case (ModeHalfOpen i k)
    with idle have m: "mode ?s = ModeHalfOpen 0 k" and k: "k < half_open_success_threshold cfg"
      by (simp_all add: idle_def)
    from ok show ?thesis
      unfolding xt eq spec_call.simps wake idle_def seq_call_half_open [OF m k ok(2,1)]
      using k by (auto simp: m counter_reaches counter_below unat_counter Let_def config_ok_def word_gt_0 not_le
          split: outcome.splits result.splits)
  qed
  then show "idle cfg (seq_call cfg s x)"
    and "abs_mode (mode (seq_call cfg s x)) = spec_call cfg (abs_mode (mode s)) x"
    by simp_all
qed

subsection \<open>Streaks of failures\<close>

text \<open>
  The number of failures since the last success after a list of results, and whether it has
  stayed below a bound all along.
\<close>

fun streak :: "nat \<Rightarrow> (unit, unit) result list \<Rightarrow> nat" where
  "streak k [] = k"
| "streak k (Ok _ # rs) = streak 0 rs"
| "streak k (Err _ # rs) = streak (Suc k) rs"

fun streaks_below :: "nat \<Rightarrow> nat \<Rightarrow> (unit, unit) result list \<Rightarrow> bool" where
  "streaks_below n k [] \<longleftrightarrow> k < n"
| "streaks_below n k (Ok _ # rs) \<longleftrightarrow> k < n \<and> streaks_below n 0 rs"
| "streaks_below n k (Err _ # rs) \<longleftrightarrow> k < n \<and> streaks_below n (Suc k) rs"

definition calls_at :: "(instant \<times> instant) list \<Rightarrow> (unit, unit) result list \<Rightarrow> call_event list" where
  "calls_at ts rs = map (\<lambda>((t, t'), r). (t, t', Return r)) (zip ts rs)"

lemma calls_at_simps [simp]:
  "calls_at [] rs = []" "calls_at ts [] = []"
  "calls_at ((t, t') # ts) (r # rs) = (t, t', Return r) # calls_at ts rs"
  by (simp_all add: calls_at_def)

lemma streaks_below_less: "streaks_below n k rs \<Longrightarrow> k < n"
  by (cases rs; cases "hd rs") auto

lemma spec_run_closed:
  assumes "length ts = length rs" and "streaks_below (unat (failure_threshold cfg)) k rs"
  shows "run (spec_call cfg) (SpecClosed k) (calls_at ts rs) = SpecClosed (streak k rs)"
  using assms
proof (induction ts rs arbitrary: k rule: list_induct2)
  case (Cons tt ts r rs)
  then show ?case
    by (cases tt; cases r) (auto dest: streaks_below_less)
qed simp

lemma streaks_below_streak: "streaks_below n k rs \<Longrightarrow> streak k rs < n"
  by (induction n k rs rule: streaks_below.induct) auto

lemma spec_trips:
  assumes "streak k rs = n - 1" and "n = unat (failure_threshold cfg)"
    and "length ts = length rs" and "streaks_below n k rs"
  shows "run (spec_call cfg) (SpecClosed k) (calls_at ts rs @ [(t, t', Return (Err ()))]) =
    SpecOpen (t' + as_nanos (open_timeout cfg))"
  using assms spec_run_closed [of ts rs cfg k] streaks_below_less [of n k rs]
  by (simp add: run_snoc)

lemma abs_mode_eq:
  "abs_mode m = SpecClosed n \<longleftrightarrow> (\<exists>f. m = ModeClosed f \<and> unat f = n)"
  "abs_mode m = SpecOpen u \<longleftrightarrow> m = ModeOpen u"
  by (cases m; auto)+

subsection \<open>Properties\<close>

text \<open>C1: a caller that makes one call after the other sees the documented breaker: after any
  sequence of calls, successful, failed or panicking, at any times, the code is in the state of the
  specification, which has neither permits nor generations nor machine words.\<close>

theorem sequential_breaker_refines_spec:
  assumes "config_ok cfg" and "list_all (legal_call cfg) xs"
  shows "abs_mode (mode (run (seq_call cfg) breaker_new xs)) = run (spec_call cfg) (SpecClosed 0) xs"
  using sequential.run_sim [OF idle_new [OF assms(1)] assms(2)] by (simp add: breaker_new_def)

theorem sequential_breaker_refines_spec_witness:
  "mode (run (seq_call sample_breaker_config) breaker_new
     [(1, 2, Return (Err ())), (3, 4, Return (Err ())), (5, 6, Return (Ok ()))]) = ModeOpen 10000004"
proof -
  let ?xs = "[(1, 2, Return (Err ())), (3, 4, Return (Err ())), (5, 6, Return (Ok ()))]"
  have "abs_mode (mode (run (seq_call sample_breaker_config) breaker_new ?xs)) =
      run (spec_call sample_breaker_config) (SpecClosed 0) ?xs"
    by (rule sequential_breaker_refines_spec) simp_all
  also have "\<dots> = SpecOpen 10000004"
    by (simp add: sample_breaker_config_def dur duration_max_def)
  finally show ?thesis by (simp add: abs_mode_eq)
qed

text \<open>the circuit opens exactly with the failure that completes \<open>failure_threshold\<close> consecutive ones:
  while every streak of failures is shorter it is closed and has counted the current streak, and the
  failure that completes the streak opens it for the open timeout.\<close>

theorem trips_after_consecutive_failures:
  assumes "config_ok cfg" and "length ts = length rs"
    and "list_all (legal_call cfg) (calls_at ts rs)" and "clock_ok cfg t'"
    and "streaks_below (unat (failure_threshold cfg)) 0 rs"
  shows "(\<exists>f. mode (run (seq_call cfg) breaker_new (calls_at ts rs)) = ModeClosed f \<and> unat f = streak 0 rs) \<and>
    (streak 0 rs = unat (failure_threshold cfg) - 1 \<longrightarrow>
      mode (run (seq_call cfg) breaker_new (calls_at ts rs @ [(t, t', Return (Err ()))])) =
        ModeOpen (t' + as_nanos (open_timeout cfg)))"
proof (intro conjI)
  note sim = sequential.run_sim [OF idle_new [OF assms(1)]]
  have "abs_mode (mode (run (seq_call cfg) breaker_new (calls_at ts rs))) = SpecClosed (streak 0 rs)"
    using sim [OF assms(3)] spec_run_closed [OF assms(2,5)] by (simp add: breaker_new_def)
  then show "\<exists>f. mode (run (seq_call cfg) breaker_new (calls_at ts rs)) = ModeClosed f \<and> unat f = streak 0 rs"
    by (simp add: abs_mode_eq)
  have all: "list_all (legal_call cfg) (calls_at ts rs @ [(t, t', Return (Err ()))])"
    using assms(3,4) by simp
  show "streak 0 rs = unat (failure_threshold cfg) - 1 \<longrightarrow>
      mode (run (seq_call cfg) breaker_new (calls_at ts rs @ [(t, t', Return (Err ()))])) =
        ModeOpen (t' + as_nanos (open_timeout cfg))"
    using sim [OF all] spec_trips [OF _ refl assms(2,5)] by (auto simp: breaker_new_def abs_mode_eq)
qed

theorem trips_after_consecutive_failures_witness:
  "mode (run (seq_call sample_breaker_config) breaker_new
     (calls_at [(1, 2), (3, 4), (5, 6)] [Err (), Ok (), Err ()] @ [(7, 8, Return (Err ()))])) =
   ModeOpen (8 + 10000000)"
proof -
  have "streak 0 [Err (), Ok (), Err ()] = unat (failure_threshold sample_breaker_config) - 1 \<longrightarrow>
      mode (run (seq_call sample_breaker_config) breaker_new
        (calls_at [(1, 2), (3, 4), (5, 6)] [Err (), Ok (), Err ()] @ [(7, 8, Return (Err ()))])) =
      ModeOpen (8 + as_nanos (open_timeout sample_breaker_config))"
    by (rule trips_after_consecutive_failures [THEN conjunct2])
      (simp_all, simp_all add: sample_breaker_config_def)
  then show ?thesis by (simp add: sample_breaker_config_def dur duration_max_def)
qed

lemma spec_probes_succeed:
  assumes "k < n" and "n = unat (half_open_success_threshold cfg)"
    and "list_all (\<lambda>x. snd (snd x) = Return (Ok ())) xs" and "length xs = n - k"
  shows "run (spec_call cfg) (SpecHalfOpen k) xs = SpecClosed 0"
  using assms
proof (induction xs arbitrary: k)
  case (Cons x xs)
  have xs: "xs = []" if "Suc k = n"
  proof -
    have "length xs = 0" using Cons.prems(2,4) that by (simp del: length_0_conv)
    then show ?thesis by simp
  qed
  show ?case
  proof (cases "Suc k = n")
    case True
    with xs Cons.prems show ?thesis by (cases x) simp
  next
    case False
    with Cons show ?thesis by (cases x) simp
  qed
qed simp

text \<open>C19: an open circuit recovers: once its timeout has passed, \<open>half_open_success_threshold\<close>
  successful calls in a row close it, with the failure count at zero.\<close>

theorem breaker_recovers:
  assumes "idle cfg s" and "mode s = ModeOpen u" and "u \<le> fst x"
    and "list_all (legal_call cfg) (x # xs)"
    and "list_all (\<lambda>x. snd (snd x) = Return (Ok ())) (x # xs)"
    and "length (x # xs) = unat (half_open_success_threshold cfg)"
  shows "mode (run (seq_call cfg) s (x # xs)) = ModeClosed 0"
proof -
  let ?n = "unat (half_open_success_threshold cfg)"
  have "0 < ?n" using assms(6) by auto
  then have "run (spec_call cfg) (SpecHalfOpen 0) (x # xs) = SpecClosed 0"
    using assms(5,6) by (intro spec_probes_succeed [of _ ?n]) simp_all
  moreover have "spec_call cfg (SpecOpen u) x = spec_call cfg (SpecHalfOpen 0) x"
    using assms(3) by (cases x) simp
  ultimately have "run (spec_call cfg) (SpecOpen u) (x # xs) = SpecClosed 0" by simp
  then have "abs_mode (mode (run (seq_call cfg) s (x # xs))) = SpecClosed 0"
    using sequential.run_sim [OF assms(1,4)] assms(2) by simp
  then show ?thesis by (auto simp: abs_mode_eq unat_eq_zero)
qed

theorem breaker_recovers_witness:
  "mode (run (seq_call sample_breaker_config) \<lparr>generation = 1, mode = ModeOpen 5\<rparr>
     [(6, 7, Return (Ok ()))]) = ModeClosed 0"
  by (rule breaker_recovers [of _ _ 5])
    (simp_all add: idle_def, simp_all add: sample_breaker_config_def)

end
