(* ===== verification/Bulkhead.thy ===== *)
theory Bulkhead
  imports Contracts
begin

section \<open>The concurrency bulkhead (src/src/bulkhead.rs)\<close>

text \<open>
  The lock-free slot counter, its reservation loop and its release, permits and \<open>call\<close>.
  The reservation loop is modelled twice. One iteration is \<open>reserve_body\<close>; the system of threads
  below interleaves loads, weak compare-exchanges (which may fail although the value is the
  expected one) and releases at the granularity of the atomic instructions. What callers see of it is
  a history of the semaphore that is specified beside it; \<open>bulkhead_try_acquire\<close> is the loop run
  without interference. The \<open>debug_assert!\<close> of \<open>release_slot\<close> is a panic of the
  model, as in a debug build; the invariant shows that it never fires. The orderings of the
  atomic instructions act on a single location, whose modifications are totally ordered.
\<close>

datatype reserve_choice = Refuse | Swap usize

definition reserve_body :: "usize \<Rightarrow> usize \<Rightarrow> reserve_choice" where
  "reserve_body cap cur = (if cur \<ge> cap then Refuse else Swap (cur + 1))"

text \<open>
  The loop of one caller: \<open>cur\<close> is the value loaded, \<open>observed\<close> the values that the failing
  exchanges return before one succeeds.
\<close>

fun try_reserve :: "usize \<Rightarrow> usize \<Rightarrow> usize list \<Rightarrow> bool" where
  "try_reserve cap cur [] = (case reserve_body cap cur of Refuse \<Rightarrow> False | Swap n \<Rightarrow> True)"
| "try_reserve cap cur (v # observed) =
     (case reserve_body cap cur of Refuse \<Rightarrow> False | Swap n \<Rightarrow> try_reserve cap v observed)"

definition release_slot :: "usize \<Rightarrow> unit outcome \<times> usize" where
  "release_slot n = ((if n > 0 then Return () else Panic), n - 1)"

subsection \<open>The interface of one caller\<close>

datatype bulkhead_rejected = BulkheadRejected

fun bulkhead_rejected_display :: "bulkhead_rejected \<Rightarrow> string" where
  "bulkhead_rejected_display BulkheadRejected = ''bulkhead rejected the call''"

datatype 'e bulkhead_call_error = BulkheadRefused bulkhead_rejected | BulkheadInner 'e

fun bulkhead_call_error_display :: "('e \<Rightarrow> string) \<Rightarrow> 'e bulkhead_call_error \<Rightarrow> string" where
  "bulkhead_call_error_display show_error (BulkheadRefused r) = bulkhead_rejected_display r"
| "bulkhead_call_error_display show_error (BulkheadInner e) = show_error e"

record bulkhead =
  bulkhead_capacity :: usize
  slots_held :: usize

record bulkhead_permit =
  released :: bool

definition bulkhead_new :: "nz_usize \<Rightarrow> bulkhead" where
  "bulkhead_new n = \<lparr>bulkhead_capacity = nz_get n, slots_held = 0\<rparr>"

definition bulkhead_in_flight :: "bulkhead \<Rightarrow> usize" where
  "bulkhead_in_flight b = slots_held b"

definition bulkhead_available :: "bulkhead \<Rightarrow> usize" where
  "bulkhead_available b = saturating_sub (bulkhead_capacity b) (bulkhead_in_flight b)"

definition bulkhead_try_acquire ::
    "bulkhead \<Rightarrow> (bulkhead_permit, bulkhead_rejected) result \<times> bulkhead" where
  "bulkhead_try_acquire b =
     (case reserve_body (bulkhead_capacity b) (slots_held b) of
       Refuse \<Rightarrow> (Err BulkheadRejected, b)
     | Swap n \<Rightarrow> (Ok \<lparr>released = False\<rparr>, b\<lparr>slots_held := n\<rparr>))"

definition release_inner :: "bulkhead_permit \<Rightarrow> bulkhead \<Rightarrow> unit outcome \<times> bulkhead_permit \<times> bulkhead" where
  "release_inner p b =
     (if \<not> released p then
        (case release_slot (slots_held b) of
          (Return u, n) \<Rightarrow> (Return (), p\<lparr>released := True\<rparr>, b\<lparr>slots_held := n\<rparr>)
        | (Panic, n) \<Rightarrow> (Panic, p, b\<lparr>slots_held := n\<rparr>))
      else (Return (), p, b))"

definition bulkhead_permit_drop :: "bulkhead_permit \<Rightarrow> bulkhead \<Rightarrow> unit outcome \<times> bulkhead" where
  "bulkhead_permit_drop p b = (case release_inner p b of (r, p', b') \<Rightarrow> (r, b'))"

text \<open>\<open>release\<close> consumes the permit, so it is dropped when \<open>release_inner\<close> is done.\<close>

definition bulkhead_permit_release :: "bulkhead_permit \<Rightarrow> bulkhead \<Rightarrow> unit outcome \<times> bulkhead" where
  "bulkhead_permit_release p b =
     (case release_inner p b of
       (Return u, p', b') \<Rightarrow> bulkhead_permit_drop p' b'
     | (Panic, p', b') \<Rightarrow> (Panic, snd (bulkhead_permit_drop p' b')))"

text \<open>
  \<open>call\<close>: the operation runs with the permit held and may itself use the bulkhead, which other
  threads use too, so it takes and returns its state beside the world. The permit is dropped on every path.
\<close>

definition bulkhead_call ::
    "('w \<Rightarrow> bulkhead \<Rightarrow> ('t, 'e) result outcome \<times> 'w \<times> bulkhead) \<Rightarrow> 'w \<Rightarrow> bulkhead \<Rightarrow>
     ('t, 'e bulkhead_call_error) result outcome \<times> 'w \<times> bulkhead" where
  "bulkhead_call operation w b =
     (case bulkhead_try_acquire b of
       (Err r, b1) \<Rightarrow> (Return (Err (BulkheadRefused r)), w, b1)
     | (Ok p, b1) \<Rightarrow>
         (case operation w b1 of
           (res, w2, b2) \<Rightarrow>
             (case bulkhead_permit_drop p b2 of
               (Return u, b3) \<Rightarrow>
                 ((case res of Return r \<Rightarrow> Return (map_err BulkheadInner r) | Panic \<Rightarrow> Panic), w2, b3)
             | (Panic, b3) \<Rightarrow> (Panic, w2, b3))))"

lemma reserve_body_Swap: "reserve_body cap cur = Swap n \<longleftrightarrow> cur < cap \<and> n = cur + 1"
  by (auto simp: reserve_body_def)

lemma reserve_body_Refuse: "reserve_body cap cur = Refuse \<longleftrightarrow> cap \<le> cur"
  by (auto simp: reserve_body_def)

lemmas bulkhead_defs =
  bulkhead_try_acquire_def release_inner_def bulkhead_permit_drop_def bulkhead_permit_release_def
  release_slot_def

lemma bulkhead_try_acquire_Ok:
  "bulkhead_try_acquire b = (Ok p, b') \<longleftrightarrow>
     slots_held b < bulkhead_capacity b \<and> p = \<lparr>released = False\<rparr> \<and> b' = b\<lparr>slots_held := slots_held b + 1\<rparr>"
  by (auto simp: bulkhead_try_acquire_def reserve_body_def not_le)

lemma bulkhead_try_acquire_Err:
  "bulkhead_try_acquire b = (Err r, b') \<longleftrightarrow> bulkhead_capacity b \<le> slots_held b \<and> b' = b"
  by (cases r) (auto simp: bulkhead_try_acquire_def reserve_body_def)

lemma held_permit_drop:
  "\<not> released p \<Longrightarrow> 0 < slots_held b \<Longrightarrow>
     bulkhead_permit_drop p b = (Return (), b\<lparr>slots_held := slots_held b - 1\<rparr>)"
  by (simp add: bulkhead_defs)

subsection \<open>Threads\<close>

datatype pc = Idle | Reserving usize | Holding

record threads =
  counter :: usize
  pcs :: "pc list"

inductive bulkhead_step :: "usize \<Rightarrow> threads \<Rightarrow> threads \<Rightarrow> bool" for cap where
  load: "i < length (pcs s) \<Longrightarrow> pcs s ! i = Idle \<Longrightarrow>
    bulkhead_step cap s (s\<lparr>pcs := (pcs s)[i := Reserving (counter s)]\<rparr>)"
| refuse: "i < length (pcs s) \<Longrightarrow> pcs s ! i = Reserving c \<Longrightarrow> reserve_body cap c = Refuse \<Longrightarrow>
    bulkhead_step cap s (s\<lparr>pcs := (pcs s)[i := Idle]\<rparr>)"
| exchange: "i < length (pcs s) \<Longrightarrow> pcs s ! i = Reserving c \<Longrightarrow> reserve_body cap c = Swap n \<Longrightarrow>
    counter s = c \<Longrightarrow> bulkhead_step cap s (s\<lparr>counter := n, pcs := (pcs s)[i := Holding]\<rparr>)"
| exchange_fails: "i < length (pcs s) \<Longrightarrow> pcs s ! i = Reserving c \<Longrightarrow> reserve_body cap c = Swap n \<Longrightarrow>
    bulkhead_step cap s (s\<lparr>pcs := (pcs s)[i := Reserving (counter s)]\<rparr>)"
| release: "i < length (pcs s) \<Longrightarrow> pcs s ! i = Holding \<Longrightarrow> release_slot (counter s) = (r, n) \<Longrightarrow>
    bulkhead_step cap s (s\<lparr>counter := n, pcs := (pcs s)[i := Idle]\<rparr>)"

inductive bulkhead_reach :: "usize \<Rightarrow> nat \<Rightarrow> threads \<Rightarrow> bool" for cap k where
  start: "bulkhead_reach cap k \<lparr>counter = 0, pcs = replicate k Idle\<rparr>"
| step: "bulkhead_reach cap k s \<Longrightarrow> bulkhead_step cap s s' \<Longrightarrow> bulkhead_reach cap k s'"

definition holders :: "threads \<Rightarrow> nat" where
  "holders s = length (filter ((=) Holding) (pcs s))"

definition bulkhead_inv :: "usize \<Rightarrow> threads \<Rightarrow> bool" where
  "bulkhead_inv cap s \<longleftrightarrow> unat (counter s) = holders s \<and> counter s \<le> cap"

lemma holders_update:
  "i < length (pcs s) \<Longrightarrow>
     holders (s\<lparr>counter := n, pcs := (pcs s)[i := v]\<rparr>) + (if pcs s ! i = Holding then 1 else 0) =
     holders s + (if v = Holding then 1 else 0)"
  "i < length (pcs s) \<Longrightarrow>
     holders (s\<lparr>pcs := (pcs s)[i := v]\<rparr>) + (if pcs s ! i = Holding then 1 else 0) =
     holders s + (if v = Holding then 1 else 0)"
  using filter_list_update [of i "pcs s" "(=) Holding" v] by (auto simp: holders_def)

lemma holder_pos: "i < length (pcs s) \<Longrightarrow> pcs s ! i = Holding \<Longrightarrow> 0 < holders s"
  by (auto simp: holders_def filter_empty_conv in_set_conv_nth)

lemma bulkhead_inv_step:
  assumes "bulkhead_step cap s s'" and "bulkhead_inv cap s"
  shows "bulkhead_inv cap s'"
  using assms
proof (induction rule: bulkhead_step.induct)
  case (exchange i s c n)
  then have c: "c < cap" and n: "n = c + 1" by (simp_all add: reserve_body_Swap)
  have "unat (c + 1) = Suc (unat c)" using c by (rule unat_plus_one)
  with exchange c n holders_update(1) [OF exchange.hyps(1), where n = n and v = Holding] show ?case
    by (auto simp: bulkhead_inv_def word_le_nat_alt word_less_nat_alt)
next
  case (release i s r n)
  then have pos: "0 < unat (counter s)" using holder_pos by (auto simp: bulkhead_inv_def)
  then have n: "unat n = unat (counter s) - 1"
    using release by (auto simp: release_slot_def unat_minus_1 unat_gt_0)
  with release pos holders_update(1) [OF release.hyps(1), where n = n and v = Idle] show ?case
    by (auto simp: bulkhead_inv_def word_le_nat_alt)
qed (use holders_update(2) in \<open>fastforce simp: bulkhead_inv_def\<close>)+

lemma bulkhead_reach_inv: "bulkhead_reach cap k s \<Longrightarrow> bulkhead_inv cap s"
proof (induction rule: bulkhead_reach.induct)
  case start
  then show ?case by (simp add: bulkhead_inv_def holders_def)
qed (rule bulkhead_inv_step)

lemma bulkhead_reach_threads: "bulkhead_reach cap k s \<Longrightarrow> length (pcs s) = k"
  by (induction rule: bulkhead_reach.induct) (auto elim: bulkhead_step.cases)

inductive_simps bulkhead_step_iff: "bulkhead_step cap s s'"

text \<open>What one caller sees of the system: a bulkhead with that capacity and that many slots held.\<close>

definition seen :: "usize \<Rightarrow> threads \<Rightarrow> bulkhead" where
  "seen cap s = \<lparr>bulkhead_capacity = cap, slots_held = counter s\<rparr>"

subsection \<open>The semaphore that callers are promised\<close>

text \<open>
  The specification knows neither the exchange nor the loop. A number of slots is taken; a caller asks,
  is granted a slot at a moment when one is free, or is refused, and then there was a moment during its own call
  when every slot was taken; a holder gives its slot back. The history is what callers see, in order: their
  calls, the answers, and the slots returned.
\<close>

datatype caller_event = Called nat | Granted nat | Refused nat | GaveBack nat

datatype caller = Outside | Asking | FoundFull | Inside

inductive semaphore :: "nat \<Rightarrow> nat \<Rightarrow> nat \<Rightarrow> caller list \<Rightarrow> caller_event list \<Rightarrow> bool" for slots k where
  opens: "semaphore slots k 0 (replicate k Outside) []"
| asks: "semaphore slots k n cs h \<Longrightarrow> i < k \<Longrightarrow> cs ! i = Outside \<Longrightarrow>
    semaphore slots k n (cs[i := Asking]) (h @ [Called i])"
| finds_full: "semaphore slots k n cs h \<Longrightarrow> i < k \<Longrightarrow> cs ! i = Asking \<Longrightarrow> n = slots \<Longrightarrow>
    semaphore slots k n (cs[i := FoundFull]) h"
| refuses: "semaphore slots k n cs h \<Longrightarrow> i < k \<Longrightarrow> cs ! i = FoundFull \<Longrightarrow>
    semaphore slots k n (cs[i := Outside]) (h @ [Refused i])"
| grants: "semaphore slots k n cs h \<Longrightarrow> i < k \<Longrightarrow> cs ! i = Asking \<Longrightarrow> n < slots \<Longrightarrow>
    semaphore slots k (Suc n) (cs[i := Inside]) (h @ [Granted i])"
| takes_back: "semaphore slots k (Suc n) cs h \<Longrightarrow> i < k \<Longrightarrow> cs ! i = Inside \<Longrightarrow>
    semaphore slots k n (cs[i := Outside]) (h @ [GaveBack i])"

text \<open>What callers see of a step of the threads: who moved between being outside, in the loop and holding.\<close>

fun seen_event :: "nat \<Rightarrow> pc \<Rightarrow> pc \<Rightarrow> caller_event list" where
  "seen_event i Idle (Reserving c) = [Called i]"
| "seen_event i (Reserving c) Holding = [Granted i]"
| "seen_event i (Reserving c) Idle = [Refused i]"
| "seen_event i Holding Idle = [GaveBack i]"
| "seen_event i p p' = []"

text \<open>Each step is one thread's; \<open>i\<close> is that thread.\<close>

inductive bulkhead_history :: "usize \<Rightarrow> nat \<Rightarrow> threads \<Rightarrow> caller_event list \<Rightarrow> bool" for cap k where
  start: "bulkhead_history cap k \<lparr>counter = 0, pcs = replicate k Idle\<rparr> []"
| step: "bulkhead_history cap k s h \<Longrightarrow> bulkhead_step cap s s' \<Longrightarrow> i < length (pcs s) \<Longrightarrow>
    \<forall>j < length (pcs s). j \<noteq> i \<longrightarrow> pcs s' ! j = pcs s ! j \<Longrightarrow>
    bulkhead_history cap k s' (h @ seen_event i (pcs s ! i) (pcs s' ! i))"

text \<open>A caller that has read a full counter is going to be refused, whatever happens next.\<close>

fun caller_of :: "usize \<Rightarrow> pc \<Rightarrow> caller" where
  "caller_of cap Idle = Outside"
| "caller_of cap (Reserving c) = (if c < cap then Asking else FoundFull)"
| "caller_of cap Holding = Inside"

lemma bulkhead_history_reach: "bulkhead_history cap k s h \<Longrightarrow> bulkhead_reach cap k s"
  by (induction rule: bulkhead_history.induct) (blast intro: bulkhead_reach.intros)+

lemma bulkhead_reach_history: "bulkhead_reach cap k s \<Longrightarrow> \<exists>h. bulkhead_history cap k s h"
proof (induction rule: bulkhead_reach.induct)
  case (step s s')
  from step.hyps(2) obtain i where "i < length (pcs s)" "\<forall>j < length (pcs s). j \<noteq> i \<longrightarrow> pcs s' ! j = pcs s ! j"
    by cases auto
  with step show ?case by (blast intro: bulkhead_history.step)
qed (blast intro: bulkhead_history.start)

lemma seen_event_same [simp]: "seen_event i p p = []"
  by (cases p) simp_all

text \<open>One step of the threads is none, one or two of the semaphore: a load that meets a full counter is a call
  and the finding that there is no slot.\<close>

lemma semaphore_step:
  assumes sem: "semaphore (unat cap) k (unat (counter s)) (map (caller_of cap) (pcs s)) h"
    and inv: "bulkhead_inv cap s" and k: "length (pcs s) = k"
    and step: "bulkhead_step cap s s'" and i: "i < length (pcs s)"
    and others: "\<forall>j < length (pcs s). j \<noteq> i \<longrightarrow> pcs s' ! j = pcs s ! j"
  shows "semaphore (unat cap) k (unat (counter s')) (map (caller_of cap) (pcs s'))
    (h @ seen_event i (pcs s ! i) (pcs s' ! i))"
proof -
  have le: "unat (counter s) \<le> unat cap" using inv by (simp add: bulkhead_inv_def word_le_nat_alt)
  have at: "map (caller_of cap) (pcs s) ! i = caller_of cap (pcs s ! i)" and ik: "i < k" using i k by simp_all
  have full: "semaphore (unat cap) k (unat (counter s)) (cs[i := caller_of cap (Reserving (counter s))]) h'"
    if "semaphore (unat cap) k (unat (counter s)) cs h'" "cs ! i = Asking" for cs h'
  proof (cases "counter s < cap")
    case True
    with that have "cs[i := Asking] = cs" by (metis list_update_id)
    with that True show ?thesis by simp
  next
    case False
    then have "unat (counter s) = unat cap" using le by (simp add: word_less_nat_alt)
    with semaphore.finds_full [OF that(1) ik that(2)] False show ?thesis by simp
  qed
  from step show ?thesis
  proof cases
    case (load j)
    then have [simp]: "j = i" using others by (metis nth_list_update_eq pc.distinct(1) threads.select_convs(2) threads.surjective threads.update_convs(2))
    have "semaphore (unat cap) k (unat (counter s)) ((map (caller_of cap) (pcs s))[i := Asking]) (h @ [Called i])"
      using semaphore.asks [OF sem ik] at load by simp
    from full [OF this] load i show ?thesis by (simp add: map_update)
  next
    case (refuse j c)
    then have [simp]: "j = i" using others by fastforce
    from refuse have "\<not> c < cap" by (simp add: reserve_body_Refuse)
    with semaphore.refuses [OF sem ik] at refuse i show ?thesis by (simp add: map_update)
  next
    case (exchange j c n)
    then have [simp]: "j = i" using others by fastforce
    from exchange have c: "c < cap" "n = c + 1" by (simp_all add: reserve_body_Swap)
    then have "unat n = Suc (unat c)" "unat c < unat cap" by (simp_all add: unat_plus_one word_less_nat_alt)
    with semaphore.grants [OF sem ik] at exchange c i show ?thesis by (simp add: map_update)
  next
    case (exchange_fails j c n)
    from exchange_fails have c: "c < cap" by (simp add: reserve_body_Swap)
    show ?thesis
    proof (cases "j = i")
      case True
      with full [OF sem] at exchange_fails c i show ?thesis by (simp add: map_update)
    next
      case False
      with others exchange_fails have "pcs s' = pcs s" by (metis list_update_id nth_list_update_eq threads.select_convs(2) threads.surjective threads.update_convs(2))
      with sem exchange_fails show ?thesis by simp
    qed
  next
    case (release j r n)
    then have [simp]: "j = i" using others by fastforce
    have "0 < unat (counter s)" using holder_pos release inv by (auto simp: bulkhead_inv_def)
    moreover from this have "unat n = unat (counter s) - 1"
      using release by (auto simp: release_slot_def unat_minus_1 unat_gt_0)
    ultimately have "unat (counter s) = Suc (unat n)" by simp
    with semaphore.takes_back [OF sem [unfolded this] ik] at release i show ?thesis by (simp add: map_update)
  qed
qed

lemma release_never_panics:
  assumes "bulkhead_reach cap k s" and "i < length (pcs s)" and "pcs s ! i = Holding"
  shows "fst (release_slot (counter s)) = Return ()"
proof -
  have "0 < holders s" using assms(2,3) by (rule holder_pos)
  with bulkhead_reach_inv [OF assms(1)] show ?thesis
    by (simp add: bulkhead_inv_def release_slot_def word_less_nat_alt)
qed

subsection \<open>A pool of permits\<close>

text \<open>A bulkhead and the permits that its callers hold, acquired and dropped in any order.\<close>

datatype pool_op = Acquire | DropPermit nat | ReleasePermit nat

type_synonym permit_pool = "bulkhead \<times> bulkhead_permit list"

definition without :: "nat \<Rightarrow> 'a list \<Rightarrow> 'a list" where
  "without i xs = take i xs @ drop (Suc i) xs"

fun pool_step :: "permit_pool \<Rightarrow> pool_op \<Rightarrow> permit_pool" where
  "pool_step (b, ps) Acquire =
     (case bulkhead_try_acquire b of (Ok p, b') \<Rightarrow> (b', p # ps) | (Err e, b') \<Rightarrow> (b', ps))"
| "pool_step (b, ps) (DropPermit i) =
     (if i < length ps then (snd (bulkhead_permit_drop (ps ! i) b), without i ps) else (b, ps))"
| "pool_step (b, ps) (ReleasePermit i) =
     (if i < length ps then (snd (bulkhead_permit_release (ps ! i) b), without i ps) else (b, ps))"

fun pool_inv :: "permit_pool \<Rightarrow> bool" where
  "pool_inv (b, ps) \<longleftrightarrow>
     unat (slots_held b) = length ps \<and> slots_held b \<le> bulkhead_capacity b \<and>
     list_all (\<lambda>p. \<not> released p) ps"

fun pool_admits :: "permit_pool \<Rightarrow> pool_op \<Rightarrow> bool" where
  "pool_admits (b, ps) Acquire = (\<exists>p b'. bulkhead_try_acquire b = (Ok p, b'))"
| "pool_admits (b, ps) x = False"

fun pool_returned :: "pool_op \<Rightarrow> nat" where
  "pool_returned Acquire = 0"
| "pool_returned x = 1"

definition pool_stock :: "permit_pool \<Rightarrow> nat" where
  "pool_stock s = unat (bulkhead_available (fst s))"

lemma length_without: "i < length xs \<Longrightarrow> Suc (length (without i xs)) = length xs"
  by (simp add: without_def)

lemma list_all_without: "list_all P xs \<Longrightarrow> list_all P (without i xs)"
  by (auto simp: without_def list_all_iff dest: in_set_takeD in_set_dropD)

lemma held_permit_release:
  "\<not> released p \<Longrightarrow> 0 < slots_held b \<Longrightarrow>
     bulkhead_permit_release p b = (Return (), b\<lparr>slots_held := slots_held b - 1\<rparr>)"
  by (simp add: bulkhead_defs)

lemma pool_step_returns:
  assumes "pool_inv (b, ps)" and "i < length ps"
  shows "0 < slots_held b" and "\<not> released (ps ! i)" and "unat (slots_held b - 1) = length ps - 1"
proof -
  from assms show p: "0 < slots_held b" and "\<not> released (ps ! i)"
    by (auto simp: word_less_nat_alt list_all_length)
  from p assms show "unat (slots_held b - 1) = length ps - 1" by (simp add: unat_minus_1)
qed

lemma pool_step_inv: "pool_inv s \<Longrightarrow> pool_inv (pool_step s x)"
proof (induction s x rule: pool_step.induct)
  case (1 b ps)
  then show ?case
    by (auto simp: bulkhead_try_acquire_Ok bulkhead_try_acquire_Err word_le_nat_alt word_less_nat_alt
        unat_plus_one split: prod.split result.split)
next
  case (2 b ps i)
  then show ?case using pool_step_returns [OF 2] length_without [of i ps]
    by (auto simp: held_permit_drop word_le_nat_alt list_all_without)
next
  case (3 b ps i)
  then show ?case using pool_step_returns [OF 3] length_without [of i ps]
    by (auto simp: held_permit_release word_le_nat_alt list_all_without)
qed

lemma pool_step_stock:
  "pool_inv s \<Longrightarrow>
     pool_stock (pool_step s x) + (if pool_admits s x then 1 else 0) \<le> pool_stock s + pool_returned x"
proof (induction s x rule: pool_step.induct)
  case (1 b ps)
  then show ?case
    by (auto simp: bulkhead_try_acquire_Ok bulkhead_try_acquire_Err pool_stock_def
        bulkhead_available_def bulkhead_in_flight_def wsat word_less_nat_alt unat_plus_one
        split: prod.split result.split)
next
  case (2 b ps i)
  then show ?case using pool_step_returns [OF 2]
    by (auto simp: held_permit_drop pool_stock_def bulkhead_available_def bulkhead_in_flight_def wsat)
next
  case (3 b ps i)
  then show ?case using pool_step_returns [OF 3]
    by (auto simp: held_permit_release pool_stock_def bulkhead_available_def bulkhead_in_flight_def wsat)
qed

interpretation pool: token_pool pool_step pool_inv "\<lambda>x. True" pool_admits pool_stock pool_returned
  by unfold_locales (rule pool_step_inv pool_step_stock, assumption)+

lemma pool_inv_new: "pool_inv (bulkhead_new n, [])"
  by (simp add: bulkhead_new_def)

text \<open>\<open>call\<close> with an operation that leaves the slots as it finds them, or gives them all back.\<close>

definition balanced :: "('w \<Rightarrow> bulkhead \<Rightarrow> ('t, 'e) result outcome \<times> 'w \<times> bulkhead) \<Rightarrow> bool" where
  "balanced operation \<longleftrightarrow> (\<forall>w b. snd (snd (operation w b)) = b)"

lemma bulkhead_call_balanced:
  assumes "balanced operation"
  shows "bulkhead_call operation w b =
    (if slots_held b < bulkhead_capacity b then
       (case operation w (b\<lparr>slots_held := slots_held b + 1\<rparr>) of (res, w', _) \<Rightarrow>
          ((case res of Return r \<Rightarrow> Return (map_err BulkheadInner r) | Panic \<Rightarrow> Panic), w', b))
     else (Return (Err (BulkheadRefused BulkheadRejected)), w, b))"
proof (cases "slots_held b < bulkhead_capacity b")
  case True
  let ?b = "b\<lparr>slots_held := slots_held b + 1\<rparr>"
  have acq: "bulkhead_try_acquire b = (Ok \<lparr>released = False\<rparr>, ?b)"
    using True by (simp add: bulkhead_try_acquire_Ok)
  obtain r w' where op: "operation w ?b = (r, w', ?b)" using assms by (metis balanced_def surjective_pairing)
  have "0 < slots_held ?b" using unat_plus_one [OF True] by (simp add: word_less_nat_alt)
  then have drop: "bulkhead_permit_drop \<lparr>released = False\<rparr> ?b = (Return (), b)"
    by (simp add: held_permit_drop)
  show ?thesis using True by (simp add: bulkhead_call_def acq op drop)
next
  case False
  then have "bulkhead_try_acquire b = (Err BulkheadRejected, b)"
    by (simp add: bulkhead_try_acquire_Err not_less)
  with False show ?thesis by (simp add: bulkhead_call_def)
qed

subsection \<open>Properties\<close>

text \<open>C3: in every reachable interleaving of threads that reserve and release slots, with exchanges
  that fail spuriously or because another thread was faster, the counter is the number of permits
  held, never above the capacity, and a release never meets an empty counter.\<close>

theorem bulkhead_counts_holders:
  assumes "bulkhead_reach cap k s"
  shows "unat (counter s) = length (filter ((=) Holding) (pcs s)) \<and> counter s \<le> cap \<and>
    (Holding \<in> set (pcs s) \<longrightarrow> fst (release_slot (counter s)) = Return ())"
proof (intro conjI)
  show "unat (counter s) = length (filter ((=) Holding) (pcs s))" and "counter s \<le> cap"
    using bulkhead_reach_inv [OF assms] by (simp_all add: bulkhead_inv_def holders_def)
  show "Holding \<in> set (pcs s) \<longrightarrow> fst (release_slot (counter s)) = Return ()"
    using release_never_panics [OF assms] by (auto simp: in_set_conv_nth)
qed

lemma sample_contention:
  "bulkhead_reach 1 2 \<lparr>counter = 1, pcs = [Holding, Reserving 1]\<rparr>"
proof -
  have "bulkhead_reach 1 2 \<lparr>counter = 0, pcs = [Idle, Idle]\<rparr>"
    using bulkhead_reach.start [of 1 2] by (simp add: numeral_2_eq_2)
  from bulkhead_reach.step [OF this bulkhead_step.load [of 0]]
  have "bulkhead_reach 1 2 \<lparr>counter = 0, pcs = [Reserving 0, Idle]\<rparr>" by simp
  from bulkhead_reach.step [OF this bulkhead_step.load [of 1]]
  have "bulkhead_reach 1 2 \<lparr>counter = 0, pcs = [Reserving 0, Reserving 0]\<rparr>" by simp
  from bulkhead_reach.step [OF this bulkhead_step.exchange [of 0 _ 0 1 1]]
  have "bulkhead_reach 1 2 \<lparr>counter = 1, pcs = [Holding, Reserving 0]\<rparr>"
    by (simp add: reserve_body_def)
  from bulkhead_reach.step [OF this bulkhead_step.exchange_fails [of 1 _ 0 1 1]]
  show ?thesis by (simp add: reserve_body_def)
qed

theorem bulkhead_counts_holders_witness:
  "bulkhead_reach 1 2 \<lparr>counter = 1, pcs = [Holding, Reserving 1]\<rparr> \<and>
   fst (release_slot (counter \<lparr>counter = 1, pcs = [Holding, Reserving 1]\<rparr>)) = Return ()"
  using sample_contention bulkhead_counts_holders [OF sample_contention] by simp

text \<open>C21: the lock-free loop is a semaphore to its callers: in whatever order the threads execute their loads, their
  weak exchanges, which may fail spuriously, and their releases, the calls, answers and slots given back that the
  callers see are a history of the semaphore with \<open>capacity\<close> slots, whose grants and refusals are each decided at
  one instant within the call, and the counter is its number of slots taken.\<close>

theorem bulkhead_is_semaphore:
  assumes "bulkhead_history cap k s h"
  shows "semaphore (unat cap) k (unat (counter s)) (map (caller_of cap) (pcs s)) h"
  using assms
proof (induction rule: bulkhead_history.induct)
  case start
  show ?case using semaphore.opens [of "unat cap" k] by simp
next
  case (step s h s' i)
  note reach = bulkhead_history_reach [OF step.hyps(1)]
  show ?case
    by (rule semaphore_step [OF step.IH bulkhead_reach_inv [OF reach] bulkhead_reach_threads [OF reach] step.hyps(2-4)])
qed

lemma sample_history:
  "bulkhead_history 1 2 \<lparr>counter = 1, pcs = [Holding, Idle]\<rparr> [Called 0, Called 1, Granted 0, Refused 1]"
proof -
  have "bulkhead_history 1 2 \<lparr>counter = 0, pcs = [Idle, Idle]\<rparr> []"
    using bulkhead_history.start [of 1 2] by (simp add: numeral_2_eq_2)
  from bulkhead_history.step [OF this bulkhead_step.load [of 0], of 0]
  have "bulkhead_history 1 2 \<lparr>counter = 0, pcs = [Reserving 0, Idle]\<rparr> [Called 0]" by (simp add: less_Suc_eq)
  from bulkhead_history.step [OF this bulkhead_step.load [of 1], of 1]
  have "bulkhead_history 1 2 \<lparr>counter = 0, pcs = [Reserving 0, Reserving 0]\<rparr> [Called 0, Called 1]" by (simp add: less_Suc_eq)
  from bulkhead_history.step [OF this bulkhead_step.exchange [of 0 _ 0 1 1], of 0]
  have "bulkhead_history 1 2 \<lparr>counter = 1, pcs = [Holding, Reserving 0]\<rparr> [Called 0, Called 1, Granted 0]"
    by (simp add: reserve_body_def less_Suc_eq)
  from bulkhead_history.step [OF this bulkhead_step.exchange_fails [of 1 _ 0 1 1], of 1]
  have "bulkhead_history 1 2 \<lparr>counter = 1, pcs = [Holding, Reserving 1]\<rparr> [Called 0, Called 1, Granted 0]"
    by (simp add: reserve_body_def less_Suc_eq)
  from bulkhead_history.step [OF this bulkhead_step.refuse [of 1 _ 1 1], of 1]
  show ?thesis by (simp add: reserve_body_def less_Suc_eq)
qed

theorem bulkhead_is_semaphore_witness:
  "semaphore 1 2 1 [Inside, Outside] [Called 0, Called 1, Granted 0, Refused 1]"
  using bulkhead_is_semaphore [OF sample_history] by simp

text \<open>however acquisitions, drops and explicit releases interleave, a new bulkhead never admits
  more than its capacity plus the number of permits given back, and each permit gives back its
  slot exactly once.\<close>

theorem bulkhead_admissions_bounded:
  "admitted pool_step pool_admits (bulkhead_new n, []) xs + unat (bulkhead_available (fst (run pool_step (bulkhead_new n, []) xs)))
     \<le> unat (nz_get n) + sum_list (map pool_returned xs) \<and>
   pool_inv (run pool_step (bulkhead_new n, []) xs)"
proof (intro conjI)
  have all: "list_all (\<lambda>x. True) xs" by (simp add: list_all_iff)
  have new: "unat (bulkhead_available (bulkhead_new n)) = unat (nz_get n)"
    by (simp add: bulkhead_available_def bulkhead_in_flight_def bulkhead_new_def wsat)
  show "admitted pool_step pool_admits (bulkhead_new n, []) xs + unat (bulkhead_available (fst (run pool_step (bulkhead_new n, []) xs)))
     \<le> unat (nz_get n) + sum_list (map pool_returned xs)"
    using pool.admitted_le [OF pool_inv_new [of n] all] by (simp add: pool_stock_def new)
  show "pool_inv (run pool_step (bulkhead_new n, []) xs)"
    by (rule pool.run_inv [OF pool_inv_new all])
qed

text \<open>\<open>call\<close> holds one slot while its operation runs and gives it back on every path: success,
  error and panic; when the bulkhead is full the operation does not run at all.\<close>

theorem bulkhead_call_gives_back:
  assumes "balanced operation"
  shows "bulkhead_call operation w b =
    (if slots_held b < bulkhead_capacity b then
       (case operation w (b\<lparr>slots_held := slots_held b + 1\<rparr>) of (res, w', _) \<Rightarrow>
          ((case res of Return r \<Rightarrow> Return (map_err BulkheadInner r) | Panic \<Rightarrow> Panic), w', b))
     else (Return (Err (BulkheadRefused BulkheadRejected)), w, b))"
  by (rule bulkhead_call_balanced [OF assms])

theorem bulkhead_call_gives_back_witness:
  "bulkhead_call (\<lambda>w b. (Panic :: (unit, unit) result outcome, w, b)) () (bulkhead_new (nz_of 1)) =
     (Panic, (), bulkhead_new (nz_of 1))"
  by (subst bulkhead_call_gives_back) (simp_all add: balanced_def, simp add: bulkhead_new_def)

end
