(* ===== verification/Routing.thy ===== *)
theory Routing
  imports Contracts "HOL-Library.List_Lexorder" "HOL-Library.Char_ord"
begin

section \<open>Routing tables and the table store (src/src/routing.rs)\<close>

text \<open>
  Route identifiers, routes, the validated immutable table with its weighted selection, and the
  store that publishes tables. A Rust string is its list of bytes. A closure that draws from the
  range \<open>0..n\<close> is a function of \<open>n\<close>; it is called at most once. The store's lock makes
  \<open>snapshot\<close> and \<open>replace\<close> atomic, and a poisoned lock is recovered, so a store is its current
  table and concurrent callers are a sequence of operations.
\<close>

subsection \<open>Identifiers and routes\<close>

datatype route_table_error =
  EmptyRouteTable | EmptyRouteId | DuplicateRouteId | NoWeightedEligibleRoute | WeightOverflow
  | DrawOutOfRange | GenerationExhausted

fun route_table_error_display :: "route_table_error \<Rightarrow> string" where
  "route_table_error_display EmptyRouteTable = ''route table must contain at least one route''"
| "route_table_error_display EmptyRouteId = ''route id must not be empty''"
| "route_table_error_display DuplicateRouteId = ''route table contains a duplicate route id''"
| "route_table_error_display NoWeightedEligibleRoute =
     ''route table has no enabled route with positive weight''"
| "route_table_error_display WeightOverflow = ''total eligible route weight overflowed u64''"
| "route_table_error_display DrawOutOfRange =
     ''weighted-selection draw was outside the requested range''"
| "route_table_error_display GenerationExhausted = ''route-table generation exhausted u64''"

datatype route_id = RouteId (as_str: string)

definition route_id_new :: "string \<Rightarrow> (route_id, route_table_error) result" where
  "route_id_new s = (if s = [] then Err EmptyRouteId else Ok (RouteId s))"

text \<open>\<open>RouteId\<close> derives its order from the string's bytes.\<close>

instantiation route_id :: linorder
begin

definition less_eq_route_id :: "route_id \<Rightarrow> route_id \<Rightarrow> bool" where
  "less_eq_route_id a b \<longleftrightarrow> as_str a \<le> as_str b"

definition less_route_id :: "route_id \<Rightarrow> route_id \<Rightarrow> bool" where
  "less_route_id a b \<longleftrightarrow> as_str a < as_str b"

instance
  by standard (auto simp: less_eq_route_id_def less_route_id_def route_id.expand)

end

record route =
  route_ident :: route_id
  route_weight :: u64
  route_enabled :: bool

definition route_new :: "route_id \<Rightarrow> u64 \<Rightarrow> route" where
  "route_new i w = \<lparr>route_ident = i, route_weight = w, route_enabled = True\<rparr>"

definition route_disabled :: "route \<Rightarrow> route" where
  "route_disabled r = r\<lparr>route_enabled := False\<rparr>"

subsection \<open>The table\<close>

record route_table =
  table_generation :: u64
  table_routes :: "route list"
  table_eligible_weight :: u64

text \<open>The routes that count: enabled and of positive weight.\<close>

definition live :: "route \<Rightarrow> bool" where
  "live r \<longleftrightarrow> route_enabled r \<and> route_weight r > 0"

text \<open>The validation loop of \<open>RouteTable::new\<close>, over the identifiers seen and the weight so far.\<close>

fun validate_routes :: "route list \<Rightarrow> route_id set \<Rightarrow> u64 \<Rightarrow> (u64, route_table_error) result" where
  "validate_routes [] ids w = Ok w"
| "validate_routes (r # rs) ids w =
     (if route_ident r \<in> ids then Err DuplicateRouteId
      else if route_enabled r \<and> route_weight r > 0 then
        (case checked_add w (route_weight r) of
          None \<Rightarrow> Err WeightOverflow
        | Some w' \<Rightarrow> validate_routes rs (insert (route_ident r) ids) w')
      else validate_routes rs (insert (route_ident r) ids) w)"

definition route_table_new :: "u64 \<Rightarrow> route list \<Rightarrow> (route_table, route_table_error) result" where
  "route_table_new g rs =
     (if rs = [] then Err EmptyRouteTable
      else case validate_routes rs {} 0 of
        Err e \<Rightarrow> Err e
      | Ok w \<Rightarrow>
          if w = 0 then Err NoWeightedEligibleRoute
          else Ok \<lparr>table_generation = g, table_routes = rs, table_eligible_weight = w\<rparr>)"

fun select_loop :: "route list \<Rightarrow> u64 \<Rightarrow> route outcome" where
  "select_loop [] cursor = Panic"
| "select_loop (r # rs) cursor =
     (if \<not> route_enabled r \<or> route_weight r = 0 then select_loop rs cursor
      else if cursor < route_weight r then Return r
      else select_loop rs (cursor - route_weight r))"

definition table_select_with ::
    "route_table \<Rightarrow> (u64 \<Rightarrow> u64) \<Rightarrow> (route, route_table_error) result outcome" where
  "table_select_with t draw =
     (let selected = draw (table_eligible_weight t) in
      if selected \<ge> table_eligible_weight t then Return (Err DrawOutOfRange)
      else case select_loop (table_routes t) selected of
        Return r \<Rightarrow> Return (Ok r)
      | Panic \<Rightarrow> Panic)"

text \<open>\<open>select\<close> passes \<open>fastrand::u64\<close>, here the parameter \<open>fastrand\<close>, and unwraps the result.\<close>

definition table_select :: "(u64 \<Rightarrow> u64) \<Rightarrow> route_table \<Rightarrow> route outcome" where
  "table_select fastrand t = bind_outcome (table_select_with t fastrand) expect"

subsection \<open>What validation accepts\<close>

definition live_weight :: "route list \<Rightarrow> nat" where
  "live_weight rs = sum_list (map (unat \<circ> route_weight) (filter live rs))"

lemma live_weight_simps [simp]:
  "live_weight [] = 0"
  "live_weight (r # rs) = (if live r then unat (route_weight r) else 0) + live_weight rs"
  by (simp_all add: live_weight_def)

definition table_ok :: "route_table \<Rightarrow> bool" where
  "table_ok t \<longleftrightarrow> distinct (map route_ident (table_routes t)) \<and>
     unat (table_eligible_weight t) = live_weight (table_routes t) \<and> table_eligible_weight t \<noteq> 0"

lemma validate_routes_Ok:
  "validate_routes rs ids w = Ok v \<longleftrightarrow>
     distinct (map route_ident rs) \<and> route_ident ` set rs \<inter> ids = {} \<and>
     unat v = unat w + live_weight rs"
proof (induction rs ids w rule: validate_routes.induct)
  case (2 r rs ids w)
  show ?case
  proof (cases "route_ident r \<in> ids")
    case False
    note new = this
    show ?thesis
    proof (cases "live r")
      case True
      show ?thesis
      proof (cases "checked_add w (route_weight r)")
        case None
        with True new have "2 ^ 64 \<le> unat w + unat (route_weight r)" by (simp add: wsat)
        then have "unat v \<noteq> unat w + live_weight (r # rs)"
          using True u64_less [of v] by simp
        with None True new show ?thesis by (simp add: live_def)
      next
        case (Some w')
        then have "unat w' = unat w + unat (route_weight r)" by (simp add: wsat)
        with Some True new 2(1) [of w'] show ?thesis by (auto simp: live_def)
      qed
    next
      case False
      with new 2(2) show ?thesis by (auto simp: live_def)
    qed
  qed auto
qed (auto simp: word_unat_eq_iff)

lemma validate_routes_error:
  "validate_routes rs ids w = Err e \<Longrightarrow> e = DuplicateRouteId \<or> e = WeightOverflow"
  by (induction rs ids w rule: validate_routes.induct) (auto split: if_splits option.splits)

lemma validate_routes_accepts:
  "(\<exists>v. validate_routes rs {} 0 = Ok v) \<longleftrightarrow> distinct (map route_ident rs) \<and> live_weight rs < 2 ^ 64"
proof -
  have "(\<exists>v :: u64. unat v = live_weight rs) \<longleftrightarrow> live_weight rs < 2 ^ 64"
  proof
    assume "live_weight rs < 2 ^ 64"
    then have "unat (word_of_nat (live_weight rs) :: u64) = live_weight rs" by (simp add: unat_of_nat)
    then show "\<exists>v :: u64. unat v = live_weight rs" by blast
  next
    assume "\<exists>v :: u64. unat v = live_weight rs"
    then obtain v :: u64 where "live_weight rs = unat v" by metis
    then show "live_weight rs < 2 ^ 64" using u64_less [of v] by simp
  qed
  then show ?thesis by (auto simp: validate_routes_Ok)
qed

lemma validate_routes_overflow:
  "validate_routes rs ids w = Err WeightOverflow \<Longrightarrow> 2 ^ 64 \<le> unat w + live_weight rs"
proof (induction rs ids w rule: validate_routes.induct)
  case (2 r rs ids w)
  show ?case
  proof (cases "live r")
    case True
    show ?thesis
    proof (cases "checked_add w (route_weight r)")
      case None
      with True show ?thesis by (simp add: wsat)
    next
      case (Some w')
      with True 2(1) [of w'] 2(3) have "2 ^ 64 \<le> unat w' + live_weight rs"
        by (simp add: live_def split: if_splits)
      with True Some show ?thesis by (simp add: wsat)
    qed
  next
    case False
    with 2 show ?thesis by (auto simp: live_def split: if_splits)
  qed
qed simp

lemma route_table_new_Ok:
  "route_table_new g rs = Ok t \<longleftrightarrow> table_ok t \<and> table_generation t = g \<and> table_routes t = rs"
proof (cases "rs = []")
  case True
  then show ?thesis
    by (auto simp: route_table_new_def table_ok_def word_unat_eq_iff)
next
  case False
  show ?thesis
  proof (cases "validate_routes rs {} 0")
    case (Ok w)
    then have w: "distinct (map route_ident rs)" "unat w = live_weight rs"
      by (simp_all add: validate_routes_Ok)
    have "table_ok t \<and> table_generation t = g \<and> table_routes t = rs \<longleftrightarrow>
        w \<noteq> 0 \<and> t = \<lparr>table_generation = g, table_routes = rs, table_eligible_weight = w\<rparr>"
      using w by (cases t) (auto simp: table_ok_def word_unat_eq_iff)
    then show ?thesis using False Ok by (auto simp: route_table_new_def)
  next
    case (Err e)
    then have "\<not> (distinct (map route_ident rs) \<and> unat (table_eligible_weight t) = live_weight rs)"
      using validate_routes_Ok [of rs "{}" 0 "table_eligible_weight t"] by auto
    then show ?thesis using False Err by (auto simp: route_table_new_def table_ok_def)
  qed
qed

lemma live_weight_less_if_ok: "table_ok t \<Longrightarrow> live_weight (table_routes t) < 2 ^ 64"
  using u64_less [of "table_eligible_weight t"] by (simp add: table_ok_def)

text \<open>A table can be built from these routes exactly under these conditions.\<close>

definition routes_valid :: "route list \<Rightarrow> bool" where
  "routes_valid rs \<longleftrightarrow> distinct (map route_ident rs) \<and> 0 < live_weight rs \<and> live_weight rs < 2 ^ 64"

lemma table_ok_routes_valid: "table_ok t \<Longrightarrow> routes_valid (table_routes t)"
  using live_weight_less_if_ok [of t]
  by (auto simp: table_ok_def routes_valid_def) (metis neq0_conv unat_eq_zero)

lemma routes_valid_iff: "(\<exists>t. route_table_new g rs = Ok t) \<longleftrightarrow> routes_valid rs"
proof
  assume "\<exists>t. route_table_new g rs = Ok t"
  then show "routes_valid rs" using table_ok_routes_valid by (auto simp: route_table_new_Ok)
next
  assume v: "routes_valid rs"
  let ?t = "\<lparr>table_generation = g, table_routes = rs, table_eligible_weight = word_of_nat (live_weight rs)\<rparr>"
  have "unat (word_of_nat (live_weight rs) :: u64) = live_weight rs"
    using v by (simp add: routes_valid_def unat_of_nat)
  then have "table_ok ?t" using v by (auto simp: table_ok_def routes_valid_def)
  then show "\<exists>t. route_table_new g rs = Ok t" by (auto simp: route_table_new_Ok)
qed

text \<open>Which error validation reports: the first offence in the order of the routes.\<close>

lemma validate_routes_Duplicate:
  "validate_routes rs ids w = Err DuplicateRouteId \<longleftrightarrow>
     (\<exists>p r s. rs = p @ r # s \<and> (route_ident r \<in> ids \<or> route_ident r \<in> route_ident ` set p) \<and>
        (\<exists>v. validate_routes p ids w = Ok v))"
proof (induction rs ids w rule: validate_routes.induct)
  case (2 r rs ids w)
  let ?Q = "\<lambda>ids w p x. (route_ident x \<in> ids \<or> route_ident x \<in> route_ident ` set p) \<and>
    (\<exists>v. validate_routes p ids w = Ok v)"
  have split_Cons: "(\<exists>p x s. r # rs = p @ x # s \<and> Q p x) \<longleftrightarrow>
      Q [] r \<or> (\<exists>p x s. rs = p @ x # s \<and> Q (r # p) x)" for Q
    by (auto simp: Cons_eq_append_conv)
  have tail: "(\<exists>p x s. rs = p @ x # s \<and> ?Q ids w (r # p) x) \<longleftrightarrow>
      (\<exists>p x s. rs = p @ x # s \<and> ?Q (insert (route_ident r) ids) w' p x)"
    if "\<And>p. validate_routes (r # p) ids w = validate_routes p (insert (route_ident r) ids) w'" for w'
    unfolding that by (intro iff_exI conj_cong refl) auto
  show ?case
  proof (cases "route_ident r \<in> ids")
    case True
    then show ?thesis unfolding split_Cons by simp
  next
    case False
    note new = this
    show ?thesis
    proof (cases "route_enabled r \<and> 0 < route_weight r")
      case True
      show ?thesis
      proof (cases "checked_add w (route_weight r)")
        case None
        with True new show ?thesis unfolding split_Cons by simp
      next
        case (Some w')
        have step: "validate_routes (r # p) ids w = validate_routes p (insert (route_ident r) ids) w'" for p
          using Some True new by simp
        show ?thesis unfolding split_Cons tail [OF step] unfolding step using 2(1) [OF new True Some] new by simp
      qed
    next
      case False
      have step: "validate_routes (r # p) ids w = validate_routes p (insert (route_ident r) ids) w" for p
        using False new by auto
      show ?thesis unfolding split_Cons tail [OF step] unfolding step using 2(2) [OF new False] new by simp
    qed
  qed
qed auto

subsection \<open>Selection is a weighted choice\<close>

lemma select_loop_pick:
  "unat cursor < live_weight rs \<Longrightarrow>
     select_loop rs cursor = Return r \<longleftrightarrow> pick (unat \<circ> route_weight) (filter live rs) (unat cursor) = Some r"
proof (induction rs cursor rule: select_loop.induct)
  case (2 r' rs cursor)
  show ?case
  proof (cases "live r' \<and> \<not> cursor < route_weight r'")
    case True
    then have "unat (cursor - route_weight r') = unat cursor - unat (route_weight r')"
      by (simp add: not_less word_le_nat_alt unat_sub)
    moreover from True 2 this have "unat (cursor - route_weight r') < live_weight rs"
      by (simp add: word_less_nat_alt) linarith
    moreover from True have "\<not> unat cursor < unat (route_weight r')"
      by (simp add: word_less_nat_alt)
    ultimately show ?thesis using True 2 by (auto simp: live_def)
  next
    case False
    with 2 show ?thesis by (auto simp: live_def word_less_nat_alt unat_gt_0)
  qed
qed simp

lemma select_loop_Return:
  assumes "unat cursor < live_weight rs"
  obtains r where "select_loop rs cursor = Return r" "r \<in> set rs" "live r"
proof -
  from assms obtain r where p: "pick (unat \<circ> route_weight) (filter live rs) (unat cursor) = Some r"
    using pick_in_range by (metis live_weight_def)
  then have "r \<in> set rs" "live r" using pick_Some [OF p] by auto
  with that p assms show ?thesis by (simp add: select_loop_pick)
qed

lemma table_draw_in_range:
  "table_ok t \<Longrightarrow> d < table_eligible_weight t \<Longrightarrow> unat d < live_weight (table_routes t)"
  by (simp add: table_ok_def word_less_nat_alt)

definition table_chosen :: "route_table \<Rightarrow> u64 \<Rightarrow> route option" where
  "table_chosen t d = (case table_select_with t (\<lambda>n. d) of Return (Ok r) \<Rightarrow> Some r | _ \<Rightarrow> None)"

lemma table_chosen_pick:
  assumes "table_ok t" and "d < table_eligible_weight t"
  shows "table_chosen t d = pick (unat \<circ> route_weight) (filter live (table_routes t)) (unat d)"
proof -
  have u: "unat d < live_weight (table_routes t)" using assms by (rule table_draw_in_range)
  then obtain r where r: "select_loop (table_routes t) d = Return r" by (rule select_loop_Return)
  then have "pick (unat \<circ> route_weight) (filter live (table_routes t)) (unat d) = Some r"
    using u by (simp add: select_loop_pick)
  with r assms(2) show ?thesis by (simp add: table_chosen_def table_select_with_def Let_def not_le)
qed

interpretation table: weighted_choice table_ok "\<lambda>t. filter live (table_routes t)"
    "unat \<circ> route_weight" table_eligible_weight table_chosen
  by unfold_locales (simp_all add: table_chosen_pick, simp add: table_ok_def live_weight_def)

lemma table_select_with_cases:
  assumes "table_ok t"
  shows "if draw (table_eligible_weight t) < table_eligible_weight t
    then \<exists>r. table_select_with t draw = Return (Ok r) \<and> r \<in> set (table_routes t) \<and> live r
    else table_select_with t draw = Return (Err DrawOutOfRange)"
proof (cases "draw (table_eligible_weight t) < table_eligible_weight t")
  case True
  then obtain r where "select_loop (table_routes t) (draw (table_eligible_weight t)) = Return r"
      "r \<in> set (table_routes t)" "live r"
    using assms select_loop_Return table_draw_in_range by metis
  with True show ?thesis by (simp add: table_select_with_def Let_def not_le)
qed (simp add: table_select_with_def Let_def not_less)

lemma table_distinct_routes: "table_ok t \<Longrightarrow> distinct (table_routes t)"
  by (auto simp: table_ok_def distinct_map)

subsection \<open>The store\<close>

record route_table_store =
  store_current :: route_table

definition store_new :: "route_table \<Rightarrow> route_table_store" where
  "store_new t = \<lparr>store_current = t\<rparr>"

definition store_snapshot :: "route_table_store \<Rightarrow> route_table" where
  "store_snapshot s = store_current s"

definition store_replace ::
    "route_table_store \<Rightarrow> route list \<Rightarrow> (route_table, route_table_error) result \<times> route_table_store" where
  "store_replace s rs =
     (case checked_add (table_generation (store_current s)) 1 of
       None \<Rightarrow> (Err GenerationExhausted, s)
     | Some g \<Rightarrow>
         (case route_table_new g rs of
           Err e \<Rightarrow> (Err e, s)
         | Ok t \<Rightarrow> (Ok t, s\<lparr>store_current := t\<rparr>)))"

text \<open>
  The abstract store: a generation that counts up and the routes last accepted. Every
  \<open>replace\<close> either does both or nothing.
\<close>

type_synonym store_spec = "nat \<times> route list"

fun spec_replace :: "store_spec \<Rightarrow> route list \<Rightarrow> store_spec" where
  "spec_replace (g, rs) rs' =
     (if g + 1 < 2 ^ 64 \<and> routes_valid rs' then (g + 1, rs') else (g, rs))"

definition store_step :: "route_table_store \<Rightarrow> route list \<Rightarrow> route_table_store" where
  "store_step s rs = snd (store_replace s rs)"

definition store_abs :: "route_table_store \<Rightarrow> store_spec" where
  "store_abs s = (unat (table_generation (store_current s)), table_routes (store_current s))"

definition store_ok :: "route_table_store \<Rightarrow> bool" where
  "store_ok s \<longleftrightarrow> table_ok (store_current s)"

lemma store_replace_Ok:
  "fst (store_replace s rs) = Ok t \<longleftrightarrow>
     table_ok t \<and> table_routes t = rs \<and>
     unat (table_generation t) = unat (table_generation (store_current s)) + 1"
proof (cases "checked_add (table_generation (store_current s)) 1")
  case None
  then show ?thesis
    using u64_less [of "table_generation t"] by (simp add: store_replace_def) (simp add: wsat)
next
  case (Some g)
  then have g: "unat g = unat (table_generation (store_current s)) + 1" by (simp add: wsat)
  have "fst (store_replace s rs) = Ok t \<longleftrightarrow> route_table_new g rs = Ok t"
    by (simp add: store_replace_def Some split: result.split)
  then show ?thesis using g by (auto simp: route_table_new_Ok word_unat_eq_iff)
qed

lemma store_replace_result:
  "store_step s rs = (case fst (store_replace s rs) of Ok t \<Rightarrow> store_new t | Err e \<Rightarrow> s)"
  by (auto simp: store_step_def store_replace_def store_new_def split: option.split result.split)

lemma store_step_ok: "store_ok s \<Longrightarrow> store_ok (store_step s rs)"
  by (auto simp: store_replace_result store_ok_def store_new_def store_replace_Ok split: result.split)

lemma store_step_abs:
  assumes "store_ok s"
  shows "store_abs (store_step s rs) = spec_replace (store_abs s) rs"
proof (cases "checked_add (table_generation (store_current s)) 1")
  case None
  then have "store_step s rs = s" by (simp add: store_step_def store_replace_def)
  with None show ?thesis by (simp add: store_abs_def wsat)
next
  case (Some g)
  then have g: "unat g = unat (table_generation (store_current s)) + 1" by (simp add: wsat)
  show ?thesis
  proof (cases "route_table_new g rs")
    case (Ok t)
    then have "routes_valid rs" using routes_valid_iff by blast
    moreover have "store_step s rs = s\<lparr>store_current := t\<rparr>"
      using Some Ok by (simp add: store_step_def store_replace_def)
    moreover have "table_generation t = g" "table_routes t = rs"
      using Ok by (simp_all add: route_table_new_Ok)
    ultimately show ?thesis using g u64_less [of g] by (simp add: store_abs_def)
  next
    case (Err e)
    then have "\<not> routes_valid rs" using routes_valid_iff [of g rs] by simp
    with Some Err show ?thesis by (simp add: store_abs_def store_step_def store_replace_def)
  qed
qed

interpretation store: simulation store_step store_ok "\<lambda>rs. True" spec_replace store_abs
  by unfold_locales (rule store_step_ok store_step_abs, assumption)+

text \<open>Every table a store has held, the first to the present one.\<close>

fun published :: "route_table_store \<Rightarrow> route list list \<Rightarrow> route_table list" where
  "published s [] = [store_snapshot s]"
| "published s (rs # rss) =
     (case fst (store_replace s rs) of
       Ok t \<Rightarrow> store_snapshot s # published (store_step s rs) rss
     | Err e \<Rightarrow> published (store_step s rs) rss)"

lemma published_ok: "store_ok s \<Longrightarrow> t \<in> set (published s rss) \<Longrightarrow> table_ok t"
  by (induction s rss rule: published.induct)
    (auto simp: store_ok_def store_snapshot_def store_step_ok [unfolded store_ok_def]
      split: result.splits)

lemma published_generation:
  "t \<in> set (published s rss) \<Longrightarrow> table_generation (store_current s) \<le> table_generation t"
proof (induction s rss rule: published.induct)
  case (2 s rs rss)
  show ?case
  proof (cases "fst (store_replace s rs)")
    case (Ok t')
    then have "table_generation (store_current s) \<le> table_generation t'"
      by (simp add: store_replace_Ok word_le_nat_alt)
    with Ok 2 show ?thesis
      by (auto simp: store_replace_result store_new_def store_snapshot_def)
  qed (use 2 in \<open>auto simp: store_replace_result\<close>)
qed (simp add: store_snapshot_def)

lemma published_distinct: "sorted_wrt (\<lambda>t u. table_generation t < table_generation u) (published s rss)"
proof (induction s rss rule: published.induct)
  case (2 s rs rss)
  show ?case
  proof (cases "fst (store_replace s rs)")
    case (Ok t')
    then have less: "table_generation (store_current s) < table_generation t'"
      by (simp add: store_replace_Ok word_less_nat_alt)
    have "table_generation t' \<le> table_generation u" if "u \<in> set (published (store_new t') rss)" for u
      using published_generation [OF that] by (simp add: store_new_def)
    with Ok 2 less show ?thesis
      by (auto simp: store_replace_result store_snapshot_def intro: less_le_trans)
  qed (use 2 in \<open>auto simp: store_replace_result\<close>)
qed simp

lemma published_same_generation:
  assumes "t \<in> set (published s rss)" and "u \<in> set (published s rss)"
    and "table_generation t = table_generation u"
  shows "t = u"
proof -
  obtain i j where i: "i < length (published s rss)" "t = published s rss ! i"
      and j: "j < length (published s rss)" "u = published s rss ! j"
    using assms by (auto simp: in_set_conv_nth)
  with published_distinct [of s rss] assms(3) show ?thesis
    by (metis linorder_neqE_nat less_irrefl sorted_wrt_nth_less)
qed

subsection \<open>Properties\<close>

text \<open>C18: \<open>RouteTable::new\<close> accepts a list of routes exactly when their identifiers are distinct and
  the weight of the enabled ones is positive and fits 64 bits; the table keeps the routes in their
  order, the generation, and that weight.\<close>

theorem route_table_new_accepts_iff:
  "route_table_new g rs = Ok t \<longleftrightarrow>
     distinct (map route_ident rs) \<and> 0 < live_weight rs \<and> live_weight rs < 2 ^ 64 \<and>
     t = \<lparr>table_generation = g, table_routes = rs, table_eligible_weight = word_of_nat (live_weight rs)\<rparr>"
  (is "_ \<longleftrightarrow> ?valid \<and> ?size \<and> ?fits \<and> t = ?t")
proof -
  have w: "live_weight rs = unat (table_eligible_weight t) \<longleftrightarrow>
      live_weight rs < 2 ^ 64 \<and> table_eligible_weight t = word_of_nat (live_weight rs)"
    using u64_less [of "table_eligible_weight t"] by (auto simp: unat_of_nat)
  have "route_table_new g rs = Ok t \<longleftrightarrow>
      distinct (map route_ident rs) \<and> live_weight rs = unat (table_eligible_weight t) \<and>
      table_eligible_weight t \<noteq> 0 \<and> table_generation t = g \<and> table_routes t = rs"
    by (auto simp: route_table_new_Ok table_ok_def)
  also have "\<dots> \<longleftrightarrow> ?valid \<and> ?size \<and> ?fits \<and> t = ?t"
    using w by (cases t) (auto simp: unat_gt_0 unat_of_nat intro: gr0I)
  finally show ?thesis .
qed

text \<open>validation reports the first offence in the order of the routes: an empty table before
  anything else; a duplicate identifier where the routes before it are distinct and do not overflow;
  overflow otherwise; and a missing positive weight only when nothing else is wrong.\<close>

theorem route_table_new_error:
  "route_table_new g rs = Err e \<longleftrightarrow>
     (if rs = [] then e = EmptyRouteTable
      else if \<exists>p r s. rs = p @ r # s \<and> route_ident r \<in> route_ident ` set p \<and>
                distinct (map route_ident p) \<and> live_weight p < 2 ^ 64
        then e = DuplicateRouteId
      else if 2 ^ 64 \<le> live_weight rs then e = WeightOverflow
      else live_weight rs = 0 \<and> e = NoWeightedEligibleRoute)"
proof (cases "rs = []")
  case False
  have accept: "(\<exists>v. validate_routes p {} 0 = Ok v) \<longleftrightarrow> distinct (map route_ident p) \<and> live_weight p < 2 ^ 64" for p
    using validate_routes_accepts by simp
  have dup: "validate_routes rs {} 0 = Err DuplicateRouteId \<longleftrightarrow>
      (\<exists>p r s. rs = p @ r # s \<and> route_ident r \<in> route_ident ` set p \<and>
        distinct (map route_ident p) \<and> live_weight p < 2 ^ 64)"
    unfolding validate_routes_Duplicate accept by simp
  show ?thesis
  proof (cases "validate_routes rs {} 0")
    case (Ok v)
    then have "validate_routes rs {} 0 \<noteq> Err DuplicateRouteId" by simp
    moreover have "unat v = live_weight rs" using Ok by (simp add: validate_routes_Ok)
    ultimately show ?thesis using Ok False u64_less [of v]
      unfolding dup [symmetric] by (auto simp: route_table_new_def unat_eq_zero)
  next
    case (Err e')
    then consider "e' = DuplicateRouteId" | "e' = WeightOverflow" using validate_routes_error by blast
    then show ?thesis
    proof cases
      case 2
      then have "2 ^ 64 \<le> live_weight rs"
        using Err validate_routes_overflow [of rs "{}" 0] by simp
      with Err 2 False show ?thesis
        unfolding dup [symmetric] by (auto simp: route_table_new_def)
    qed (use Err False dup in \<open>auto simp: route_table_new_def\<close>)
  qed
qed (auto simp: route_table_new_def)

text \<open>C12: weighted selection is exact: of the draws in the requested range, an enabled route is chosen
  by exactly as many as its weight, and a disabled or zero-weight one by none.\<close>

theorem table_selection_exact:
  assumes "route_table_new g rs = Ok t" and "r \<in> set rs"
  shows "card {d. d < table_eligible_weight t \<and> table_select_with t (\<lambda>n. d) = Return (Ok r)} =
    (if live r then unat (route_weight r) else 0)"
proof -
  have t: "table_ok t" "table_routes t = rs" using assms(1) by (simp_all add: route_table_new_Ok)
  have eq: "table_select_with t (\<lambda>n. d) = Return (Ok r) \<longleftrightarrow> table_chosen t d = Some r"
    if "d < table_eligible_weight t" for d
    using table_select_with_cases [OF t(1), of "\<lambda>n. d"] that by (auto simp: table_chosen_def)
  have S: "{d. d < table_eligible_weight t \<and> table_select_with t (\<lambda>n. d) = Return (Ok r)} =
      {d. d < table_eligible_weight t \<and> table_chosen t d = Some r}"
    using eq by blast
  show ?thesis
  proof (cases "live r")
    case True
    then show ?thesis unfolding S using assms(2) t
      by (subst table.card_chosen) (auto simp: table_distinct_routes)
  next
    case False
    then have "\<not> (d < table_eligible_weight t \<and> table_chosen t d = Some r)" for d
      using table.chosen_Some [OF t(1), of d] by force
    with False show ?thesis unfolding S by simp
  qed
qed

definition sample_routes :: "route list" where
  "sample_routes =
     [route_new (RouteId ''a'') 3, route_disabled (route_new (RouteId ''b'') 9), route_new (RouteId ''c'') 2]"

lemma sample_routes_live:
  "live_weight sample_routes = 5" "distinct (map route_ident sample_routes)"
  by (simp_all add: sample_routes_def route_new_def route_disabled_def live_def)

definition sample_table :: route_table where
  "sample_table = \<lparr>table_generation = 7, table_routes = sample_routes, table_eligible_weight = 5\<rparr>"

lemma sample_table_ok [simp]: "table_ok sample_table"
  by (simp add: table_ok_def sample_table_def sample_routes_live)

lemma sample_table_new: "route_table_new 7 sample_routes = Ok sample_table"
  by (simp add: route_table_new_Ok) (simp add: sample_table_def)

theorem table_selection_exact_witness:
  "card {d. d < table_eligible_weight sample_table \<and>
     table_select_with sample_table (\<lambda>n. d) = Return (Ok (route_new (RouteId ''c'') 2))} = 2"
  using table_selection_exact [OF sample_table_new, of "route_new (RouteId ''c'') 2"]
  by (simp add: sample_routes_def route_new_def live_def)

text \<open>selection over a validated table never reaches the \<open>unreachable!\<close>: an in-range draw gives
  an enabled route of positive weight, any other draw the draw error, and \<open>select\<close> with a source
  that stays in its range does not panic.\<close>

theorem table_selection_total:
  assumes "route_table_new g rs = Ok t"
  shows "if draw (table_eligible_weight t) < table_eligible_weight t
    then \<exists>r. table_select_with t draw = Return (Ok r) \<and> table_select draw t = Return r \<and>
           r \<in> set rs \<and> route_enabled r \<and> route_weight r > 0
    else table_select_with t draw = Return (Err DrawOutOfRange) \<and> table_select draw t = Panic"
proof -
  have "table_ok t" "table_routes t = rs" using assms by (simp_all add: route_table_new_Ok)
  with table_select_with_cases [of t draw] show ?thesis
    by (auto simp: table_select_def live_def)
qed

theorem table_selection_total_witness:
  "\<exists>r. table_select (\<lambda>n. n - 1) sample_table = Return r \<and> route_enabled r"
  using table_selection_total [OF sample_table_new, of "\<lambda>n. n - 1"]
  by (auto simp: sample_table_def)

text \<open>C22: a store driven by any sequence of \<open>replace\<close> calls is the abstract store: each call either
  publishes valid routes under the next generation or changes nothing, and what it holds is always
  a validated table.\<close>

theorem store_refines_spec:
  assumes "route_table_new g rs = Ok t"
  shows "store_abs (run store_step (store_new t) rss) = run spec_replace (unat g, rs) rss \<and>
    table_ok (store_snapshot (run store_step (store_new t) rss))"
proof (intro conjI)
  have t: "store_ok (store_new t)" "store_abs (store_new t) = (unat g, rs)"
    using assms by (simp_all add: store_ok_def store_abs_def store_new_def route_table_new_Ok)
  have all: "list_all (\<lambda>rs. True) rss" by (simp add: list_all_iff)
  show "store_abs (run store_step (store_new t) rss) = run spec_replace (unat g, rs) rss"
    using store.run_sim [OF t(1) all] t(2) by simp
  show "table_ok (store_snapshot (run store_step (store_new t) rss))"
    using store.run_inv [OF t(1) all] by (simp add: store_ok_def store_snapshot_def)
qed

theorem store_refines_spec_witness:
  "store_abs (run store_step (store_new sample_table) [[], [route_new (RouteId ''z'') 1]]) =
     (8, [route_new (RouteId ''z'') 1])"
  using store_refines_spec [OF sample_table_new, of "[[], [route_new (RouteId ''z'') 1]]"]
  by (simp add: routes_valid_def live_def route_new_def)

text \<open>the tables that one store ever publishes have strictly increasing generations, so a
  generation names at most one of them, and all of them are validated.\<close>

theorem store_generations_increase:
  assumes "route_table_new g rs = Ok t"
  shows "sorted_wrt (\<lambda>t u. table_generation t < table_generation u) (published (store_new t) rss) \<and>
    (\<forall>u \<in> set (published (store_new t) rss). table_ok u)"
proof (intro conjI)
  have "store_ok (store_new t)"
    using assms by (simp add: store_ok_def store_new_def route_table_new_Ok)
  then show "\<forall>u \<in> set (published (store_new t) rss). table_ok u" by (blast intro: published_ok)
qed (rule published_distinct)

theorem store_generations_increase_witness:
  "map table_generation (published (store_new sample_table) [[], [route_new (RouteId ''z'') 1]]) = [7, 8] \<and>
   sorted_wrt (\<lambda>t u. table_generation t < table_generation u)
     (published (store_new sample_table) [[], [route_new (RouteId ''z'') 1]])"
  using store_generations_increase [OF sample_table_new, of "[[], [route_new (RouteId ''z'') 1]]"]
  by (simp add: store_step_def store_replace_def store_new_def store_snapshot_def sample_table_def
      checked_add_def route_table_new_def route_new_def)

end
