(* ===== verification/Eligibility.thy ===== *)
theory Eligibility
  imports Routing
begin

section \<open>Route eligibility (src/src/eligibility.rs)\<close>

text \<open>
  The subset of a table's routes that a caller's predicate admits, and the weighted selection
  over it. The predicate is an \<open>FnMut\<close>: it takes and returns its own state. The exclusion that
  the crate's callers pass to \<open>select_weighted_with\<close> keeps no state, so it is a plain
  function, although the routine calls it in two passes. Overflow of the subset's total and a draw
  that no route takes are panics.
\<close>

record route_eligibility =
  elig_generation :: u64
  elig_ids :: "route_id set"

fun eligible_ids :: "('s \<Rightarrow> route \<Rightarrow> bool \<times> 's) \<Rightarrow> route list \<Rightarrow> 's \<Rightarrow> route_id set \<times> 's" where
  "eligible_ids pred [] s = ({}, s)"
| "eligible_ids pred (r # rs) s =
     (if route_enabled r \<and> route_weight r > 0 then
        (case pred s r of
          (keep, s1) \<Rightarrow>
            (case eligible_ids pred rs s1 of
              (ids, s2) \<Rightarrow> ((if keep then insert (route_ident r) ids else ids), s2)))
      else eligible_ids pred rs s)"

definition eligibility_from_predicate ::
    "('s \<Rightarrow> route \<Rightarrow> bool \<times> 's) \<Rightarrow> route_table \<Rightarrow> 's \<Rightarrow> route_eligibility \<times> 's" where
  "eligibility_from_predicate pred t s =
     (case eligible_ids pred (table_routes t) s of
       (ids, s') \<Rightarrow> (\<lparr>elig_generation = table_generation t, elig_ids = ids\<rparr>, s'))"

definition eligibility_all :: "route_table \<Rightarrow> route_eligibility" where
  "eligibility_all t = fst (eligibility_from_predicate (\<lambda>s r. (True, s)) t ())"

definition elig_contains :: "route_eligibility \<Rightarrow> route_id \<Rightarrow> bool" where
  "elig_contains e i \<longleftrightarrow> i \<in> elig_ids e"

definition elig_is_empty :: "route_eligibility \<Rightarrow> bool" where
  "elig_is_empty e \<longleftrightarrow> elig_ids e = {}"

datatype eligibility_error = EligGenerationMismatch | EligDrawOutOfRange

fun eligibility_error_display :: "eligibility_error \<Rightarrow> string" where
  "eligibility_error_display EligGenerationMismatch =
     ''route eligibility was derived from a different routing generation''"
| "eligibility_error_display EligDrawOutOfRange =
     ''eligible-route weighted draw was outside the requested range''"

text \<open>\<open>try_fold(0, checked_add)\<close> and the selection loop, over the filtered routes.\<close>

fun fold_weights :: "route list \<Rightarrow> u64 \<Rightarrow> u64 option" where
  "fold_weights [] acc = Some acc"
| "fold_weights (r # rs) acc =
     (case checked_add acc (route_weight r) of None \<Rightarrow> None | Some acc' \<Rightarrow> fold_weights rs acc')"

fun cursor_loop :: "route list \<Rightarrow> u64 \<Rightarrow> route outcome" where
  "cursor_loop [] cursor = Panic"
| "cursor_loop (r # rs) cursor =
     (if cursor < route_weight r then Return r else cursor_loop rs (cursor - route_weight r))"

definition selectable :: "route_table \<Rightarrow> route_eligibility \<Rightarrow> (route \<Rightarrow> bool) \<Rightarrow> route list" where
  "selectable t e excluded =
     filter (\<lambda>r. elig_contains e (route_ident r) \<and> \<not> excluded r) (table_routes t)"

definition select_weighted_with ::
    "route_table \<Rightarrow> route_eligibility \<Rightarrow> (route \<Rightarrow> bool) \<Rightarrow> (u64 \<Rightarrow> u64) \<Rightarrow>
     (route option, eligibility_error) result outcome" where
  "select_weighted_with t e excluded draw =
     (if table_generation t \<noteq> elig_generation e then Return (Err EligGenerationMismatch)
      else case fold_weights (selectable t e excluded) 0 of
        None \<Rightarrow> Panic
      | Some weight \<Rightarrow>
          if weight = 0 then Return (Ok None)
          else let selected = draw weight in
            if selected \<ge> weight then Return (Err EligDrawOutOfRange)
            else case cursor_loop (selectable t e excluded) selected of
              Return r \<Rightarrow> Return (Ok (Some r))
            | Panic \<Rightarrow> Panic)"

definition eligibility_select_with ::
    "route_eligibility \<Rightarrow> route_table \<Rightarrow> (u64 \<Rightarrow> u64) \<Rightarrow>
     (route option, eligibility_error) result outcome" where
  "eligibility_select_with e t draw = select_weighted_with t e (\<lambda>r. False) draw"

subsection \<open>What the predicate sees\<close>

lemma eligible_ids_subset: "fst (eligible_ids pred rs s) \<subseteq> route_ident ` set (filter live rs)"
proof (induction rs arbitrary: s)
  case (Cons r rs)
  have "fst (eligible_ids pred (r # rs) s) \<subseteq>
      (if live r then insert (route_ident r) (fst (eligible_ids pred rs (snd (pred s r))))
       else fst (eligible_ids pred rs s))"
    by (auto simp: live_def split_beta)
  also have "\<dots> \<subseteq> route_ident ` set (filter live (r # rs))"
    using Cons.IH by auto
  finally show ?case .
qed simp

lemma eligible_ids_pure:
  "eligible_ids (\<lambda>s r. (P r, s)) rs s = (route_ident ` set (filter (\<lambda>r. live r \<and> P r) rs), s)"
  by (induction rs) (auto simp: live_def)

text \<open>An observer in the predicate's state: it is asked once for each live route, in table order.\<close>

lemma eligible_ids_asked:
  "snd (eligible_ids (\<lambda>asked r. (P r, asked @ [r])) rs asked) = asked @ filter live rs"
proof (induction rs arbitrary: asked)
  case (Cons r rs)
  then show ?case using Cons.IH [of "asked @ [r]"] by (simp add: live_def split_beta)
qed simp

lemma from_predicate_fields:
  "elig_generation (fst (eligibility_from_predicate pred t s)) = table_generation t"
  "elig_ids (fst (eligibility_from_predicate pred t s)) = fst (eligible_ids pred (table_routes t) s)"
  by (simp_all add: eligibility_from_predicate_def split: prod.split)

lemma eligibility_all_fields [simp]:
  "elig_generation (eligibility_all t) = table_generation t"
  "elig_ids (eligibility_all t) = route_ident ` set (filter live (table_routes t))"
  unfolding eligibility_all_def from_predicate_fields eligible_ids_pure [of "\<lambda>r. True"]
  by simp_all

subsection \<open>Eligibility derived from a table\<close>

text \<open>\<open>e\<close> could have been derived from \<open>t\<close>.\<close>

definition derived_from :: "route_eligibility \<Rightarrow> route_table \<Rightarrow> bool" where
  "derived_from e t \<longleftrightarrow> elig_generation e = table_generation t \<and>
     elig_ids e \<subseteq> route_ident ` set (filter live (table_routes t))"

lemma derived_from_predicate: "derived_from (fst (eligibility_from_predicate pred t s)) t"
  using eligible_ids_subset by (simp add: derived_from_def from_predicate_fields)

lemma derived_from_all [simp]: "derived_from (eligibility_all t) t"
  by (simp add: derived_from_def)

lemma derived_live:
  assumes "table_ok t" and "derived_from e t" and "r \<in> set (selectable t e ex)"
  shows "live r" and "r \<in> set (table_routes t)"
proof -
  from assms(3) show r: "r \<in> set (table_routes t)" by (simp add: selectable_def)
  from assms(2,3) have "route_ident r \<in> route_ident ` set (filter live (table_routes t))"
    by (auto simp: derived_from_def selectable_def elig_contains_def)
  then obtain r' where "r' \<in> set (table_routes t)" "live r'" "route_ident r' = route_ident r"
    by auto
  moreover from this(1,3) r have "r' = r"
    using assms(1) by (auto simp: table_ok_def distinct_map inj_on_def)
  ultimately show "live r" by simp
qed

lemma derived_selectable:
  assumes "table_ok t" and "derived_from e t"
  shows "selectable t e ex =
    filter (\<lambda>r. elig_contains e (route_ident r) \<and> \<not> ex r) (filter live (table_routes t))"
  using derived_live(1) [OF assms, of _ ex] by (auto simp: selectable_def intro: filter_cong)

lemma selectable_weight_le:
  assumes "table_ok t" and "derived_from e t"
  shows "sum_list (map (unat \<circ> route_weight) (selectable t e ex)) < 2 ^ 64"
  using sum_list_filter_le [of "unat \<circ> route_weight" _ "filter live (table_routes t)"]
    live_weight_less_if_ok [OF assms(1)]
  unfolding derived_selectable [OF assms] live_weight_def by (rule le_less_trans)

subsection \<open>Selection is a weighted choice\<close>

lemma fold_weights_Some:
  "fold_weights rs acc = Some w \<longleftrightarrow>
     unat w = unat acc + sum_list (map (unat \<circ> route_weight) rs)"
proof (induction rs acc rule: fold_weights.induct)
  case (2 r rs acc)
  show ?case
  proof (cases "checked_add acc (route_weight r)")
    case None
    then have "2 ^ 64 \<le> unat acc + unat (route_weight r)" by (simp add: wsat)
    then show ?thesis using None u64_less [of w] by simp
  next
    case (Some acc')
    then have "unat acc' = unat acc + unat (route_weight r)" by (simp add: wsat)
    with Some 2 [OF Some] show ?thesis by (simp add: add.assoc)
  qed
qed (auto simp: word_unat_eq_iff)

lemma fold_weights_None:
  "fold_weights rs acc = None \<longleftrightarrow> 2 ^ 64 \<le> unat acc + sum_list (map (unat \<circ> route_weight) rs)"
proof (cases "fold_weights rs acc")
  case None
  have "\<not> unat acc + sum_list (map (unat \<circ> route_weight) rs) < 2 ^ 64"
  proof
    let ?n = "unat acc + sum_list (map (unat \<circ> route_weight) rs)"
    assume "?n < 2 ^ 64"
    then have "unat (word_of_nat ?n :: u64) = ?n" by (simp only: unat_of_nat) simp
    then have "fold_weights rs acc = Some (word_of_nat ?n)" by (rule fold_weights_Some [THEN iffD2])
    with None show False by simp
  qed
  with None show ?thesis by simp
next
  case (Some w)
  then have "unat acc + sum_list (map (unat \<circ> route_weight) rs) < 2 ^ 64"
    using u64_less [of w] by (simp add: fold_weights_Some)
  with Some show ?thesis by simp
qed

lemma cursor_loop_pick:
  "unat cursor < sum_list (map (unat \<circ> route_weight) rs) \<Longrightarrow>
     cursor_loop rs cursor = Return r \<longleftrightarrow> pick (unat \<circ> route_weight) rs (unat cursor) = Some r"
proof (induction rs cursor rule: cursor_loop.induct)
  case (2 r' rs cursor)
  show ?case
  proof (cases "cursor < route_weight r'")
    case False
    then have "unat (cursor - route_weight r') = unat cursor - unat (route_weight r')"
      by (simp add: not_less word_le_nat_alt unat_sub)
    with False 2 show ?thesis by (simp add: word_less_nat_alt)
  qed (simp add: word_less_nat_alt)
qed simp

type_synonym elig_choice = "route_table \<times> route_eligibility \<times> (route \<Rightarrow> bool)"

definition elig_valid :: "elig_choice \<Rightarrow> bool" where
  "elig_valid c = (case c of (t, e, ex) \<Rightarrow> table_ok t \<and> derived_from e t)"

definition elig_candidates :: "elig_choice \<Rightarrow> route list" where
  "elig_candidates c = (case c of (t, e, ex) \<Rightarrow> selectable t e ex)"

definition elig_total :: "elig_choice \<Rightarrow> u64" where
  "elig_total c = (case fold_weights (elig_candidates c) 0 of Some w \<Rightarrow> w | None \<Rightarrow> 0)"

definition elig_chosen :: "elig_choice \<Rightarrow> u64 \<Rightarrow> route option" where
  "elig_chosen c d =
     (case c of (t, e, ex) \<Rightarrow>
       (case select_weighted_with t e ex (\<lambda>n. d) of Return (Ok r) \<Rightarrow> r | _ \<Rightarrow> None))"

lemma elig_total:
  assumes "elig_valid c"
  shows "fold_weights (elig_candidates c) 0 = Some (elig_total c)"
    and "unat (elig_total c) = sum_list (map (unat \<circ> route_weight) (elig_candidates c))"
proof -
  have "\<not> 2 ^ 64 \<le> sum_list (map (unat \<circ> route_weight) (elig_candidates c))"
    using assms selectable_weight_le unfolding elig_valid_def elig_candidates_def
    by (simp add: split_beta not_le)
  then show "fold_weights (elig_candidates c) 0 = Some (elig_total c)"
    using fold_weights_None [of "elig_candidates c" 0]
    by (cases "fold_weights (elig_candidates c) 0") (simp_all add: elig_total_def)
  then show "unat (elig_total c) = sum_list (map (unat \<circ> route_weight) (elig_candidates c))"
    by (simp add: fold_weights_Some)
qed

lemma elig_chosen_pick:
  assumes "elig_valid c" and "d < elig_total c"
  shows "elig_chosen c d = pick (unat \<circ> route_weight) (elig_candidates c) (unat d)"
proof -
  obtain t e ex where c: "c = (t, e, ex)" by (cases c)
  have u: "unat d < sum_list (map (unat \<circ> route_weight) (elig_candidates c))"
    using assms(2) elig_total(2) [OF assms(1)] by (simp add: word_less_nat_alt)
  then obtain r where r: "pick (unat \<circ> route_weight) (elig_candidates c) (unat d) = Some r"
    using pick_in_range by blast
  then have "cursor_loop (elig_candidates c) d = Return r" using u by (simp add: cursor_loop_pick)
  moreover have "elig_total c \<noteq> 0" using assms(2) by auto
  moreover have "elig_generation e = table_generation t"
    using assms(1) by (simp add: c elig_valid_def derived_from_def)
  ultimately show ?thesis using r assms(2) elig_total(1) [OF assms(1)]
    by (simp add: c elig_chosen_def elig_candidates_def select_weighted_with_def not_le)
qed

interpretation eligible: weighted_choice elig_valid elig_candidates "unat \<circ> route_weight"
    elig_total elig_chosen
  by unfold_locales (simp_all add: elig_total(2) elig_chosen_pick)

lemma select_weighted_with_cases:
  assumes "table_ok t" and "derived_from e t"
  shows "select_weighted_with t e ex draw =
    (let weight = elig_total (t, e, ex) in
      if weight = 0 then Return (Ok None)
      else if draw weight < weight then Return (Ok (elig_chosen (t, e, ex) (draw weight)))
      else Return (Err EligDrawOutOfRange))"
proof -
  have v: "elig_valid (t, e, ex)" using assms by (simp add: elig_valid_def)
  have g: "table_generation t = elig_generation e" using assms(2) by (simp add: derived_from_def)
  have f: "fold_weights (selectable t e ex) 0 = Some (elig_total (t, e, ex))"
    using elig_total(1) [OF v] by (simp add: elig_candidates_def)
  let ?w = "elig_total (t, e, ex)"
  show ?thesis
  proof (cases "?w \<noteq> 0 \<and> draw ?w < ?w")
    case True
    then obtain r where r: "elig_chosen (t, e, ex) (draw ?w) = Some r"
      using eligible.chosen_Some [OF v, of "draw ?w"] by blast
    have "cursor_loop (selectable t e ex) (draw ?w) = Return r"
      using r True g f
      by (auto simp: elig_chosen_def select_weighted_with_def Let_def 
          split: outcome.splits result.splits if_splits)
    then show ?thesis using True r g f by (simp add: select_weighted_with_def Let_def not_le)
  next
    case False
    then show ?thesis using g f by (auto simp: select_weighted_with_def Let_def)
  qed
qed

lemma elig_chosen_selectable:
  assumes "table_ok t" and "derived_from e t" and "d < elig_total (t, e, ex)"
  obtains r where "elig_chosen (t, e, ex) d = Some r" "r \<in> set (table_routes t)" "live r"
    "elig_contains e (route_ident r)" "\<not> ex r"
proof -
  have "elig_valid (t, e, ex)" using assms by (simp add: elig_valid_def)
  then obtain r where r: "elig_chosen (t, e, ex) d = Some r" "r \<in> set (selectable t e ex)"
    using eligible.chosen_Some [OF _ assms(3)] by (auto simp: elig_candidates_def)
  have "elig_contains e (route_ident r)" "\<not> ex r" using r(2) by (auto simp: selectable_def)
  with that [OF r(1) derived_live(2,1) [OF assms(1,2) r(2)]] show ?thesis by blast
qed

lemma select_weighted_with_foreign:
  "elig_generation e \<noteq> table_generation t \<Longrightarrow>
     select_weighted_with t e ex draw = Return (Err EligGenerationMismatch)"
  by (simp add: select_weighted_with_def)

text \<open>
  The exclusion of nothing from the whole table selects as the table itself does.
\<close>

lemma selectable_all: "table_ok t \<Longrightarrow> selectable t (eligibility_all t) (\<lambda>r. False) = filter live (table_routes t)"
  by (subst derived_selectable) (auto simp: elig_contains_def intro!: filter_cong)

lemma elig_total_all: "table_ok t \<Longrightarrow> elig_total (t, eligibility_all t, \<lambda>r. False) = table_eligible_weight t"
  using elig_total(2) [of "(t, eligibility_all t, \<lambda>r. False)"]
  by (simp add: elig_valid_def elig_candidates_def selectable_all word_unat_eq_iff)
    (simp add: table_ok_def live_weight_def)

lemma elig_chosen_all:
  "table_ok t \<Longrightarrow> d < table_eligible_weight t \<Longrightarrow>
     elig_chosen (t, eligibility_all t, \<lambda>r. False) d = table_chosen t d"
  by (simp add: elig_chosen_pick table_chosen_pick elig_total_all elig_valid_def elig_candidates_def
      selectable_all)

subsection \<open>Properties\<close>

text \<open>deriving eligibility asks the caller's predicate exactly once for each enabled route of
  positive weight, in table order, and admits exactly the ones it accepted.\<close>

theorem predicate_asked_once:
  "eligibility_from_predicate (\<lambda>asked r. (P r, asked @ [r])) t [] =
     (\<lparr>elig_generation = table_generation t,
       elig_ids = route_ident ` {r \<in> set (table_routes t). live r \<and> P r}\<rparr>,
      filter live (table_routes t))"
proof -
  have ids: "fst (eligible_ids (\<lambda>asked r. (P r, asked @ [r])) rs asked) =
      route_ident ` {r \<in> set rs. live r \<and> P r}" for rs asked
  proof (induction rs arbitrary: asked)
    case (Cons r rs)
    then show ?case by (auto simp: live_def split_beta)
  qed simp
  show ?thesis
    using ids eligible_ids_asked [of P "table_routes t" "[]"]
    by (simp add: eligibility_from_predicate_def split_beta)
qed

text \<open>C33: selection among eligible routes is exact: of the draws below the eligible weight, a route
  of the table is chosen by as many as its weight if it is eligible and not excluded, else by none.\<close>

theorem eligible_selection_exact:
  assumes "table_ok t" and "derived_from e t" and "r \<in> set (table_routes t)"
  shows "card {d. d < elig_total (t, e, ex) \<and> select_weighted_with t e ex (\<lambda>n. d) = Return (Ok (Some r))} =
    (if elig_contains e (route_ident r) \<and> \<not> ex r then unat (route_weight r) else 0)"
proof -
  let ?c = "(t, e, ex)"
  have v: "elig_valid ?c" using assms by (simp add: elig_valid_def)
  have "select_weighted_with t e ex (\<lambda>n. d) = Return (Ok (Some r)) \<longleftrightarrow> elig_chosen ?c d = Some r"
    if "d < elig_total ?c" for d
    using that by (auto simp: select_weighted_with_cases [OF assms(1,2)] Let_def)
  then have S: "{d. d < elig_total ?c \<and> select_weighted_with t e ex (\<lambda>n. d) = Return (Ok (Some r))} =
      {d. d < elig_total ?c \<and> elig_chosen ?c d = Some r}"
    by blast
  have dist: "distinct (elig_candidates ?c)"
    using table_distinct_routes [OF assms(1)] by (simp add: elig_candidates_def selectable_def)
  show ?thesis
  proof (cases "r \<in> set (elig_candidates ?c)")
    case True
    then show ?thesis unfolding S using eligible.card_chosen [OF v dist True]
      by (simp add: elig_candidates_def selectable_def)
  next
    case False
    then have "\<not> (d < elig_total ?c \<and> elig_chosen ?c d = Some r)" for d
      using eligible.chosen_Some [OF v, of d] by force
    with False show ?thesis unfolding S using assms(3)
      by (auto simp: elig_candidates_def selectable_def)
  qed
qed

lemma sample_eligible_ids: "elig_ids (eligibility_all sample_table) = {RouteId ''a'', RouteId ''c''}"
  by (auto simp: sample_table_def sample_routes_def route_new_def route_disabled_def live_def)

theorem eligible_selection_exact_witness:
  "card {d. d < elig_total (sample_table, eligibility_all sample_table, \<lambda>r. False) \<and>
     select_weighted_with sample_table (eligibility_all sample_table) (\<lambda>r. False) (\<lambda>n. d) =
       Return (Ok (Some (route_new (RouteId ''a'') 3)))} = 3"
proof -
  have "route_new (RouteId ''a'') 3 \<in> set (table_routes sample_table)"
    by (simp add: sample_table_def sample_routes_def)
  note exact = eligible_selection_exact [OF sample_table_ok derived_from_all this, of "\<lambda>r. False"]
  have "elig_contains (eligibility_all sample_table) (RouteId ''a'')"
    by (simp only: elig_contains_def sample_eligible_ids) simp
  then have "elig_contains (eligibility_all sample_table) (route_ident (route_new (RouteId ''a'') 3))"
    "unat (route_weight (route_new (RouteId ''a'') 3)) = 3"
    by (simp_all only: route_new_def route.simps) simp
  with exact show ?thesis by simp
qed

text \<open>C32: eligibility derived from one table of a store and used with another table of the same store
  is safe: the selection never panics, it reports a generation mismatch unless both are the same
  table, and it selects only enabled routes that the decision admits.\<close>

theorem eligibility_safe_within_store:
  assumes "route_table_new g rs = Ok t0"
    and "t \<in> set (published (store_new t0) rss)" and "u \<in> set (published (store_new t0) rss)"
    and "e = fst (eligibility_from_predicate pred t s)"
  shows "eligibility_select_with e u draw \<noteq> Panic \<and>
    (t \<noteq> u \<longrightarrow> eligibility_select_with e u draw = Return (Err EligGenerationMismatch)) \<and>
    (eligibility_select_with e u draw = Return (Ok (Some r)) \<longrightarrow>
      r \<in> set (table_routes u) \<and> live r \<and> elig_contains e (route_ident r))"
proof (intro conjI)
  have ok: "store_ok (store_new t0)"
    using assms(1) by (simp add: store_ok_def store_new_def route_table_new_Ok)
  have g: "elig_generation e = table_generation t"
    by (simp add: assms(4) from_predicate_fields)
  have differ: "eligibility_select_with e u draw = Return (Err EligGenerationMismatch)" if "t \<noteq> u"
    using published_same_generation [OF assms(2,3)] that
    by (auto simp: eligibility_select_with_def select_weighted_with_def g)
  then show "t \<noteq> u \<longrightarrow> eligibility_select_with e u draw = Return (Err EligGenerationMismatch)" by blast
  have d: "derived_from e t" unfolding assms(4) by (rule derived_from_predicate)
  have t: "table_ok t" using published_ok [OF ok assms(2)] .
  note cases = select_weighted_with_cases [OF t d, of "\<lambda>r. False" draw]
  show "eligibility_select_with e u draw \<noteq> Panic"
    using differ cases by (cases "t = u") (auto simp: eligibility_select_with_def Let_def)
  show "eligibility_select_with e u draw = Return (Ok (Some r)) \<longrightarrow>
      r \<in> set (table_routes u) \<and> live r \<and> elig_contains e (route_ident r)"
  proof (cases "t = u")
    case True
    then show ?thesis using cases elig_chosen_selectable [OF t d]
      by (auto simp: eligibility_select_with_def Let_def split: if_splits) (metis option.inject)+
  next
    case False
    then show ?thesis by (simp add: differ)
  qed
qed

theorem eligibility_safe_within_store_witness:
  "eligibility_select_with (eligibility_all sample_table) (sample_table\<lparr>table_generation := 8\<rparr>) (\<lambda>n. n - 1) =
     Return (Err EligGenerationMismatch)"
proof -
  let ?u = "sample_table\<lparr>table_generation := 8\<rparr>"
  have "table_ok ?u" using sample_table_ok by (simp add: table_ok_def del: sample_table_ok)
  then have "fst (store_replace (store_new sample_table) sample_routes) = Ok ?u"
    by (simp add: store_replace_Ok sample_table_def store_new_def)
  then obtain st where "store_replace (store_new sample_table) sample_routes = (Ok ?u, st)" by (metis prod.collapse)
  moreover from this have "store_current st = ?u" by (auto simp: store_replace_def split: option.splits result.splits)
  ultimately have pub: "set (published (store_new sample_table) [sample_routes]) = {sample_table, ?u}"
    by (simp add: store_step_def store_snapshot_def store_new_def)
  show ?thesis
    by (rule eligibility_safe_within_store [OF sample_table_new, where rss = "[sample_routes]" and t = sample_table,
          THEN conjunct2, THEN conjunct1, THEN mp])
      (simp_all add: pub eligibility_all_def del: published.simps, simp add: sample_table_def)
qed

definition twin_table :: route_table where
  "twin_table =
     \<lparr>table_generation = 7,
      table_routes = [route_new (RouteId ''a'') 1, route_disabled (route_new (RouteId ''c'') (- 1))],
      table_eligible_weight = 1\<rparr>"

definition mild_twin_table :: route_table where
  "mild_twin_table =
     \<lparr>table_generation = 7,
      table_routes = [route_new (RouteId ''a'') 1, route_disabled (route_new (RouteId ''c'') 4)],
      table_eligible_weight = 1\<rparr>"

text \<open>C37: outside one store the generation does not identify the table. Two validated tables may have the
  same generation, and eligibility of the one passes the check against the other: the selection can
  then return a disabled route, or panic because the weights it adds up overflow.\<close>

theorem foreign_eligibility_accepted:
  "table_ok sample_table \<and> table_ok twin_table \<and> table_ok mild_twin_table \<and>
   eligibility_select_with (eligibility_all sample_table) twin_table draw = Panic \<and>
   eligibility_select_with (eligibility_all sample_table) mild_twin_table (\<lambda>n. 2) =
     Return (Ok (Some (route_disabled (route_new (RouteId ''c'') 4))))"
proof (intro conjI)
  let ?e = "eligibility_all sample_table"
  have g: "elig_generation ?e = 7" by (simp add: sample_table_def)
  show "table_ok sample_table" by simp
  show "table_ok twin_table" "table_ok mild_twin_table"
    by (simp_all add: table_ok_def twin_table_def mild_twin_table_def route_new_def route_disabled_def live_def)
  have "selectable twin_table ?e (\<lambda>r. False) = table_routes twin_table"
    "selectable mild_twin_table ?e (\<lambda>r. False) = table_routes mild_twin_table"
    using sample_eligible_ids
    by (simp_all add: selectable_def elig_contains_def twin_table_def mild_twin_table_def route_new_def
        route_disabled_def del: eligibility_all_fields)
  then show "eligibility_select_with ?e twin_table draw = Panic"
    "eligibility_select_with ?e mild_twin_table (\<lambda>n. 2) =
      Return (Ok (Some (route_disabled (route_new (RouteId ''c'') 4))))"
    using g by (simp_all add: eligibility_select_with_def select_weighted_with_def twin_table_def
        mild_twin_table_def route_new_def route_disabled_def checked_add_def del: eligibility_all_fields)
qed

end
