(* ===== verification/Failover.thy ===== *)
theory Failover
  imports Eligibility
begin

section \<open>Route failover (src/src/failover.rs)\<close>

text \<open>
  The failover policy of one logical request: an immutable table and eligibility decision, the
  set of routes attempted and the current attempt. \<open>classify_with\<close> is the whole handler of a
  route's outcome. The invariant says that the attempts so far are distinct eligible routes, as
  many as the current ordinal plus one and no more than the budget; the contract of a token pool
  bounds the failovers of any sequence of outcomes.
\<close>

record route_attempt_budget =
  max_routes :: nz_usize

definition attempt_budget_new :: "nz_usize \<Rightarrow> route_attempt_budget" where
  "attempt_budget_new n = \<lparr>max_routes = n\<rparr>"

definition budget_max_routes :: "route_attempt_budget \<Rightarrow> usize" where
  "budget_max_routes b = nz_get (max_routes b)"

datatype route_outcome = Succeeded | RetrySameRoute | FailoverOutcome | StopOutcome

datatype route_stop_reason = CallerTerminal | RouteAttemptBudgetExhausted | NoRemainingEligibleRoute

record route_attempt =
  attempt_generation :: u64
  ordinal :: usize
  attempt_route :: route_id

datatype route_decision = Complete | RetryCurrent | FailoverTo route_attempt | StopFor route_stop_reason

datatype route_failover_error = RouteFailoverError

fun route_failover_error_display :: "route_failover_error \<Rightarrow> string" where
  "route_failover_error_display RouteFailoverError =
     ''route-failover selection was inconsistent with its routing snapshot''"

record route_failover =
  snapshot :: route_table
  eligibility :: route_eligibility
  route_budget :: route_attempt_budget
  attempted :: "route_id set"
  current_attempt :: route_attempt

definition select_remaining ::
    "route_table \<Rightarrow> route_eligibility \<Rightarrow> route_id set \<Rightarrow> (u64 \<Rightarrow> u64) \<Rightarrow>
     (route option, route_failover_error) result outcome" where
  "select_remaining t e seen draw =
     (case select_weighted_with t e (\<lambda>r. route_ident r \<in> seen) draw of
       Return r \<Rightarrow> Return (map_err (\<lambda>_. RouteFailoverError) r)
     | Panic \<Rightarrow> Panic)"

definition from_primary ::
    "route_table \<Rightarrow> route_eligibility \<Rightarrow> route_attempt_budget \<Rightarrow> route_id \<Rightarrow> route_failover" where
  "from_primary t e b primary =
     \<lparr>snapshot = t, eligibility = e, route_budget = b, attempted = {primary},
      current_attempt = \<lparr>attempt_generation = table_generation t, ordinal = 0, attempt_route = primary\<rparr>\<rparr>"

definition failover_new :: "(u64 \<Rightarrow> u64) \<Rightarrow> route_table \<Rightarrow> route_attempt_budget \<Rightarrow> route_failover outcome" where
  "failover_new fastrand t b =
     (let e = eligibility_all t
      in bind_outcome (table_select fastrand t) (\<lambda>r. Return (from_primary t e b (route_ident r))))"

definition failover_new_with ::
    "route_table \<Rightarrow> route_attempt_budget \<Rightarrow> (u64 \<Rightarrow> u64) \<Rightarrow>
     (route_failover, route_failover_error) result outcome" where
  "failover_new_with t b draw =
     (let e = eligibility_all t
      in case select_remaining t e {} draw of
           Panic \<Rightarrow> Panic
         | Return (Err x) \<Rightarrow> Return (Err x)
         | Return (Ok None) \<Rightarrow> Panic
         | Return (Ok (Some r)) \<Rightarrow> Return (Ok (from_primary t e b (route_ident r))))"

definition from_primary_eligibility ::
    "route_table \<Rightarrow> route_eligibility \<Rightarrow> route_attempt_budget \<Rightarrow> route_id \<Rightarrow>
     (route_failover, route_failover_error) result" where
  "from_primary_eligibility t e b primary =
     (if elig_generation e \<noteq> table_generation t \<or> \<not> elig_contains e primary then Err RouteFailoverError
      else Ok (from_primary t e b primary))"

text \<open>\<open>attempted.len()\<close>; a set in memory has fewer than \<open>2 ^ 64\<close> elements.\<close>

definition attempted_routes :: "route_failover \<Rightarrow> nat" where
  "attempted_routes f = card (attempted f)"

definition classify_with ::
    "route_outcome \<Rightarrow> (u64 \<Rightarrow> u64) \<Rightarrow> route_failover \<Rightarrow>
     (route_decision, route_failover_error) result outcome \<times> route_failover" where
  "classify_with oc draw f =
     (case oc of
       Succeeded \<Rightarrow> (Return (Ok Complete), f)
     | RetrySameRoute \<Rightarrow> (Return (Ok RetryCurrent), f)
     | StopOutcome \<Rightarrow> (Return (Ok (StopFor CallerTerminal)), f)
     | FailoverOutcome \<Rightarrow>
         if attempted_routes f \<ge> unat (budget_max_routes (route_budget f)) then
           (Return (Ok (StopFor RouteAttemptBudgetExhausted)), f)
         else case select_remaining (snapshot f) (eligibility f) (attempted f) draw of
           Panic \<Rightarrow> (Panic, f)
         | Return (Err x) \<Rightarrow> (Return (Err x), f)
         | Return (Ok None) \<Rightarrow> (Return (Ok (StopFor NoRemainingEligibleRoute)), f)
         | Return (Ok (Some r)) \<Rightarrow>
             let nxt = \<lparr>attempt_generation = table_generation (snapshot f),
                        ordinal = word_of_nat (attempted_routes f), attempt_route = route_ident r\<rparr>
             in (Return (Ok (FailoverTo nxt)),
                 f\<lparr>attempted := insert (attempt_route nxt) (attempted f), current_attempt := nxt\<rparr>))"

definition classify ::
    "(u64 \<Rightarrow> u64) \<Rightarrow> route_outcome \<Rightarrow> route_failover \<Rightarrow> route_decision outcome \<times> route_failover" where
  "classify fastrand oc f =
     (case classify_with oc fastrand f of (r, f') \<Rightarrow> (bind_outcome r expect, f'))"

subsection \<open>The invariant\<close>

definition failover_inv :: "route_failover \<Rightarrow> bool" where
  "failover_inv f \<longleftrightarrow>
     table_ok (snapshot f) \<and> derived_from (eligibility f) (snapshot f) \<and>
     finite (attempted f) \<and> attempted f \<subseteq> elig_ids (eligibility f) \<and>
     card (attempted f) \<le> unat (budget_max_routes (route_budget f)) \<and>
     attempt_route (current_attempt f) \<in> attempted f \<and>
     attempt_generation (current_attempt f) = table_generation (snapshot f) \<and>
     card (attempted f) = Suc (unat (ordinal (current_attempt f)))"

lemma failover_inv_from_primary:
  assumes "table_ok t" and "derived_from e t" and "elig_contains e i"
  shows "failover_inv (from_primary t e b i)"
  using assms by (simp add: failover_inv_def from_primary_def elig_contains_def budget_max_routes_def)

lemma select_remaining_cases:
  assumes "table_ok t" and "derived_from e t"
  shows "select_remaining t e seen draw =
    (let w = elig_total (t, e, \<lambda>r. route_ident r \<in> seen) in
      if w = 0 then Return (Ok None)
      else if draw w < w then Return (Ok (elig_chosen (t, e, \<lambda>r. route_ident r \<in> seen) (draw w)))
      else Return (Err RouteFailoverError))"
  by (simp add: select_remaining_def select_weighted_with_cases [OF assms] Let_def)

lemma select_remaining_Some:
  assumes "table_ok t" and "derived_from e t"
    and "select_remaining t e seen draw = Return (Ok (Some r))"
  shows "r \<in> set (table_routes t)" and "live r" and "elig_contains e (route_ident r)"
    and "route_ident r \<notin> seen"
proof -
  let ?ex = "\<lambda>r. route_ident r \<in> seen" and ?w = "elig_total (t, e, \<lambda>r. route_ident r \<in> seen)"
  from assms(3) have "draw ?w < ?w" "elig_chosen (t, e, ?ex) (draw ?w) = Some r"
    by (auto simp: select_remaining_cases [OF assms(1,2)] Let_def split: if_splits)
  then show "r \<in> set (table_routes t)" "live r" "elig_contains e (route_ident r)" "route_ident r \<notin> seen"
    using elig_chosen_selectable [OF assms(1,2), of "draw ?w" ?ex] by (metis option.inject)+
qed

lemma select_remaining_no_panic:
  "table_ok t \<Longrightarrow> derived_from e t \<Longrightarrow> select_remaining t e seen draw \<noteq> Panic"
  by (simp add: select_remaining_cases Let_def)

text \<open>A total of zero leaves no eligible route: eligible routes have positive weight.\<close>

lemma elig_total_zero_iff:
  assumes "table_ok t" and "derived_from e t"
  shows "elig_total (t, e, ex) = 0 \<longleftrightarrow>
    (\<forall>r \<in> set (table_routes t). elig_contains e (route_ident r) \<longrightarrow> ex r)"
proof -
  have v: "elig_valid (t, e, ex)" using assms by (simp add: elig_valid_def)
  have "elig_total (t, e, ex) = 0 \<longleftrightarrow> (\<forall>r \<in> set (selectable t e ex). route_weight r = 0)"
    using elig_total(2) [OF v] by (simp add: elig_candidates_def unat_eq_zero [symmetric] del: unat_eq_zero)
  also have "\<dots> \<longleftrightarrow> selectable t e ex = []"
  proof -
    have "route_weight r \<noteq> 0" if "r \<in> set (selectable t e ex)" for r
      using derived_live(1) [OF assms that] by (auto simp: live_def)
    then show ?thesis by (metis empty_iff empty_set hd_in_set)
  qed
  also have "\<dots> \<longleftrightarrow> (\<forall>r \<in> set (table_routes t). elig_contains e (route_ident r) \<longrightarrow> ex r)"
    by (auto simp: selectable_def filter_empty_conv)
  finally show ?thesis .
qed

text \<open>The routes that are still to be tried.\<close>

definition untried :: "route_failover \<Rightarrow> route list" where
  "untried f = filter (\<lambda>r. elig_contains (eligibility f) (route_ident r) \<and> route_ident r \<notin> attempted f)
     (table_routes (snapshot f))"

lemma untried_empty_iff:
  assumes "failover_inv f"
  shows "elig_total (snapshot f, eligibility f, \<lambda>r. route_ident r \<in> attempted f) = 0 \<longleftrightarrow> untried f = []"
  using assms by (subst elig_total_zero_iff) (auto simp: failover_inv_def untried_def filter_empty_conv)

fun failover_step :: "route_failover \<Rightarrow> route_outcome \<times> (u64 \<Rightarrow> u64) \<Rightarrow> route_failover" where
  "failover_step f (oc, draw) = snd (classify_with oc draw f)"

fun fails_over :: "route_failover \<Rightarrow> route_outcome \<times> (u64 \<Rightarrow> u64) \<Rightarrow> bool" where
  "fails_over f (oc, draw) = (case fst (classify_with oc draw f) of Return (Ok (FailoverTo a)) \<Rightarrow> True | _ \<Rightarrow> False)"

lemma classify_with_FailoverTo:
  assumes "failover_inv f" and "classify_with oc draw f = (Return (Ok (FailoverTo a)), f')"
  obtains r where "r \<in> set (untried f)" "live r"
    "a = \<lparr>attempt_generation = table_generation (snapshot f),
          ordinal = word_of_nat (card (attempted f)), attempt_route = route_ident r\<rparr>"
    "f' = f\<lparr>attempted := insert (route_ident r) (attempted f), current_attempt := a\<rparr>"
    "card (attempted f) < unat (budget_max_routes (route_budget f))"
proof -
  have ok: "table_ok (snapshot f)" "derived_from (eligibility f) (snapshot f)"
    using assms(1) by (simp_all add: failover_inv_def)
  from assms(2) obtain r where
    r: "select_remaining (snapshot f) (eligibility f) (attempted f) draw = Return (Ok (Some r))"
    and rest: "a = \<lparr>attempt_generation = table_generation (snapshot f),
          ordinal = word_of_nat (card (attempted f)), attempt_route = route_ident r\<rparr>"
      "f' = f\<lparr>attempted := insert (route_ident r) (attempted f), current_attempt := a\<rparr>"
      "card (attempted f) < unat (budget_max_routes (route_budget f))"
    by (auto simp: classify_with_def attempted_routes_def Let_def not_le
        split: route_outcome.splits if_splits outcome.splits result.splits option.splits)
  from select_remaining_Some [OF ok r] that rest show ?thesis by (simp add: untried_def)
qed

lemma classify_with_unchanged:
  assumes "\<not> fails_over f (oc, draw)"
  shows "snd (classify_with oc draw f) = f"
  using assms
  by (auto simp: classify_with_def Let_def
      split: route_outcome.splits outcome.splits result.splits option.splits)

lemma fails_over_classify:
  assumes "fails_over f (oc, draw)"
  obtains a where "classify_with oc draw f = (Return (Ok (FailoverTo a)), failover_step f (oc, draw))"
proof -
  obtain v f' where c: "classify_with oc draw f = (v, f')" by fastforce
  with assms obtain a where "v = Return (Ok (FailoverTo a))"
    by (auto split: outcome.splits result.splits route_decision.splits)
  with c that show ?thesis by simp
qed

lemma failover_card:
  assumes "failover_inv f" and "r \<in> set (untried f)"
  shows "card (insert (route_ident r) (attempted f)) = Suc (card (attempted f))"
  using assms by (simp add: failover_inv_def untried_def)

lemma failover_step_inv:
  assumes "failover_inv f"
  shows "failover_inv (failover_step f x)"
proof -
  obtain oc draw where x: "x = (oc, draw)" by (cases x)
  show ?thesis
  proof (cases "fails_over f x")
    case True
    then obtain a where "classify_with oc draw f = (Return (Ok (FailoverTo a)), failover_step f x)"
      unfolding x by (rule fails_over_classify)
    from classify_with_FailoverTo [OF assms this] obtain r where r: "r \<in> set (untried f)"
      and a: "a = \<lparr>attempt_generation = table_generation (snapshot f),
          ordinal = word_of_nat (card (attempted f)), attempt_route = route_ident r\<rparr>"
      and f': "failover_step f x = f\<lparr>attempted := insert (route_ident r) (attempted f), current_attempt := a\<rparr>"
      and less: "card (attempted f) < unat (budget_max_routes (route_budget f))"
      by blast
    have "unat (word_of_nat (card (attempted f)) :: usize) = card (attempted f)"
      using less u64_less [of "budget_max_routes (route_budget f)"] by (simp add: unat_of_nat)
    then show ?thesis
      using assms r less failover_card [OF assms r]
      by (auto simp: f' a failover_inv_def untried_def elig_contains_def)
  next
    case False
    with assms show ?thesis unfolding x by (simp add: classify_with_unchanged del: fails_over.simps)
  qed
qed

definition failovers_left :: "route_failover \<Rightarrow> nat" where
  "failovers_left f = unat (budget_max_routes (route_budget f)) - attempted_routes f"

lemma failover_step_budget [simp]: "route_budget (failover_step f x) = route_budget f"
  by (cases x) (auto simp: classify_with_def Let_def
      split: route_outcome.splits outcome.splits result.splits option.splits)

lemma failover_step_left:
  assumes "failover_inv f"
  shows "failovers_left (failover_step f x) + (if fails_over f x then 1 else 0) \<le> failovers_left f + 0"
proof -
  obtain oc draw where x: "x = (oc, draw)" by (cases x)
  show ?thesis
  proof (cases "fails_over f x")
    case True
    then obtain a where "classify_with oc draw f = (Return (Ok (FailoverTo a)), failover_step f x)"
      unfolding x by (rule fails_over_classify)
    from classify_with_FailoverTo [OF assms this] obtain r where r: "r \<in> set (untried f)"
      and f': "failover_step f x = f\<lparr>attempted := insert (route_ident r) (attempted f), current_attempt := a\<rparr>"
      and less: "card (attempted f) < unat (budget_max_routes (route_budget f))"
      by blast
    have "attempted_routes (failover_step f x) = Suc (attempted_routes f)"
      using failover_card [OF assms r] by (simp add: f' attempted_routes_def)
    with True less show ?thesis by (simp add: failovers_left_def attempted_routes_def)
  next
    case False
    then have "failover_step f x = f" unfolding x by (simp add: classify_with_unchanged del: fails_over.simps)
    with False show ?thesis by simp
  qed
qed

interpretation failover: token_pool failover_step failover_inv "\<lambda>x. True" fails_over failovers_left "\<lambda>x. 0"
  by unfold_locales (rule failover_step_inv failover_step_left, assumption)+

text \<open>The attempts a request makes after its primary one.\<close>

fun next_attempts :: "route_failover \<Rightarrow> (route_outcome \<times> (u64 \<Rightarrow> u64)) list \<Rightarrow> route_attempt list" where
  "next_attempts f [] = []"
| "next_attempts f (x # xs) =
     (if fails_over f x then [current_attempt (failover_step f x)] else []) @
     next_attempts (failover_step f x) xs"

lemma next_attempts_length: "length (next_attempts f xs) = admitted failover_step fails_over f xs"
  by (induction xs arbitrary: f) auto

definition attempt_ok :: "route_failover \<Rightarrow> route_attempt \<Rightarrow> bool" where
  "attempt_ok f a \<longleftrightarrow> attempt_generation a = table_generation (snapshot f) \<and>
     (\<exists>r \<in> set (table_routes (snapshot f)). live r \<and> route_ident r = attempt_route a \<and>
        elig_contains (eligibility f) (attempt_route a))"

lemma failover_step_cases:
  assumes "failover_inv f"
  obtains (stays) "failover_step f x = f" "\<not> fails_over f x"
  | (moves) r a where "fails_over f x" "r \<in> set (untried f)" "live r" "attempt_route a = route_ident r"
    "attempt_generation a = table_generation (snapshot f)" "ordinal a = word_of_nat (card (attempted f))"
    "failover_step f x = f\<lparr>attempted := insert (route_ident r) (attempted f), current_attempt := a\<rparr>"
    "card (attempted f) < unat (budget_max_routes (route_budget f))"
proof -
  obtain oc draw where x: "x = (oc, draw)" by (cases x)
  show thesis
  proof (cases "fails_over f x")
    case True
    then obtain a where "classify_with oc draw f = (Return (Ok (FailoverTo a)), failover_step f x)"
      unfolding x by (rule fails_over_classify)
    from classify_with_FailoverTo [OF assms this] obtain r where "r \<in> set (untried f)" "live r"
      "a = \<lparr>attempt_generation = table_generation (snapshot f),
          ordinal = word_of_nat (card (attempted f)), attempt_route = route_ident r\<rparr>"
      "failover_step f x = f\<lparr>attempted := insert (route_ident r) (attempted f), current_attempt := a\<rparr>"
      "card (attempted f) < unat (budget_max_routes (route_budget f))"
      by blast
    with True show thesis by (intro moves [of r a]) simp_all
  next
    case False
    then have "failover_step f x = f" unfolding x by (simp add: classify_with_unchanged del: fails_over.simps)
    from this False show thesis by (rule stays)
  qed
qed

lemma next_attempts_ok:
  assumes "failover_inv f"
  shows "distinct (map attempt_route (next_attempts f xs))"
    and "attempt_route ` set (next_attempts f xs) \<inter> attempted f = {}"
    and "list_all (attempt_ok f) (next_attempts f xs)"
    and "map (unat \<circ> ordinal) (next_attempts f xs) =
      [card (attempted f) ..< card (attempted f) + length (next_attempts f xs)]"
proof -
  have "distinct (map attempt_route (next_attempts f xs)) \<and>
      attempt_route ` set (next_attempts f xs) \<inter> attempted f = {} \<and>
      list_all (attempt_ok f) (next_attempts f xs) \<and>
      map (unat \<circ> ordinal) (next_attempts f xs) =
        [card (attempted f) ..< card (attempted f) + length (next_attempts f xs)]"
    using assms
  proof (induction xs arbitrary: f)
    case (Cons x xs)
    note IH = Cons.IH [OF failover_step_inv [OF Cons.prems, of x]]
    from Cons.prems show ?case
    proof (cases rule: failover_step_cases [where x = x])
      case stays
      with IH show ?thesis by simp
    next
      case (moves r a)
      have "unat (ordinal a) = card (attempted f)"
        using moves(6,8) u64_less [of "budget_max_routes (route_budget f)"] by (simp add: unat_of_nat)
      moreover have "attempt_ok f a" "route_ident r \<notin> attempted f"
        using moves by (auto simp: attempt_ok_def untried_def)
      moreover have "attempt_ok (failover_step f x) = attempt_ok f"
        by (simp add: moves(7) attempt_ok_def fun_eq_iff)
      ultimately show ?thesis
        using IH moves failover_card [OF Cons.prems moves(2)] by (auto simp: upt_conv_Cons simp del: upt_Suc)
    qed
  qed simp
  then show "distinct (map attempt_route (next_attempts f xs))"
    and "attempt_route ` set (next_attempts f xs) \<inter> attempted f = {}"
    and "list_all (attempt_ok f) (next_attempts f xs)"
    and "map (unat \<circ> ordinal) (next_attempts f xs) =
      [card (attempted f) ..< card (attempted f) + length (next_attempts f xs)]"
    by simp_all
qed

subsection \<open>How far a request gets\<close>

definition in_range :: "('a::len word \<Rightarrow> 'a word) \<Rightarrow> bool" where
  "in_range draw \<longleftrightarrow> (\<forall>w. w \<noteq> 0 \<longrightarrow> draw w < w)"

lemma fails_over_iff:
  assumes "failover_inv f" and "in_range draw"
  shows "fails_over f (FailoverOutcome, draw) \<longleftrightarrow> 0 < failovers_left f \<and> untried f \<noteq> []"
proof -
  have ok: "table_ok (snapshot f)" "derived_from (eligibility f) (snapshot f)"
    using assms(1) by (simp_all add: failover_inv_def)
  let ?ex = "\<lambda>r. route_ident r \<in> attempted f"
  let ?w = "elig_total (snapshot f, eligibility f, ?ex)"
  show ?thesis
  proof (cases "untried f = []")
    case True
    then have "?w = 0" using untried_empty_iff [OF assms(1)] by simp
    with True show ?thesis by (simp add: classify_with_def select_remaining_cases [OF ok] Let_def)
  next
    case False
    then have "?w \<noteq> 0" using untried_empty_iff [OF assms(1)] by simp
    then have "draw ?w < ?w" using assms(2) by (simp add: in_range_def)
    moreover from this obtain r where "elig_chosen (snapshot f, eligibility f, ?ex) (draw ?w) = Some r"
      by (rule elig_chosen_selectable [OF ok])
    ultimately show ?thesis using False \<open>?w \<noteq> 0\<close>
      by (auto simp: classify_with_def select_remaining_cases [OF ok] Let_def failovers_left_def)
  qed
qed

lemma untried_after:
  assumes "failover_inv f" and "r \<in> set (untried f)"
  shows "Suc (length (untried (f\<lparr>attempted := insert (route_ident r) (attempted f), current_attempt := a\<rparr>)))
    = length (untried f)"
proof -
  let ?f = "f\<lparr>attempted := insert (route_ident r) (attempted f), current_attempt := a\<rparr>"
  have dist: "distinct (map route_ident (untried f))"
    using assms(1) by (auto simp: failover_inv_def untried_def table_ok_def distinct_map_filter)
  have "untried ?f = filter (\<lambda>x. route_ident x \<noteq> route_ident r) (untried f)"
    by (auto simp: untried_def intro: filter_cong)
  then show ?thesis using length_filter_other [OF dist assms(2)] by simp
qed

lemma next_attempts_count:
  assumes "failover_inv f" and "list_all in_range draws"
  shows "length (next_attempts f (map (\<lambda>d. (FailoverOutcome, d)) draws)) =
    min (length draws) (min (failovers_left f) (length (untried f)))"
  using assms
proof (induction draws arbitrary: f)
  case (Cons d draws)
  let ?x = "(FailoverOutcome, d)"
  have inv: "failover_inv (failover_step f ?x)" using Cons.prems(1) by (rule failover_step_inv)
  have iff: "fails_over f ?x \<longleftrightarrow> 0 < failovers_left f \<and> untried f \<noteq> []"
    using Cons.prems by (intro fails_over_iff) simp_all
  have IH: "length (next_attempts (failover_step f ?x) (map (\<lambda>d. (FailoverOutcome, d)) draws)) =
      min (length draws) (min (failovers_left (failover_step f ?x)) (length (untried (failover_step f ?x))))"
    using Cons.prems by (intro Cons.IH [OF inv]) simp
  from Cons.prems(1) show ?case
  proof (cases rule: failover_step_cases [where x = ?x])
    case stays
    from stays(2) [unfolded iff] have "failovers_left f = 0 \<or> untried f = []" by simp
    with stays IH show ?thesis by (auto simp del: failover_step.simps fails_over.simps)
  next
    case (moves r a)
    have "failovers_left f = Suc (failovers_left (failover_step f ?x))"
      using moves(8) failover_card [OF Cons.prems(1) moves(2)]
      by (simp add: moves(7) failovers_left_def attempted_routes_def del: failover_step.simps)
    moreover have "length (untried f) = Suc (length (untried (failover_step f ?x)))"
      using untried_after [OF Cons.prems(1) moves(2), of a] by (simp add: moves(7) del: failover_step.simps)
    ultimately show ?thesis using IH moves(1) by (simp del: failover_step.simps fails_over.simps)
  qed
qed simp

subsection \<open>Properties\<close>

text \<open>C11: whatever outcomes and draws a request sees, its route attempts are distinct enabled routes of the
  one table and eligibility decision it started with, numbered 0, 1, 2 and so on, and no more than
  \<open>max_routes\<close>.\<close>

theorem failover_never_revisits:
  assumes "table_ok t" and "e = fst (eligibility_from_predicate pred t s)"
    and "from_primary_eligibility t e b i = Ok f"
  shows "distinct (i # map attempt_route (next_attempts f xs)) \<and>
    Suc (length (next_attempts f xs)) \<le> unat (budget_max_routes b) \<and>
    map (unat \<circ> ordinal) (next_attempts f xs) = [1 ..< Suc (length (next_attempts f xs))] \<and>
    list_all (attempt_ok f) (next_attempts f xs) \<and> snapshot f = t \<and> eligibility f = e"
proof -
  have d: "derived_from e t" unfolding assms(2) by (rule derived_from_predicate)
  from assms(3) have f: "f = from_primary t e b i" and c: "elig_contains e i"
    by (auto simp: from_primary_eligibility_def split: if_splits)
  have inv: "failover_inv f" unfolding f using assms(1) d c by (rule failover_inv_from_primary)
  have fields: "attempted f = {i}" "snapshot f = t" "eligibility f = e"
      "failovers_left f = unat (budget_max_routes b) - 1"
    by (simp_all add: f from_primary_def failovers_left_def attempted_routes_def)
  have "list_all (\<lambda>x. True) xs" by (simp add: list_all_iff)
  then have "length (next_attempts f xs) \<le> unat (budget_max_routes b) - 1"
    using failover.admitted_le [OF inv, of xs] fields by (simp add: next_attempts_length)
  moreover have "0 < unat (budget_max_routes b)" by (simp add: budget_max_routes_def)
  ultimately have len: "Suc (length (next_attempts f xs)) \<le> unat (budget_max_routes b)" by linarith
  show ?thesis using next_attempts_ok [OF inv, of xs] len fields by auto
qed

lemma sample_failover:
  "from_primary_eligibility sample_table (eligibility_all sample_table) (attempt_budget_new (nz_of 2)) (RouteId ''a'') =
     Ok (from_primary sample_table (eligibility_all sample_table) (attempt_budget_new (nz_of 2)) (RouteId ''a''))"
  using sample_eligible_ids by (simp add: from_primary_eligibility_def elig_contains_def)

theorem failover_never_revisits_witness:
  "distinct (RouteId ''a'' # map attempt_route
     (next_attempts (from_primary sample_table (eligibility_all sample_table) (attempt_budget_new (nz_of 2))
       (RouteId ''a'')) [(FailoverOutcome, \<lambda>n. 0), (FailoverOutcome, \<lambda>n. 0)]))"
  by (rule failover_never_revisits [OF sample_table_ok _ sample_failover, THEN conjunct1])
    (rule eligibility_all_def)

text \<open>\<open>classify_with\<close> answers a failover request completely: it stops when the route budget is used up,
  stops when every eligible route was attempted, moves to an eligible route not attempted before when
  the draw is in range, and otherwise reports an error and changes nothing.\<close>

theorem classify_failover_complete:
  assumes "failover_inv f" and "w = elig_total (snapshot f, eligibility f, \<lambda>r. route_ident r \<in> attempted f)"
  shows "if unat (budget_max_routes (route_budget f)) \<le> card (attempted f)
      then classify_with FailoverOutcome draw f = (Return (Ok (StopFor RouteAttemptBudgetExhausted)), f)
    else if untried f = []
      then classify_with FailoverOutcome draw f = (Return (Ok (StopFor NoRemainingEligibleRoute)), f)
    else if draw w < w
      then \<exists>r a. r \<in> set (untried f) \<and> attempt_route a = route_ident r \<and>
        unat (ordinal a) = card (attempted f) \<and>
        classify_with FailoverOutcome draw f = (Return (Ok (FailoverTo a)),
          f\<lparr>attempted := insert (route_ident r) (attempted f), current_attempt := a\<rparr>)
    else classify_with FailoverOutcome draw f = (Return (Err RouteFailoverError), f)"
proof -
  have ok: "table_ok (snapshot f)" "derived_from (eligibility f) (snapshot f)"
    using assms(1) by (simp_all add: failover_inv_def)
  note remaining = select_remaining_cases [OF ok, of "attempted f" draw, folded assms(2)]
  have zero: "w = 0 \<longleftrightarrow> untried f = []" unfolding assms(2) by (rule untried_empty_iff [OF assms(1)])
  show ?thesis
  proof (cases "unat (budget_max_routes (route_budget f)) \<le> card (attempted f) \<or> untried f = [] \<or> \<not> draw w < w")
    case True
    then show ?thesis
      using zero by (auto simp: classify_with_def attempted_routes_def remaining Let_def)
  next
    case False
    then have lt: "draw w < w" by simp
    obtain r where r: "elig_chosen (snapshot f, eligibility f, \<lambda>r. route_ident r \<in> attempted f) (draw w) = Some r"
      by (rule elig_chosen_selectable [OF ok lt [unfolded assms(2)], folded assms(2)])
    define a where "a = \<lparr>attempt_generation = table_generation (snapshot f),
      ordinal = word_of_nat (card (attempted f)), attempt_route = route_ident r\<rparr>"
    have step: "classify_with FailoverOutcome draw f = (Return (Ok (FailoverTo a)),
        f\<lparr>attempted := insert (route_ident r) (attempted f), current_attempt := a\<rparr>)"
      using False zero r by (simp add: classify_with_def attempted_routes_def remaining Let_def a_def)
    have "select_remaining (snapshot f) (eligibility f) (attempted f) draw = Return (Ok (Some r))"
      using False zero r by (simp add: remaining Let_def)
    from select_remaining_Some [OF ok this] have "r \<in> set (untried f)" by (simp add: untried_def)
    moreover have "unat (ordinal a) = card (attempted f)"
      using False u64_less [of "budget_max_routes (route_budget f)"] by (simp add: a_def unat_of_nat)
    ultimately show ?thesis using False step by (auto simp: a_def)
  qed
qed

theorem classify_failover_complete_witness:
  "fst (classify_with FailoverOutcome (\<lambda>n. 0)
     (from_primary sample_table (eligibility_all sample_table) (attempt_budget_new (nz_of 1)) (RouteId ''a''))) =
   Return (Ok (StopFor RouteAttemptBudgetExhausted))"
proof -
  have "failover_inv (from_primary sample_table (eligibility_all sample_table) (attempt_budget_new (nz_of 1)) (RouteId ''a''))"
    using sample_eligible_ids by (intro failover_inv_from_primary) (simp_all add: elig_contains_def)
  from classify_failover_complete [OF this refl, of "\<lambda>n. 0"] show ?thesis
    by (simp add: from_primary_def attempt_budget_new_def budget_max_routes_def)
qed

text \<open>C29: no route is given up early: with draws in range, a request whose routes keep failing attempts
  as many further routes as the budget, the eligible routes and the failures allow.\<close>

theorem failover_reaches_every_route:
  assumes "failover_inv f" and "list_all in_range draws"
  shows "length (next_attempts f (map (\<lambda>d. (FailoverOutcome, d)) draws)) =
    min (length draws)
      (min (unat (budget_max_routes (route_budget f)) - card (attempted f)) (length (untried f)))"
  using next_attempts_count [OF assms] by (simp add: failovers_left_def attempted_routes_def)

theorem failover_reaches_every_route_witness:
  "length (next_attempts
     (from_primary sample_table (eligibility_all sample_table) (attempt_budget_new (nz_of 9)) (RouteId ''a''))
     [(FailoverOutcome, \<lambda>n. 0), (FailoverOutcome, \<lambda>n. 0)]) = 1"
proof -
  let ?f = "from_primary sample_table (eligibility_all sample_table) (attempt_budget_new (nz_of 9)) (RouteId ''a'')"
  have inv: "failover_inv ?f"
    using sample_eligible_ids by (intro failover_inv_from_primary) (simp_all add: elig_contains_def)
  have "list_all in_range [\<lambda>n. 0, \<lambda>n. 0]" by (simp add: in_range_def word_gt_0)
  from failover_reaches_every_route [OF inv this]
  have "length (next_attempts ?f [(FailoverOutcome, \<lambda>n. 0), (FailoverOutcome, \<lambda>n. 0)]) =
      min 2 (min (unat (budget_max_routes (route_budget ?f)) - card (attempted ?f)) (length (untried ?f)))"
    by (simp only: list.map list.size)
  moreover have "length (untried ?f) = 1"
    unfolding untried_def elig_contains_def from_primary_def route_failover.simps sample_eligible_ids
    by (simp add: sample_table_def sample_routes_def route_new_def route_disabled_def)
  moreover have "unat (budget_max_routes (route_budget ?f)) - card (attempted ?f) = 8"
    by (simp add: from_primary_def attempt_budget_new_def budget_max_routes_def)
  ultimately show ?thesis by simp
qed

text \<open>the failover policy draws its primary route as the table itself would, and its \<open>expect\<close> never
  fires: \<open>new_with\<close> starts at the route \<open>select_with\<close> selects, and reports an error exactly where the
  draw is out of range.\<close>

theorem failover_primary_like_table:
  assumes "route_table_new g rs = Ok t"
  shows "failover_new_with t b draw =
    (case table_select_with t draw of
       Return (Ok r) \<Rightarrow> Return (Ok (from_primary t (eligibility_all t) b (route_ident r)))
     | Return (Err x) \<Rightarrow> Return (Err RouteFailoverError)
     | Panic \<Rightarrow> Panic)"
proof -
  have t: "table_ok t" using assms by (simp add: route_table_new_Ok)
  let ?w = "table_eligible_weight t"
  have w: "elig_total (t, eligibility_all t, \<lambda>r. False) = ?w" by (rule elig_total_all [OF t])
  have nz: "?w \<noteq> 0" using t by (simp add: table_ok_def)
  show ?thesis
  proof (cases "draw ?w < ?w")
    case True
    with table_select_with_cases [OF t, of draw] obtain r where r: "table_select_with t draw = Return (Ok r)" by auto
    with True have "table_chosen t (draw ?w) = Some r"
      by (simp add: table_chosen_def table_select_with_def Let_def)
    then have "elig_chosen (t, eligibility_all t, \<lambda>r. False) (draw ?w) = Some r"
      using elig_chosen_all [OF t True] by simp
    with True nz r show ?thesis
      by (simp add: failover_new_with_def select_remaining_cases [OF t derived_from_all] w Let_def)
  next
    case False
    with nz table_select_with_cases [OF t, of draw] show ?thesis
      by (simp add: failover_new_with_def select_remaining_cases [OF t derived_from_all] w Let_def)
  qed
qed

theorem failover_primary_like_table_witness:
  "failover_new_with sample_table (attempt_budget_new (nz_of 2)) (\<lambda>n. n) = Return (Err RouteFailoverError)"
  using failover_primary_like_table [OF sample_table_new, of "attempt_budget_new (nz_of 2)" "\<lambda>n. n"]
  by (simp add: table_select_with_def Let_def)

end
