(* ===== verification/Shadow.thy ===== *)
theory Shadow
  imports Eligibility
begin

section \<open>Shadow sampling and route planning (src/src/shadow.rs)\<close>

text \<open>
  The exact parts-per-million sampling decision and the planner of a primary route with an
  optional shadow route. The draws are parameters; where the code calls \<open>fastrand\<close> itself, that
  source is. The lemmas reduce the planner's own shadow selection to the weighted choice among
  eligible routes, so that its distribution, its distinctness from the primary route and its
  agreement with the eligibility-aware planner follow from what is known of that choice.
\<close>

subsection \<open>Sampling\<close>

definition shadow_parts_per_million :: u32 where
  "shadow_parts_per_million = 1000000"

datatype shadow_sampling_error = PartsPerMillionOutOfRange | SamplingDrawOutOfRange

fun shadow_sampling_error_display :: "shadow_sampling_error \<Rightarrow> string" where
  "shadow_sampling_error_display PartsPerMillionOutOfRange =
     ''shadow sampling parts-per-million must be at most 1,000,000''"
| "shadow_sampling_error_display SamplingDrawOutOfRange =
     ''shadow sampling draw was outside the requested range''"

record shadow_sampling =
  parts_per_million :: u32

definition sampling_default :: shadow_sampling where
  "sampling_default = \<lparr>parts_per_million = 0\<rparr>"

definition sampling_new :: "u32 \<Rightarrow> (shadow_sampling, shadow_sampling_error) result" where
  "sampling_new ppm =
     (if ppm > shadow_parts_per_million then Err PartsPerMillionOutOfRange
      else Ok \<lparr>parts_per_million = ppm\<rparr>)"

definition sampling_disabled :: shadow_sampling where
  "sampling_disabled = \<lparr>parts_per_million = 0\<rparr>"

definition sampling_always :: shadow_sampling where
  "sampling_always = \<lparr>parts_per_million = shadow_parts_per_million\<rparr>"

definition sample_with :: "shadow_sampling \<Rightarrow> (u32 \<Rightarrow> u32) \<Rightarrow> (bool, shadow_sampling_error) result" where
  "sample_with s draw =
     (if parts_per_million s = 0 then Ok False
      else if parts_per_million s = shadow_parts_per_million then Ok True
      else let selected = draw shadow_parts_per_million in
        if selected \<ge> shadow_parts_per_million then Err SamplingDrawOutOfRange
        else Ok (selected < parts_per_million s))"

definition sample :: "(u32 \<Rightarrow> u32) \<Rightarrow> shadow_sampling \<Rightarrow> bool outcome" where
  "sample fastrand s = expect (sample_with s fastrand)"

subsection \<open>Plans\<close>

record route_plan =
  plan_generation :: u64
  plan_primary :: route_id
  plan_shadow :: "route_id option"
  plan_shadow_sampled :: bool

datatype route_plan_error =
  PrimarySelection route_table_error | PlanEligibility eligibility_error | NoEligiblePrimary

fun route_plan_error_display :: "route_plan_error \<Rightarrow> string" where
  "route_plan_error_display (PrimarySelection e) =
     ''primary route selection failed: '' @ route_table_error_display e"
| "route_plan_error_display (PlanEligibility e) =
     ''route eligibility is invalid for planning: '' @ eligibility_error_display e"
| "route_plan_error_display NoEligiblePrimary = ''route eligibility contains no primary route''"

definition build_plan :: "route_table \<Rightarrow> route \<Rightarrow> bool \<Rightarrow> route option \<Rightarrow> route_plan" where
  "build_plan t primary sampled shadow =
     \<lparr>plan_generation = table_generation t, plan_primary = route_ident primary,
      plan_shadow = map_option route_ident shadow, plan_shadow_sampled = sampled\<rparr>"

fun shadow_loop :: "route_id \<Rightarrow> route list \<Rightarrow> u64 \<Rightarrow> route option" where
  "shadow_loop p [] cursor = None"
| "shadow_loop p (r # rs) cursor =
     (if route_ident r = p \<or> \<not> route_enabled r \<or> route_weight r = 0 then shadow_loop p rs cursor
      else if cursor < route_weight r then Some r
      else shadow_loop p rs (cursor - route_weight r))"

definition select_shadow :: "route_table \<Rightarrow> route \<Rightarrow> (u64 \<Rightarrow> u64) \<Rightarrow> route option" where
  "select_shadow t primary draw =
     (case fold_weights
         (filter (\<lambda>r. route_ident r \<noteq> route_ident primary \<and> route_enabled r \<and> route_weight r > 0)
           (table_routes t)) 0 of
       None \<Rightarrow> None
     | Some weight \<Rightarrow>
         if weight = 0 then None
         else let selected = draw weight in
           if selected \<ge> weight then None
           else shadow_loop (route_ident primary) (table_routes t) selected)"

definition plan_with ::
    "route_table \<Rightarrow> shadow_sampling \<Rightarrow> (u64 \<Rightarrow> u64) \<Rightarrow> (u32 \<Rightarrow> u32) \<Rightarrow> (u64 \<Rightarrow> u64) \<Rightarrow>
     (route_plan, route_plan_error) result outcome" where
  "plan_with t sampling primary_draw sample_draw shadow_draw =
     (case table_select_with t primary_draw of
       Panic \<Rightarrow> Panic
     | Return (Err e) \<Rightarrow> Return (Err (PrimarySelection e))
     | Return (Ok primary) \<Rightarrow>
         let sampled = (case sample_with sampling sample_draw of Ok b \<Rightarrow> b | Err e \<Rightarrow> False);
             shadow = (if sampled then select_shadow t primary shadow_draw else None)
         in Return (Ok (build_plan t primary sampled shadow)))"

definition plan :: "(u64 \<Rightarrow> u64) \<Rightarrow> (u32 \<Rightarrow> u32) \<Rightarrow> route_table \<Rightarrow> shadow_sampling \<Rightarrow> route_plan outcome" where
  "plan fastrand64 fastrand32 t sampling =
     bind_outcome (table_select fastrand64 t) (\<lambda>primary.
     bind_outcome (sample fastrand32 sampling) (\<lambda>sampled.
       let shadow = (if sampled then select_shadow t primary fastrand64 else None)
       in Return (build_plan t primary sampled shadow)))"

definition plan_eligible_with ::
    "route_table \<Rightarrow> route_eligibility \<Rightarrow> shadow_sampling \<Rightarrow> (u64 \<Rightarrow> u64) \<Rightarrow> (u32 \<Rightarrow> u32) \<Rightarrow> (u64 \<Rightarrow> u64) \<Rightarrow>
     (route_plan, route_plan_error) result outcome" where
  "plan_eligible_with t e sampling primary_draw sample_draw shadow_draw =
     (case eligibility_select_with e t primary_draw of
       Panic \<Rightarrow> Panic
     | Return (Err x) \<Rightarrow> Return (Err (PlanEligibility x))
     | Return (Ok None) \<Rightarrow> Return (Err NoEligiblePrimary)
     | Return (Ok (Some primary)) \<Rightarrow>
         let sampled = (case sample_with sampling sample_draw of Ok b \<Rightarrow> b | Err x \<Rightarrow> False)
         in if sampled then
              (case select_weighted_with t e (\<lambda>r. route_ident r = route_ident primary) shadow_draw of
                Panic \<Rightarrow> Panic
              | Return (Ok shadow) \<Rightarrow> Return (Ok (build_plan t primary sampled shadow))
              | Return (Err x) \<Rightarrow> Return (Ok (build_plan t primary sampled None)))
            else Return (Ok (build_plan t primary sampled None)))"

definition plan_eligible ::
    "(u64 \<Rightarrow> u64) \<Rightarrow> (u32 \<Rightarrow> u32) \<Rightarrow> route_table \<Rightarrow> route_eligibility \<Rightarrow> shadow_sampling \<Rightarrow>
     (route_plan, route_plan_error) result outcome" where
  "plan_eligible fastrand64 fastrand32 t e sampling =
     plan_eligible_with t e sampling fastrand64 fastrand32 fastrand64"

subsection \<open>Sampling is exact\<close>

lemma card_words_below:
  assumes "unat n \<le> unat m"
  shows "card {d :: 'a::len word. d < m \<and> d < n} = unat n"
proof -
  have "{d :: 'a word. d < m \<and> d < n} = {d. unat d < unat n}"
    using assms by (auto simp: word_less_nat_alt)
  moreover have "bij_betw unat {d :: 'a word. unat d < unat n} {..<unat n}"
  proof (rule bij_betw_byWitness [where f' = word_of_nat])
    have "unat (word_of_nat k :: 'a word) = k" if "k < unat n" for k
      using less_trans [OF that unat_less [of n]] by (simp add: unat_of_nat)
    then show "\<forall>k \<in> {..<unat n}. unat (word_of_nat k :: 'a word) = k"
      and "word_of_nat ` {..<unat n} \<subseteq> {d :: 'a word. unat d < unat n}"
      by auto
  qed auto
  ultimately show ?thesis by (simp add: bij_betw_same_card)
qed

lemma sampling_new_Ok:
  "sampling_new ppm = Ok s \<longleftrightarrow> unat ppm \<le> 1000000 \<and> s = \<lparr>parts_per_million = ppm\<rparr>"
  by (auto simp: sampling_new_def shadow_parts_per_million_def word_le_nat_alt word_less_nat_alt)

subsection \<open>The planner's shadow selection\<close>

lemma shadow_loop_cursor:
  "shadow_loop p rs cursor =
     (case cursor_loop (filter (\<lambda>r. route_ident r \<noteq> p \<and> route_enabled r \<and> route_weight r > 0) rs) cursor of
        Return r \<Rightarrow> Some r | Panic \<Rightarrow> None)"
  by (induction p rs cursor rule: shadow_loop.induct) (auto simp: word_gt_0)

lemma select_shadow_eq:
  assumes "table_ok t"
  shows "select_shadow t p draw =
    (let w = elig_total (t, eligibility_all t, \<lambda>r. route_ident r = route_ident p) in
      if w \<noteq> 0 \<and> draw w < w
      then elig_chosen (t, eligibility_all t, \<lambda>r. route_ident r = route_ident p) (draw w) else None)"
proof -
  let ?e = "eligibility_all t" and ?ex = "\<lambda>r. route_ident r = route_ident p"
  let ?w = "elig_total (t, ?e, ?ex)"
  have v: "elig_valid (t, ?e, ?ex)" using assms by (simp add: elig_valid_def)
  have sel: "selectable t ?e ?ex =
      filter (\<lambda>r. route_ident r \<noteq> route_ident p \<and> route_enabled r \<and> route_weight r > 0) (table_routes t)"
    unfolding derived_selectable [OF assms derived_from_all] filter_filter
    by (rule filter_cong) (auto simp: elig_contains_def live_def)
  have f: "fold_weights (selectable t ?e ?ex) 0 = Some ?w"
    using elig_total(1) [OF v] by (simp add: elig_candidates_def)
  have g: "table_generation t = elig_generation ?e" by simp
  show ?thesis
  proof (cases "?w \<noteq> 0 \<and> draw ?w < ?w")
    case True
    then obtain r where r: "elig_chosen (t, ?e, ?ex) (draw ?w) = Some r"
      using eligible.chosen_Some [OF v] by metis
    then have "cursor_loop (selectable t ?e ?ex) (draw ?w) = Return r"
      using True f
      by (auto simp: elig_chosen_def select_weighted_with_def Let_def
          split: outcome.splits result.splits if_splits)
    with True r f show ?thesis
      by (simp add: select_shadow_def shadow_loop_cursor sel [symmetric] Let_def not_le)
  next
    case False
    with f show ?thesis by (auto simp: select_shadow_def sel [symmetric] Let_def)
  qed
qed

lemma select_shadow_Some:
  assumes "table_ok t" and "select_shadow t p draw = Some r"
  shows "r \<in> set (table_routes t)" and "live r" and "route_ident r \<noteq> route_ident p"
proof -
  let ?ex = "\<lambda>r. route_ident r = route_ident p"
  let ?w = "elig_total (t, eligibility_all t, ?ex)"
  from assms(2) have "draw ?w < ?w" and c: "elig_chosen (t, eligibility_all t, ?ex) (draw ?w) = Some r"
    by (auto simp: select_shadow_eq [OF assms(1)] Let_def split: if_splits)
  from elig_chosen_selectable [OF assms(1) derived_from_all this(1)] c
  show "r \<in> set (table_routes t)" "live r" "route_ident r \<noteq> route_ident p"
    by (metis option.inject)+
qed

text \<open>Leaving out the primary route leaves less weight, so the shadow phase cannot overflow.\<close>

lemma fold_weights_filter:
  assumes "fold_weights rs 0 = Some w"
  obtains w' where "fold_weights (filter P rs) 0 = Some w'"
proof -
  have "sum_list (map (unat \<circ> route_weight) rs) < 2 ^ 64"
    using assms u64_less [of w] by (simp add: fold_weights_Some)
  then have "sum_list (map (unat \<circ> route_weight) (filter P rs)) < 2 ^ 64"
    using sum_list_filter_le [of "unat \<circ> route_weight" P rs] by linarith
  then show thesis using that fold_weights_None [of "filter P rs" 0]
    by (cases "fold_weights (filter P rs) 0") auto
qed

lemma cursor_loop_in_range:
  assumes "fold_weights rs 0 = Some w" and "d < w"
  obtains r where "cursor_loop rs d = Return r" "r \<in> set rs"
proof -
  have u: "unat d < sum_list (map (unat \<circ> route_weight) rs)"
    using assms by (simp add: fold_weights_Some word_less_nat_alt)
  then obtain r where "pick (unat \<circ> route_weight) rs (unat d) = Some r" using pick_in_range by blast
  with that show thesis using u cursor_loop_pick pick_Some by metis
qed

lemma select_weighted_with_narrower:
  assumes "select_weighted_with t e (\<lambda>r. False) draw = Return (Ok (Some p))"
  shows "select_weighted_with t e ex draw' \<noteq> Panic"
    and "select_weighted_with t e ex draw' = Return (Ok (Some r)) \<Longrightarrow> r \<in> set (selectable t e ex)"
proof -
  from assms obtain w where w: "fold_weights (selectable t e (\<lambda>r. False)) 0 = Some w"
    by (auto simp: select_weighted_with_def split: if_splits option.splits)
  have "selectable t e ex = filter (\<lambda>r. \<not> ex r) (selectable t e (\<lambda>r. False))"
    by (auto simp: selectable_def intro: filter_cong)
  with fold_weights_filter [OF w] obtain w' where w': "fold_weights (selectable t e ex) 0 = Some w'"
    by metis
  show "select_weighted_with t e ex draw' \<noteq> Panic"
  proof (cases "draw' w' < w'")
    case True
    then obtain r where "cursor_loop (selectable t e ex) (draw' w') = Return r"
      by (rule cursor_loop_in_range [OF w'])
    with w' show ?thesis by (simp add: select_weighted_with_def Let_def)
  next
    case False
    with w' show ?thesis by (simp add: select_weighted_with_def Let_def not_less)
  qed
  show "r \<in> set (selectable t e ex)" if "select_weighted_with t e ex draw' = Return (Ok (Some r))"
  proof -
    from that w' have "draw' w' < w'" "cursor_loop (selectable t e ex) (draw' w') = Return r"
      by (auto simp: select_weighted_with_def Let_def split: if_splits outcome.splits)
    then show ?thesis using cursor_loop_in_range [OF w'] by (metis outcome.inject)
  qed
qed

subsection \<open>Properties\<close>

text \<open>sampling is exact: of the one million draws in range, a valid policy of \<open>ppm\<close> parts per million
  accepts exactly \<open>ppm\<close>, from none at 0 to all at 1,000,000.\<close>

theorem sampling_exact:
  assumes "sampling_new ppm = Ok s"
  shows "card {d. d < shadow_parts_per_million \<and> sample_with s (\<lambda>n. d) = Ok True} = unat ppm"
proof -
  have ppm: "unat ppm \<le> unat shadow_parts_per_million" "parts_per_million s = ppm"
    using assms by (simp_all add: sampling_new_Ok shadow_parts_per_million_def)
  have "d < shadow_parts_per_million \<and> sample_with s (\<lambda>n. d) = Ok True \<longleftrightarrow>
      d < shadow_parts_per_million \<and> d < ppm" for d
    using ppm(2) by (auto simp: sample_with_def Let_def)
  then have "{d. d < shadow_parts_per_million \<and> sample_with s (\<lambda>n. d) = Ok True} =
      {d. d < shadow_parts_per_million \<and> d < ppm}"
    by blast
  then show ?thesis using card_words_below [OF ppm(1)] by simp
qed

theorem sampling_exact_witness:
  "card {d. d < shadow_parts_per_million \<and> sample_with \<lparr>parts_per_million = 250000\<rparr> (\<lambda>n. d) = Ok True} = 250000"
  using sampling_exact [of 250000 "\<lparr>parts_per_million = 250000\<rparr>"] by (simp add: sampling_new_Ok)

text \<open>C25: shadowing never hurts the primary: whatever the sampling policy and the sampling and shadow
  draws, planning fails only where the primary draw is out of range; otherwise the plan has the
  primary route the table selects, and its shadow, if any, was sampled and is another enabled
  route of the table.\<close>

theorem plan_primary_unaffected:
  assumes "route_table_new g rs = Ok t"
  shows "if primary_draw (table_eligible_weight t) < table_eligible_weight t
    then \<exists>r pl. table_select_with t primary_draw = Return (Ok r) \<and>
      plan_with t sampling primary_draw sample_draw shadow_draw = Return (Ok pl) \<and>
      plan_primary pl = route_ident r \<and> plan_generation pl = g \<and>
      (plan_shadow pl \<noteq> None \<longrightarrow> plan_shadow_sampled pl) \<and>
      (\<forall>i. plan_shadow pl = Some i \<longrightarrow> i \<noteq> plan_primary pl \<and> (\<exists>r' \<in> set rs. live r' \<and> route_ident r' = i))
    else plan_with t sampling primary_draw sample_draw shadow_draw =
      Return (Err (PrimarySelection DrawOutOfRange))"
proof -
  have t: "table_ok t" "table_routes t = rs" "table_generation t = g"
    using assms by (simp_all add: route_table_new_Ok)
  note cases = table_select_with_cases [OF t(1), of primary_draw]
  show ?thesis
  proof (cases "primary_draw (table_eligible_weight t) < table_eligible_weight t")
    case True
    with cases obtain r where r: "table_select_with t primary_draw = Return (Ok r)" by auto
    let ?sampled = "case sample_with sampling sample_draw of Ok b \<Rightarrow> b | Err e \<Rightarrow> False"
    let ?shadow = "if ?sampled then select_shadow t r shadow_draw else None"
    let ?pl = "build_plan t r ?sampled ?shadow"
    have "plan_with t sampling primary_draw sample_draw shadow_draw = Return (Ok ?pl)"
      by (simp add: plan_with_def r Let_def)
    moreover have "i \<noteq> plan_primary ?pl \<and> (\<exists>r' \<in> set rs. live r' \<and> route_ident r' = i)"
      if "plan_shadow ?pl = Some i" for i
      using that select_shadow_Some [OF t(1), of r shadow_draw] t(2)
      by (auto simp: build_plan_def split: if_splits)
    moreover have "plan_shadow ?pl \<noteq> None \<longrightarrow> plan_shadow_sampled ?pl"
      by (simp add: build_plan_def)
    moreover have "plan_primary ?pl = route_ident r" "plan_generation ?pl = g"
      by (simp_all add: build_plan_def t(3))
    ultimately show ?thesis using True r by auto
  next
    case False
    with cases show ?thesis by (simp add: plan_with_def)
  qed
qed

theorem plan_primary_unaffected_witness:
  "plan_with sample_table sampling_always (\<lambda>n. 0) (\<lambda>n. n) (\<lambda>n. 1) =
     Return (Ok \<lparr>plan_generation = 7, plan_primary = RouteId ''a'', plan_shadow = Some (RouteId ''c''),
       plan_shadow_sampled = True\<rparr>) \<and>
   plan_with sample_table sampling_always (\<lambda>n. n) (\<lambda>n. n) (\<lambda>n. 1) =
     Return (Err (PrimarySelection DrawOutOfRange))"
proof
  show "plan_with sample_table sampling_always (\<lambda>n. 0) (\<lambda>n. n) (\<lambda>n. 1) =
     Return (Ok \<lparr>plan_generation = 7, plan_primary = RouteId ''a'', plan_shadow = Some (RouteId ''c''),
       plan_shadow_sampled = True\<rparr>)"
    by (simp add: plan_with_def table_select_with_def sample_table_def sample_routes_def route_new_def
        route_disabled_def sampling_always_def sample_with_def shadow_parts_per_million_def
        select_shadow_def checked_add_def build_plan_def Let_def word_le_nat_alt)
  show "plan_with sample_table sampling_always (\<lambda>n. n) (\<lambda>n. n) (\<lambda>n. 1) =
     Return (Err (PrimarySelection DrawOutOfRange))"
    using plan_primary_unaffected [OF sample_table_new, of "\<lambda>n. n"] by simp
qed

text \<open>C26: the shadow route is drawn exactly among the other routes: for a given primary route, each other
  enabled route is the shadow for as many draws as its weight, and the primary for none.\<close>

theorem shadow_selection_exact:
  assumes "route_table_new g rs = Ok t" and "r \<in> set rs"
    and "w = elig_total (t, eligibility_all t, \<lambda>x. route_ident x = route_ident primary)"
  shows "card {d. d < w \<and> select_shadow t primary (\<lambda>n. d) = Some r} =
    (if live r \<and> route_ident r \<noteq> route_ident primary then unat (route_weight r) else 0)"
proof -
  have t: "table_ok t" "table_routes t = rs" using assms(1) by (simp_all add: route_table_new_Ok)
  let ?c = "(t, eligibility_all t, \<lambda>x. route_ident x = route_ident primary)"
  have v: "elig_valid ?c" using t by (simp add: elig_valid_def)
  have S: "{d. d < w \<and> select_shadow t primary (\<lambda>n. d) = Some r} =
      {d. d < elig_total ?c \<and> elig_chosen ?c d = Some r}"
    by (auto simp: assms(3) select_shadow_eq [OF t(1)] Let_def)
  have cand: "elig_candidates ?c = filter (\<lambda>r. live r \<and> route_ident r \<noteq> route_ident primary) rs"
    unfolding elig_candidates_def prod.case derived_selectable [OF t(1) derived_from_all] filter_filter t(2)
    by (rule filter_cong) (auto simp: elig_contains_def t(2))
  have dist: "distinct (elig_candidates ?c)"
    using table_distinct_routes [OF t(1)] by (simp add: cand t(2))
  show ?thesis
  proof (cases "live r \<and> route_ident r \<noteq> route_ident primary")
    case True
    then have "r \<in> set (elig_candidates ?c)" using assms(2) by (simp add: cand)
    from eligible.card_chosen [OF v dist this] True show ?thesis
      unfolding S by simp
  next
    case False
    then have "r \<notin> set (elig_candidates ?c)" by (simp add: cand)
    then have none: "{d. d < elig_total ?c \<and> elig_chosen ?c d = Some r} = {}"
      using eligible.chosen_Some [OF v] by force
    show ?thesis unfolding S none using False by auto
  qed
qed

theorem shadow_selection_exact_witness:
  "card {d. d < elig_total (sample_table, eligibility_all sample_table, \<lambda>x. route_ident x = RouteId ''a'') \<and>
     select_shadow sample_table (route_new (RouteId ''a'') 3) (\<lambda>n. d) =
       Some (route_new (RouteId ''c'') 2)} = 2"
  using shadow_selection_exact [OF sample_table_new, of "route_new (RouteId ''c'') 2" _ "route_new (RouteId ''a'') 3", OF _ refl]
  by (simp add: sample_routes_def route_new_def live_def)

text \<open>planning with every route eligible is planning on the whole table: with the same draws both
  planners make the same plan, and they report the same out-of-range primary draw.\<close>

theorem plan_eligible_all_like_plan:
  assumes "route_table_new g rs = Ok t"
  shows "plan_eligible_with t (eligibility_all t) sampling primary_draw sample_draw shadow_draw =
    (case plan_with t sampling primary_draw sample_draw shadow_draw of
       Return (Ok pl) \<Rightarrow> Return (Ok pl)
     | Return (Err e) \<Rightarrow> Return (Err (PlanEligibility EligDrawOutOfRange))
     | Panic \<Rightarrow> Panic)"
proof -
  have t: "table_ok t" using assms by (simp add: route_table_new_Ok)
  let ?e = "eligibility_all t" and ?w = "table_eligible_weight t"
  have nz: "?w \<noteq> 0" using t by (simp add: table_ok_def)
  note elig = select_weighted_with_cases [OF t derived_from_all]
  note cases = table_select_with_cases [OF t, of primary_draw]
  show ?thesis
  proof (cases "primary_draw ?w < ?w")
    case True
    with cases obtain r where r: "table_select_with t primary_draw = Return (Ok r)" by auto
    with True have "elig_chosen (t, ?e, \<lambda>r. False) (primary_draw ?w) = Some r"
      unfolding elig_chosen_all [OF t True] by (simp add: table_chosen_def table_select_with_def Let_def)
    with True nz have "eligibility_select_with ?e t primary_draw = Return (Ok (Some r))"
      by (simp add: eligibility_select_with_def elig elig_total_all [OF t] Let_def)
    with r show ?thesis
      by (simp add: plan_eligible_with_def plan_with_def elig select_shadow_eq [OF t] Let_def)
  next
    case False
    with cases nz have "eligibility_select_with ?e t primary_draw = Return (Err EligDrawOutOfRange)"
      by (simp add: eligibility_select_with_def elig elig_total_all [OF t] Let_def)
    with False cases show ?thesis by (simp add: plan_eligible_with_def plan_with_def)
  qed
qed

theorem plan_eligible_all_like_plan_witness:
  "plan_eligible_with sample_table (eligibility_all sample_table) sampling_disabled (\<lambda>n. n) (\<lambda>n. n) (\<lambda>n. n) =
     Return (Err (PlanEligibility EligDrawOutOfRange))"
  using plan_eligible_all_like_plan [OF sample_table_new, of sampling_disabled "\<lambda>n. n" "\<lambda>n. n" "\<lambda>n. n"]
  by (simp add: plan_with_def table_select_with_def Let_def)

text \<open>once the eligibility-aware planner has a primary route it always returns a plan for it: no
  sampling or shadow draw, not even an eligibility decision of another table, makes it fail or
  panic, and a shadow route is eligible and not the primary.\<close>

theorem plan_eligible_shadow_contained:
  assumes "eligibility_select_with e t primary_draw = Return (Ok (Some primary))"
  shows "\<exists>pl. plan_eligible_with t e sampling primary_draw sample_draw shadow_draw = Return (Ok pl) \<and>
    plan_primary pl = route_ident primary \<and>
    (\<forall>i. plan_shadow pl = Some i \<longrightarrow> i \<noteq> route_ident primary \<and> elig_contains e i)"
proof -
  let ?sampled = "case sample_with sampling sample_draw of Ok b \<Rightarrow> b | Err x \<Rightarrow> False"
  let ?ex = "\<lambda>r. route_ident r = route_ident primary"
  let ?sel = "select_weighted_with t e ?ex shadow_draw"
  note narrow = select_weighted_with_narrower [OF assms [unfolded eligibility_select_with_def], of ?ex shadow_draw]
  define shadow where "shadow = (case ?sel of Return (Ok s) \<Rightarrow> s | _ \<Rightarrow> None)"
  have "r \<in> set (selectable t e ?ex)" if "shadow = Some r" for r
    using that narrow(2) by (auto simp: shadow_def split: outcome.splits result.splits)
  then have "route_ident r \<noteq> route_ident primary \<and> elig_contains e (route_ident r)" if "shadow = Some r" for r
    using that by (auto simp: selectable_def)
  moreover have "plan_eligible_with t e sampling primary_draw sample_draw shadow_draw =
      Return (Ok (build_plan t primary ?sampled (if ?sampled then shadow else None)))"
    using narrow(1)
    by (auto simp: plan_eligible_with_def assms shadow_def Let_def split: outcome.splits result.splits)
  ultimately show ?thesis by (auto simp: build_plan_def)
qed

theorem plan_eligible_shadow_contained_witness:
  "\<exists>pl. plan_eligible_with mild_twin_table (eligibility_all sample_table) sampling_always (\<lambda>n. 2) (\<lambda>n. n) (\<lambda>n. n) =
       Return (Ok pl) \<and> plan_primary pl = RouteId ''c''"
proof -
  have "selectable mild_twin_table (eligibility_all sample_table) (\<lambda>r. False) = table_routes mild_twin_table"
    using sample_eligible_ids
    by (simp add: selectable_def elig_contains_def mild_twin_table_def route_new_def
        route_disabled_def del: eligibility_all_fields)
  then have "eligibility_select_with (eligibility_all sample_table) mild_twin_table (\<lambda>n. 2) =
      Return (Ok (Some (route_disabled (route_new (RouteId ''c'') 4))))"
    by (simp add: eligibility_select_with_def select_weighted_with_def mild_twin_table_def route_new_def
        route_disabled_def checked_add_def) (simp add: sample_table_def)
  from plan_eligible_shadow_contained [OF this, of sampling_always "\<lambda>n. n" "\<lambda>n. n"] show ?thesis
    by (auto simp: route_disabled_def route_new_def)
qed

end
