(* ===== verification/Shadow_Execution.thy ===== *)
theory Shadow_Execution
  imports Retry Deadline Shadow
begin

section \<open>Shadow execution policy and outcomes (src/src/shadow_policy.rs, src/src/shadow_outcome.rs)\<close>

text \<open>
  The time and retry budget of shadow traffic, and what an adapter reports of it. The policy
  provides the same \<open>retry_schedule\<close> contract as the retry policy it wraps, with the shadow
  deadline as a second cap.
\<close>

datatype shadow_policy_error = ZeroDeadline

fun shadow_policy_error_display :: "shadow_policy_error \<Rightarrow> string" where
  "shadow_policy_error_display ZeroDeadline = ''shadow deadline must be greater than zero''"

record shadow_policy =
  shadow_deadline :: duration
  shadow_retry_policy :: "retry_policy option"

definition shadow_policy_new :: "duration \<Rightarrow> (shadow_policy, shadow_policy_error) result" where
  "shadow_policy_new d =
     (if dur_is_zero d then Err ZeroDeadline
      else Ok \<lparr>shadow_deadline = d, shadow_retry_policy = None\<rparr>)"

definition with_retry_policy :: "shadow_policy \<Rightarrow> retry_policy \<Rightarrow> shadow_policy" where
  "with_retry_policy s p = s\<lparr>shadow_retry_policy := Some p\<rparr>"

definition effective_deadline :: "shadow_policy \<Rightarrow> duration \<Rightarrow> duration" where
  "effective_deadline s primary_remaining = min (shadow_deadline s) primary_remaining"

definition retries_enabled :: "shadow_policy \<Rightarrow> bool" where
  "retries_enabled s \<longleftrightarrow> shadow_retry_policy s \<noteq> None"

definition next_retry_delay ::
    "'w draw_inclusive \<Rightarrow> shadow_policy \<Rightarrow> u32 \<Rightarrow> duration \<Rightarrow> retry_decision \<Rightarrow> 'w \<Rightarrow>
     duration option \<times> 'w" where
  "next_retry_delay rng s attempt elapsed decision w =
     (case shadow_retry_policy s of
       None \<Rightarrow> (None, w)
     | Some p \<Rightarrow>
         (case next_delay rng p attempt elapsed decision w of
           (None, w') \<Rightarrow> (None, w')
         | (Some delay, w') \<Rightarrow>
             ((if dur_add elapsed delay \<le> shadow_deadline s then Some delay else None), w')))"

lemma next_retry_delay_Some:
  "fst (next_retry_delay rng s a e dec w) = Some d \<longleftrightarrow>
     (\<exists>p. shadow_retry_policy s = Some p \<and> fst (next_delay rng p a e dec w) = Some d) \<and>
     dur_add e d \<le> shadow_deadline s"
  by (auto simp: next_retry_delay_def split: option.splits prod.splits)

definition shadow_admits ::
    "'w draw_inclusive \<Rightarrow> shadow_policy \<Rightarrow> u32 \<Rightarrow> duration \<times> retry_decision \<times> 'w \<Rightarrow> duration option" where
  "shadow_admits rng s a x = (case x of (e, dec, w) \<Rightarrow> fst (next_retry_delay rng s a e dec w))"

definition shadow_attempts :: "shadow_policy \<Rightarrow> u32" where
  "shadow_attempts s = (case shadow_retry_policy s of None \<Rightarrow> 0 | Some p \<Rightarrow> nz_get (max_attempts p))"

definition shadow_cap :: "shadow_policy \<Rightarrow> duration" where
  "shadow_cap s = (case shadow_retry_policy s of
     None \<Rightarrow> shadow_deadline s | Some p \<Rightarrow> min (maximum (backoff p)) (shadow_deadline s))"

lemma dur_add_ge_right: "d \<le> dur_add e d"
  using as_nanos_le [of d] by (simp add: dur)

lemma shadow_admits_SomeD:
  assumes "shadow_admits rng s a x = Some d"
  shows "a < shadow_attempts s" and "draw_ok rng \<Longrightarrow> d \<le> shadow_cap s"
proof -
  obtain e dec w where x: "x = (e, dec, w)" by (cases x)
  from assms obtain p where p: "shadow_retry_policy s = Some p" "fst (next_delay rng p a e dec w) = Some d"
    and le: "dur_add e d \<le> shadow_deadline s"
    by (auto simp: x shadow_admits_def next_retry_delay_Some)
  then have admits: "policy_admits rng p a x = Some d" by (simp add: x policy_admits_def)
  show "a < shadow_attempts s"
    using policy_admits_SomeD(1) [OF admits] by (simp add: shadow_attempts_def p(1))
  show "d \<le> shadow_cap s" if "draw_ok rng"
    using policy_admits_SomeD(2) [OF admits that] order_trans [OF dur_add_ge_right le]
    by (simp add: shadow_cap_def p(1))
qed

interpretation shadow: retry_schedule
  "\<lambda>(rng, s). shadow_admits rng s" "\<lambda>(rng, s). draw_ok rng"
  "\<lambda>(rng, s). shadow_attempts s" "\<lambda>(rng, s). shadow_cap s"
  by standard (auto dest: shadow_admits_SomeD)

subsection \<open>Outcomes and observations\<close>

datatype 'e shadow_outcome =
  ShadowSucceeded | ShadowOverloaded | ShadowCancelled | ShadowDeadlineExceeded | ShadowFailed 'e

fun shadow_is_success :: "'e shadow_outcome \<Rightarrow> bool" where
  "shadow_is_success ShadowSucceeded = True"
| "shadow_is_success _ = False"

fun shadow_error :: "'e shadow_outcome \<Rightarrow> 'e option" where
  "shadow_error (ShadowFailed e) = Some e"
| "shadow_error _ = None"

fun shadow_map_error :: "('e \<Rightarrow> 'f) \<Rightarrow> 'e shadow_outcome \<Rightarrow> 'f shadow_outcome" where
  "shadow_map_error f ShadowSucceeded = ShadowSucceeded"
| "shadow_map_error f ShadowOverloaded = ShadowOverloaded"
| "shadow_map_error f ShadowCancelled = ShadowCancelled"
| "shadow_map_error f ShadowDeadlineExceeded = ShadowDeadlineExceeded"
| "shadow_map_error f (ShadowFailed e) = ShadowFailed (f e)"

lemma shadow_map_error_id [simp]: "shadow_map_error (\<lambda>e. e) o' = o'"
  by (cases o') auto

lemma shadow_map_error_comp: "shadow_map_error g (shadow_map_error f o') = shadow_map_error (g \<circ> f) o'"
  by (cases o') auto

lemma shadow_map_error_class [simp]:
  "shadow_is_success (shadow_map_error f o') = shadow_is_success o'"
  "shadow_error (shadow_map_error f o') = map_option f (shadow_error o')"
  by (cases o'; simp)+

record shadow_observation =
  observed_generation :: u64
  observed_route :: route_id

definition observation_from_plan :: "route_plan \<Rightarrow> shadow_observation option" where
  "observation_from_plan p =
     (case plan_shadow p of
       None \<Rightarrow> None
     | Some i \<Rightarrow> Some \<lparr>observed_generation = plan_generation p, observed_route = i\<rparr>)"

subsection \<open>Properties\<close>

text \<open>C30: shadow retries stay inside both budgets: without a retry policy there are none; with one there
  are fewer than its attempts, every admitted delay is within the backoff's maximum, and the elapsed
  time plus the delay is within the shadow deadline.\<close>

theorem shadow_retries_bounded:
  assumes "draw_ok rng"
  shows "length (granted (shadow_admits rng s) 1 qs) \<le> unat (shadow_attempts s) - 1 \<and>
    (shadow_retry_policy s = None \<longrightarrow> granted (shadow_admits rng s) 1 qs = []) \<and>
    list_all (\<lambda>d. d \<le> shadow_cap s) (granted (shadow_admits rng s) 1 qs) \<and>
    (\<forall>a e dec w d. fst (next_retry_delay rng s a e dec w) = Some d \<longrightarrow> dur_add e d \<le> shadow_deadline s)"
proof -
  have len: "length (granted (shadow_admits rng s) 1 qs) \<le> unat (shadow_attempts s) - 1"
    using shadow.granted_bounded [of "(rng, s)" 1 qs] by simp
  moreover have "granted (shadow_admits rng s) 1 qs = []" if "shadow_retry_policy s = None"
    using len that by (simp add: shadow_attempts_def)
  moreover have "list_all (\<lambda>d. d \<le> shadow_cap s) (granted (shadow_admits rng s) 1 qs)"
    using shadow.granted_capped [of "(rng, s)" 1 qs] assms by simp
  ultimately show ?thesis by (simp add: next_retry_delay_Some)
qed

theorem shadow_retries_bounded_witness:
  "length (granted (shadow_admits (\<lambda>n w. (n, w))
     (with_retry_policy \<lparr>shadow_deadline = from_millis 50, shadow_retry_policy = None\<rparr> three_attempts)) 1
     (replicate 5 (from_millis 1, Retry, ()))) \<le> 2"
proof -
  let ?s = "with_retry_policy \<lparr>shadow_deadline = from_millis 50, shadow_retry_policy = None\<rparr> three_attempts"
  have "draw_ok (\<lambda>n w. (n, w))" by (simp add: draw_ok_def)
  from shadow_retries_bounded [OF this, of ?s "replicate 5 (from_millis 1, Retry, ())"] show ?thesis
    by (simp add: shadow_attempts_def with_retry_policy_def three_attempts_def policy_new_def)
qed

text \<open>the shadow never outlives the primary request: clamped to what remains of a logical budget, a
  shadow execution that ends before its effective deadline leaves the budget unexhausted, and it never
  gets more than its own deadline.\<close>

theorem shadow_within_request:
  assumes "remaining b e = Some r" and "t < effective_deadline s r"
  shows "\<not> is_exhausted b (dur_add e t) \<and> t < shadow_deadline s \<and>
    effective_deadline s r = clamp_child b e (shadow_deadline s)"
proof -
  have eq: "effective_deadline s r = clamp_child b e (shadow_deadline s)"
    using assms(1) by (simp add: effective_deadline_def clamp_child_def)
  then have "\<not> is_exhausted b (dur_add e t)" using budget.clamp_safe assms(2) by simp
  moreover have "t < shadow_deadline s" using assms(2) by (simp add: effective_deadline_def)
  ultimately show ?thesis using eq by simp
qed

theorem shadow_within_request_witness:
  "\<not> is_exhausted (bounded (from_millis 100)) (dur_add (from_millis 70) (from_millis 20))"
proof -
  have "remaining (bounded (from_millis 100)) (from_millis 70) = Some (from_millis 30)"
    by (simp add: budget_defs dur duration_max_def)
  moreover have "from_millis 20 < effective_deadline
      \<lparr>shadow_deadline = from_millis 50, shadow_retry_policy = None\<rparr> (from_millis 30)"
    by (simp add: effective_deadline_def dur duration_max_def)
  ultimately show ?thesis by (rule shadow_within_request [THEN conjunct1])
qed

text \<open>an observation exists exactly for the plans with a shadow route, and on a validated table it
  names the generation planned from and an enabled route that is not the primary.\<close>

theorem observation_of_planned_shadow:
  assumes "route_table_new g rs = Ok t"
    and "plan_with t sampling pd sd shd = Return (Ok pl)" and "observation_from_plan pl = Some ob"
  shows "observed_generation ob = g \<and> plan_shadow pl = Some (observed_route ob) \<and>
    observed_route ob \<noteq> plan_primary pl \<and> (\<exists>r \<in> set rs. live r \<and> route_ident r = observed_route ob)"
proof -
  have t: "table_ok t" "table_routes t = rs" "table_generation t = g"
    using assms(1) by (simp_all add: route_table_new_Ok)
  let ?sampled = "case sample_with sampling sd of Ok b \<Rightarrow> b | Err x \<Rightarrow> False"
  from assms(2) obtain p where p: "table_select_with t pd = Return (Ok p)"
    by (auto simp: plan_with_def split: outcome.splits result.splits)
  with assms(2) have pl: "pl = build_plan t p ?sampled (if ?sampled then select_shadow t p shd else None)"
    by (simp add: plan_with_def Let_def)
  from assms(3) have ob: "plan_shadow pl = Some (observed_route ob)" "observed_generation ob = plan_generation pl"
    by (auto simp: observation_from_plan_def split: option.splits)
  then obtain r where r: "select_shadow t p shd = Some r" "route_ident r = observed_route ob"
    by (auto simp: pl build_plan_def split: if_splits)
  from select_shadow_Some [OF t(1) r(1)] r(2) ob t show ?thesis
    by (auto simp: pl build_plan_def)
qed

theorem observation_of_planned_shadow_witness:
  "\<exists>pl. plan_with sample_table sampling_always (\<lambda>n. 0) (\<lambda>n. n) (\<lambda>n. 1) = Return (Ok pl) \<and>
     observation_from_plan pl = Some \<lparr>observed_generation = 7, observed_route = RouteId ''c''\<rparr> \<and>
     plan_primary pl \<noteq> RouteId ''c''"
proof -
  let ?pl = "\<lparr>plan_generation = 7, plan_primary = RouteId ''a'', plan_shadow = Some (RouteId ''c''),
       plan_shadow_sampled = True\<rparr>"
  have pl: "plan_with sample_table sampling_always (\<lambda>n. 0) (\<lambda>n. n) (\<lambda>n. 1) = Return (Ok ?pl)"
    by (simp add: plan_with_def table_select_with_def sample_table_def sample_routes_def route_new_def
        route_disabled_def sampling_always_def sample_with_def shadow_parts_per_million_def
        select_shadow_def checked_add_def build_plan_def Let_def word_le_nat_alt)
  have ob: "observation_from_plan ?pl = Some \<lparr>observed_generation = 7, observed_route = RouteId ''c''\<rparr>"
    by (simp add: observation_from_plan_def)
  from observation_of_planned_shadow [OF sample_table_new pl ob] pl ob show ?thesis by auto
qed

end
