(* ===== verification/Resource_Registry.thy ===== *)
theory Resource_Registry
  imports Retry_Budget Circuit_Breaker Bulkhead Routing
begin

section \<open>The registry of route resources (src/src/resource_registry.rs)\<close>

text \<open>
  The registry hands out shared, mutable execution resources, so aliasing matters: the mutable
  cells (a breaker's state behind its mutex, a bulkhead's counter, a budget's tokens) live at
  addresses of an explicit memory, and an \<open>Arc\<close> is an address. A set of route resources is six
  addresses, three for each namespace. \<open>get_or_create\<close> takes two locks one after the other, a read
  lock and, after a miss, a write lock, so it is two operations between which others may run.
\<close>

subsection \<open>Policies, cells and memory\<close>

record resource_policy =
  policy_breaker :: circuit_breaker_config
  policy_capacity :: nz_usize
  policy_budget :: retry_budget_config

definition resource_policy_new ::
    "circuit_breaker_config \<Rightarrow> nz_usize \<Rightarrow> retry_budget_config \<Rightarrow> resource_policy" where
  "resource_policy_new c n b = \<lparr>policy_breaker = c, policy_capacity = n, policy_budget = b\<rparr>"

datatype cell =
  BreakerCell circuit_breaker_config shared | BulkheadCell bulkhead | BudgetCell shared_retry_budget

record memory =
  cells :: "nat \<Rightarrow> cell option"
  next_free :: nat

definition alloc :: "cell \<Rightarrow> memory \<Rightarrow> nat \<times> memory" where
  "alloc c m = (next_free m, \<lparr>cells = (cells m)(next_free m \<mapsto> c), next_free = Suc (next_free m)\<rparr>)"

definition update_cell :: "nat \<Rightarrow> (cell \<Rightarrow> cell) \<Rightarrow> memory \<Rightarrow> memory" where
  "update_cell a f m = m\<lparr>cells := (cells m)(a := map_option f (cells m a))\<rparr>"

subsection \<open>Resources\<close>

text \<open>
  The two namespaces have types of their own, \<open>PrimaryRouteResources\<close> and \<open>ShadowRouteResources\<close>,
  that differ in the type of their retry budget.
\<close>

record primary_resources =
  primary_breaker :: nat
  primary_bulkhead :: nat
  primary_budget :: nat

record shadow_resources =
  shadow_breaker :: nat
  shadow_bulkhead :: nat
  shadow_budget :: nat

record route_resources =
  resources_primary :: primary_resources
  resources_shadow :: shadow_resources

definition primary_resources_new :: "resource_policy \<Rightarrow> memory \<Rightarrow> primary_resources \<times> memory" where
  "primary_resources_new p m0 =
     (let (c, m1) = alloc (BreakerCell (policy_breaker p) breaker_new) m0;
          (b, m2) = alloc (BulkheadCell (bulkhead_new (policy_capacity p))) m1;
          (r, m3) = alloc (BudgetCell (inner (ns_new (policy_budget p) :: primary_retry_budget))) m2
      in (\<lparr>primary_breaker = c, primary_bulkhead = b, primary_budget = r\<rparr>, m3))"

definition shadow_resources_new :: "resource_policy \<Rightarrow> memory \<Rightarrow> shadow_resources \<times> memory" where
  "shadow_resources_new p m0 =
     (let (c, m1) = alloc (BreakerCell (policy_breaker p) breaker_new) m0;
          (b, m2) = alloc (BulkheadCell (bulkhead_new (policy_capacity p))) m1;
          (r, m3) = alloc (BudgetCell (inner (ns_new (policy_budget p) :: shadow_retry_budget))) m2
      in (\<lparr>shadow_breaker = c, shadow_bulkhead = b, shadow_budget = r\<rparr>, m3))"

definition route_resources_new ::
    "resource_policy \<Rightarrow> resource_policy \<Rightarrow> memory \<Rightarrow> route_resources \<times> memory" where
  "route_resources_new pp sp m =
     (let (p, m1) = primary_resources_new pp m; (s, m2) = shadow_resources_new sp m1
      in (\<lparr>resources_primary = p, resources_shadow = s\<rparr>, m2))"

definition primary_cells :: "route_resources \<Rightarrow> nat list" where
  "primary_cells r = (let p = resources_primary r in [primary_breaker p, primary_bulkhead p, primary_budget p])"

definition shadow_cells :: "route_resources \<Rightarrow> nat list" where
  "shadow_cells r = (let s = resources_shadow r in [shadow_breaker s, shadow_bulkhead s, shadow_budget s])"

definition all_cells :: "route_resources \<Rightarrow> nat list" where
  "all_cells r = primary_cells r @ shadow_cells r"

subsection \<open>The registry\<close>

record registry =
  registry_primary_policy :: resource_policy
  registry_shadow_policy :: resource_policy
  registry_routes :: "route_id \<Rightarrow> route_resources option"

definition registry_new :: "resource_policy \<Rightarrow> resource_policy \<Rightarrow> registry" where
  "registry_new pp sp =
     \<lparr>registry_primary_policy = pp, registry_shadow_policy = sp, registry_routes = Map.empty\<rparr>"

type_synonym registry_state = "memory \<times> registry"

definition registry_get :: "registry_state \<Rightarrow> route_id \<Rightarrow> route_resources option" where
  "registry_get st i = (case st of (m, g) \<Rightarrow> registry_routes g i)"

text \<open>The second half of \<open>get_or_create\<close>: \<open>entry(id).or_insert_with(..)\<close> under the write lock.\<close>

definition entry_or_insert :: "registry_state \<Rightarrow> route_id \<Rightarrow> route_resources \<times> registry_state" where
  "entry_or_insert st i =
     (case st of (m, g) \<Rightarrow>
       (case registry_routes g i of
         Some r \<Rightarrow> (r, (m, g))
       | None \<Rightarrow>
           (case route_resources_new (registry_primary_policy g) (registry_shadow_policy g) m of
             (r, m') \<Rightarrow> (r, (m', g\<lparr>registry_routes := (registry_routes g)(i \<mapsto> r)\<rparr>)))))"

definition get_or_create :: "registry_state \<Rightarrow> route_id \<Rightarrow> route_resources \<times> registry_state" where
  "get_or_create st i =
     (case registry_get st i of Some r \<Rightarrow> (r, st) | None \<Rightarrow> entry_or_insert st i)"

definition registry_retire :: "registry_state \<Rightarrow> route_id \<Rightarrow> route_resources option \<times> registry_state" where
  "registry_retire st i =
     (case st of (m, g) \<Rightarrow> (registry_routes g i, (m, g\<lparr>registry_routes := (registry_routes g)(i := None)\<rparr>)))"

definition registry_len :: "registry_state \<Rightarrow> nat" where
  "registry_len st = card (dom (registry_routes (snd st)))"

definition registry_is_empty :: "registry_state \<Rightarrow> bool" where
  "registry_is_empty st \<longleftrightarrow> registry_len st = 0"

definition retire_state :: "registry_state \<Rightarrow> route_id \<Rightarrow> registry_state" where
  "retire_state st i = snd (registry_retire st i)"

lemmas registry_defs = registry_get_def entry_or_insert_def registry_retire_def retire_state_def

interpretation resources: keyed_registry registry_get entry_or_insert retire_state
  by unfold_locales
    (auto simp: registry_defs split: prod.splits option.splits)

subsection \<open>Allocation is fresh\<close>

lemma route_resources_new_fields:
  assumes "route_resources_new pp sp m = (r, m')"
  shows "all_cells r = [next_free m ..< next_free m + 6]"
    and "next_free m' = next_free m + 6"
    and "a < next_free m \<Longrightarrow> cells m' a = cells m a"
    and "map (cells m') (all_cells r) = map Some
      [BreakerCell (policy_breaker pp) breaker_new, BulkheadCell (bulkhead_new (policy_capacity pp)),
       BudgetCell (budget_new (policy_budget pp)), BreakerCell (policy_breaker sp) breaker_new,
       BulkheadCell (bulkhead_new (policy_capacity sp)), BudgetCell (budget_new (policy_budget sp))]"
  using assms
  by (auto simp: route_resources_new_def primary_resources_new_def shadow_resources_new_def alloc_def
      ns_new_def all_cells_def primary_cells_def shadow_cells_def upt_rec Let_def)

text \<open>Where an acquired handle comes from: it is the registered one, or it is new.\<close>

lemma entry_or_insert_cases:
  obtains (found) r where "registry_get st i = Some r" "entry_or_insert st i = (r, st)"
  | (created) r m' where "registry_get st i = None"
    "route_resources_new (registry_primary_policy (snd st)) (registry_shadow_policy (snd st)) (fst st) = (r, m')"
    "entry_or_insert st i =
      (r, (m', (snd st)\<lparr>registry_routes := (registry_routes (snd st))(i \<mapsto> r)\<rparr>))"
proof (cases "registry_get st i")
  case None
  obtain r m' where "route_resources_new (registry_primary_policy (snd st))
      (registry_shadow_policy (snd st)) (fst st) = (r, m')"
    by fastforce
  with None show thesis by (intro created) (auto simp: registry_defs split: prod.splits)
next
  case (Some r)
  then show thesis by (intro found [of r]) (auto simp: registry_defs split: prod.splits)
qed

text \<open>The shared guard is an optimisation: for one caller the first lookup changes nothing of what
  \<open>entry(id).or_insert_with(..)\<close> does.\<close>

lemma get_or_create_eq: "get_or_create st i = entry_or_insert st i"
  by (cases rule: entry_or_insert_cases [of st i]) (simp_all add: get_or_create_def)

text \<open>The number of registered routes; the map of a running registry is finite.\<close>

lemma registry_len_ops:
  assumes "finite (dom (registry_routes (snd st)))"
  shows "registry_is_empty (m, registry_new pp sp)"
    and "registry_len (snd (get_or_create st i)) =
      (if registry_get st i = None then Suc (registry_len st) else registry_len st)"
    and "registry_len (retire_state st i) = (if registry_get st i = None then registry_len st else registry_len st - 1)"
    and "registry_is_empty st \<longleftrightarrow> (\<forall>i. registry_get st i = None)"
proof -
  show "registry_is_empty (m, registry_new pp sp)" by (simp add: registry_is_empty_def registry_len_def registry_new_def)
  show "registry_len (snd (get_or_create st i)) =
      (if registry_get st i = None then Suc (registry_len st) else registry_len st)"
    unfolding get_or_create_eq
  proof (cases rule: entry_or_insert_cases [of st i])
    case (found r)
    then show "registry_len (snd (entry_or_insert st i)) =
        (if registry_get st i = None then Suc (registry_len st) else registry_len st)"
      by simp
  next
    case (created r m')
    then have "i \<notin> dom (registry_routes (snd st))" by (simp add: registry_get_def split_beta domIff)
    with assms created show "registry_len (snd (entry_or_insert st i)) =
        (if registry_get st i = None then Suc (registry_len st) else registry_len st)"
      by (simp add: registry_len_def)
  qed
  show "registry_len (retire_state st i) = (if registry_get st i = None then registry_len st else registry_len st - 1)"
    using assms by (auto simp: registry_defs registry_len_def split_beta domIff card_Diff_singleton_if)
  show "registry_is_empty st \<longleftrightarrow> (\<forall>i. registry_get st i = None)"
    using assms by (auto simp: registry_is_empty_def registry_len_def registry_get_def split_beta dom_def)
qed

subsection \<open>No two sets of resources share a cell\<close>

definition registered :: "registry_state \<Rightarrow> (route_id \<times> route_resources) set" where
  "registered st = {(i, r). registry_get st i = Some r}"

definition separate :: "route_id \<times> route_resources \<Rightarrow> route_id \<times> route_resources \<Rightarrow> bool" where
  "separate x y \<longleftrightarrow> x = y \<or> set (all_cells (snd x)) \<inter> set (all_cells (snd y)) = {}"

definition registry_inv :: "registry_state \<Rightarrow> bool" where
  "registry_inv st \<longleftrightarrow>
     (\<forall>x \<in> registered st. distinct (all_cells (snd x)) \<and> set (all_cells (snd x)) \<subseteq> {..<next_free (fst st)}) \<and>
     (\<forall>x \<in> registered st. \<forall>y \<in> registered st. separate x y)"

abbreviation registry_ops :: "registry_state \<Rightarrow> route_id registry_op \<Rightarrow> registry_state" where
  "registry_ops \<equiv> registry_step entry_or_insert retire_state"

abbreviation handles :: "registry_state \<Rightarrow> route_id registry_op list \<Rightarrow> (route_id \<times> route_resources) list" where
  "handles \<equiv> answers registry_get entry_or_insert retire_state"

lemma registry_inv_new: "registry_inv (m, registry_new pp sp)"
  by (simp add: registry_inv_def registered_def registry_get_def registry_new_def)

lemma registered_retire: "registered (retire_state st i) \<subseteq> registered st"
  by (auto simp: registered_def registry_defs split: prod.splits if_splits)

lemma next_free_retire [simp]: "next_free (fst (retire_state st i)) = next_free (fst st)"
  by (simp add: registry_defs split: prod.splits)

lemma registered_created:
  "registered (m', (snd st)\<lparr>registry_routes := (registry_routes (snd st))(i \<mapsto> r)\<rparr>) \<subseteq>
     insert (i, r) (registered st)"
  by (auto simp: registered_def registry_get_def split: prod.splits if_splits)

lemma registry_inv_step:
  assumes "registry_inv st"
  shows "registry_inv (registry_ops st x)"
proof (cases x)
  case (Acquire_Handle i)
  show ?thesis
  proof (cases rule: entry_or_insert_cases [of st i])
    case (found r)
    with assms Acquire_Handle show ?thesis by simp
  next
    case (created r m')
    note new = route_resources_new_fields [OF created(2)]
    let ?st = "(m', (snd st)\<lparr>registry_routes := (registry_routes (snd st))(i \<mapsto> r)\<rparr>)"
    have old: "distinct (all_cells (snd y))" "set (all_cells (snd y)) \<subseteq> {..<next_free (fst st)}"
      if "y \<in> registered st" for y
      using assms that by (auto simp: registry_inv_def)
    have fresh: "separate (i, r) y" "separate y (i, r)" if "y \<in> registered st" for y
      using old(2) [OF that] by (auto simp: separate_def new(1))
    have "registry_inv ?st"
      unfolding registry_inv_def
    proof (intro conjI ballI)
      fix y assume "y \<in> registered ?st"
      then have y: "y = (i, r) \<or> y \<in> registered st" using registered_created by blast
      then show "distinct (all_cells (snd y))" using old(1) by (metis distinct_upt new(1) snd_conv)
      from y show "set (all_cells (snd y)) \<subseteq> {..<next_free (fst ?st)}"
      proof
        assume "y \<in> registered st"
        from subset_trans [OF old(2) [OF this]] show ?thesis by (simp add: new(2) lessThan_subset_iff)
      qed (auto simp: new(1,2))
      fix z assume "z \<in> registered ?st"
      then have "z = (i, r) \<or> z \<in> registered st" using registered_created by blast
      moreover have "separate u v" if "u \<in> registered st" "v \<in> registered st" for u v
        using assms that unfolding registry_inv_def by blast
      moreover have "separate (i, r) (i, r)" by (simp add: separate_def)
      ultimately show "separate y z" using fresh y by blast
    qed
    then show ?thesis by (simp add: Acquire_Handle created(3))
  qed
next
  case (Discard i)
  have "registry_inv (retire_state st i)"
    using assms registered_retire [of st i] unfolding registry_inv_def next_free_retire by blast
  then show ?thesis by (simp add: Discard)
qed (use assms in simp)

interpretation registry_run: state_machine registry_ops registry_inv "\<lambda>x. True"
  by unfold_locales (rule registry_inv_step)

text \<open>A handle that is answered is registered now, or its cells are allocated later.\<close>

lemma handles_fresh:
  assumes "x \<in> set (handles st xs)"
  shows "x \<in> registered st \<or> (\<forall>a \<in> set (all_cells (snd x)). next_free (fst st) \<le> a)"
  using assms
proof (induction xs arbitrary: st)
  case (Cons op xs)
  show ?case
  proof (cases op)
    case (Find i)
    with Cons.prems have "x \<in> registered st \<or> x \<in> set (handles st xs)"
      by (auto simp: registered_def split: option.splits)
    with Cons.IH [of st] show ?thesis by blast
  next
    case (Discard i)
    with Cons.prems Cons.IH [of "retire_state st i"] registered_retire [of st i] show ?thesis
      by auto
  next
    case (Acquire_Handle i)
    show ?thesis
    proof (cases rule: entry_or_insert_cases [of st i])
      case (found r)
      with Cons.prems Acquire_Handle have "x \<in> registered st \<or> x \<in> set (handles st xs)"
        by (auto simp: registered_def)
      with Cons.IH [of st] show ?thesis by blast
    next
      case (created r m')
      note new = route_resources_new_fields [OF created(2)]
      let ?st = "(m', (snd st)\<lparr>registry_routes := (registry_routes (snd st))(i \<mapsto> r)\<rparr>)"
      from Cons.prems have "x = (i, r) \<or> x \<in> set (handles ?st xs)"
        by (auto simp: Acquire_Handle created(3))
      then have "x = (i, r) \<or> x \<in> registered ?st \<or> (\<forall>a \<in> set (all_cells (snd x)). next_free m' \<le> a)"
        using Cons.IH [of ?st] by auto
      moreover have "registered ?st \<subseteq> insert (i, r) (registered st)" by (rule registered_created)
      ultimately show ?thesis by (auto simp: new(1,2))
    qed
  qed
qed simp

lemma handles_Cons:
  obtains hs where "handles st (op # xs) = hs @ handles (registry_ops st op) xs"
    and "set hs \<subseteq> registered (registry_ops st op)"
proof (cases op)
  case (Find i)
  show thesis
    by (rule that [of "case registry_get st i of None \<Rightarrow> [] | Some r \<Rightarrow> [(i, r)]"])
      (auto simp: Find registered_def split: option.splits)
next
  case (Acquire_Handle i)
  show thesis
    by (rule that [of "[(i, fst (entry_or_insert st i))]"])
      (simp_all add: Acquire_Handle registered_def resources.lookup_acquired)
next
  case (Discard i)
  show thesis by (rule that [of "[]"]) (simp_all add: Discard)
qed

lemma registered_separate:
  assumes "registry_inv st" and "z \<in> registered st" and "u \<in> registered st \<union> set (handles st xs)"
  shows "separate z u" and "separate u z"
proof -
  have z: "set (all_cells (snd z)) \<subseteq> {..<next_free (fst st)}"
    using assms(1,2) by (auto simp: registry_inv_def)
  consider "u \<in> registered st" | "\<forall>a \<in> set (all_cells (snd u)). next_free (fst st) \<le> a"
    using assms(3) handles_fresh by blast
  then have "separate z u \<and> separate u z"
  proof cases
    case 2
    then have "set (all_cells (snd z)) \<inter> set (all_cells (snd u)) = {}" using z by fastforce
    then show ?thesis by (auto simp: separate_def)
  qed (use assms(1,2) in \<open>auto simp: registry_inv_def\<close>)
  then show "separate z u" and "separate u z" by simp_all
qed

lemma next_free_step: "next_free (fst st) \<le> next_free (fst (registry_ops st op))"
proof (cases op)
  case (Acquire_Handle i)
  then show ?thesis
    by (cases rule: entry_or_insert_cases [of st i]) (simp_all add: route_resources_new_fields(2))
qed simp_all

lemma next_free_run: "next_free (fst st) \<le> next_free (fst (run registry_ops st xs))"
  by (induction xs arbitrary: st) (simp_all, meson next_free_step order_trans)

lemma handles_allocated:
  "registry_inv st \<Longrightarrow> x \<in> set (handles st xs) \<Longrightarrow>
     set (all_cells (snd x)) \<subseteq> {..<next_free (fst (run registry_ops st xs))}"
proof (induction xs arbitrary: st)
  case (Cons op xs)
  let ?st = "registry_ops st op"
  have inv: "registry_inv ?st" using Cons.prems(1) by (rule registry_inv_step)
  obtain hs where hs: "handles st (op # xs) = hs @ handles ?st xs" "set hs \<subseteq> registered ?st"
    by (rule handles_Cons)
  with Cons.prems(2) consider "x \<in> registered ?st" | "x \<in> set (handles ?st xs)" by auto
  then show ?case
  proof cases
    case 1
    then have "set (all_cells (snd x)) \<subseteq> {..<next_free (fst ?st)}"
      using inv by (auto simp: registry_inv_def)
    with next_free_run [of ?st xs] show ?thesis by (simp only: run.simps) (meson lessThan_subset_iff order_trans)
  next
    case 2
    with Cons.IH [OF inv] show ?thesis by (simp only: run.simps)
  qed
qed simp

lemma handles_separate:
  assumes "registry_inv st" and "x \<in> set (handles st xs)" and "y \<in> set (handles st xs)"
  shows "distinct (all_cells (snd x)) \<and> separate x y"
  using assms
proof (induction xs arbitrary: st x y)
  case (Cons op xs)
  let ?st = "registry_ops st op"
  have inv: "registry_inv ?st" using Cons.prems(1) by (rule registry_inv_step)
  obtain hs where hs: "handles st (op # xs) = hs @ handles ?st xs" "set hs \<subseteq> registered ?st"
    by (rule handles_Cons)
  from Cons.prems(2,3) hs have x: "x \<in> registered ?st \<or> x \<in> set (handles ?st xs)"
    and y: "y \<in> registered ?st \<or> y \<in> set (handles ?st xs)"
    by auto
  have "distinct (all_cells (snd x))"
    using x Cons.IH [OF inv] inv unfolding registry_inv_def by blast
  moreover have "separate x y"
    using x y registered_separate [OF inv] Cons.IH [OF inv] by blast
  ultimately show ?case by simp
qed simp

text \<open>What is answered for a route after it was retired lies in cells that were free when it was.\<close>

lemma handles_append: "handles st (xs @ ys) = handles st xs @ handles (run registry_ops st xs) ys"
proof (induction xs arbitrary: st)
  case (Cons x xs)
  then show ?case by (cases x) (simp_all split: option.split)
qed simp

lemma handles_after_retire:
  assumes "(i, r) \<in> set (handles (retire_state st i) ys)"
  shows "\<forall>a \<in> set (all_cells r). next_free (fst st) \<le> a"
  using handles_fresh [OF assms] by (simp add: registered_def resources.discard_same)

subsection \<open>Properties\<close>

text \<open>C24: concurrent first lookups converge: as long as nobody retires a route, all the callers that look
  it up, in any interleaving of the read and write locks they take, get the same resources.\<close>

theorem lookups_converge:
  assumes "Discard i \<notin> set xs"
    and "(i, r) \<in> set (handles st xs)" and "(i, r') \<in> set (handles st xs)"
  shows "r = r'"
  using assms by (rule resources.answers_agree)

definition sample_policy :: resource_policy where
  "sample_policy = resource_policy_new sample_breaker_config (nz_of 2) (budget_config_new (nz_of 3) (nz_of 1))"

definition sample_registry :: registry_state where
  "sample_registry = (\<lparr>cells = Map.empty, next_free = 0\<rparr>, registry_new sample_policy sample_policy)"

theorem lookups_converge_witness:
  "\<exists>r r'. handles sample_registry [Acquire_Handle (RouteId ''a''), Acquire_Handle (RouteId ''b''),
      Acquire_Handle (RouteId ''a'')] = [(RouteId ''a'', r), (RouteId ''b'', r'), (RouteId ''a'', r)]"
proof -
  let ?xs = "[Acquire_Handle (RouteId ''a''), Acquire_Handle (RouteId ''b''), Acquire_Handle (RouteId ''a'')]"
  have shape: "\<exists>r r' r''. handles sample_registry ?xs = [(RouteId ''a'', r), (RouteId ''b'', r'), (RouteId ''a'', r'')]"
    by simp
  then obtain r r' r'' where h: "handles sample_registry ?xs =
      [(RouteId ''a'', r), (RouteId ''b'', r'), (RouteId ''a'', r'')]"
    by blast
  have "r = r''" by (rule lookups_converge [of "RouteId ''a''" ?xs _ sample_registry]) (simp_all add: h del: answers.simps)
  with h show ?thesis by blast
qed

text \<open>C23: resources are isolated. Take a handle that a new registry ever answers, and one that it answers later, after the
  operations \<open>ys\<close>. If they are of different routes, or of one route that was retired in between, they share no mutable
  cell, so a retired incarnation and the next one are separate; and within one handle the breaker, bulkhead and budget of
  the primary namespace are not those of the shadow.\<close>

theorem resources_isolated:
  assumes "(i, r) \<in> set (handles (m, registry_new pp sp) xs)"
    and "(i', r') \<in> set (handles (run registry_ops (m, registry_new pp sp) (xs @ ys)) zs)"
    and "i \<noteq> i' \<or> Discard i \<in> set ys"
  shows "set (all_cells r) \<inter> set (all_cells r') = {} \<and>
    distinct (primary_cells r @ shadow_cells r) \<and> distinct (primary_cells r' @ shadow_cells r')"
proof -
  let ?st = "(m, registry_new pp sp)"
  have all: "(i, r) \<in> set (handles ?st (xs @ ys @ zs))" "(i', r') \<in> set (handles ?st (xs @ ys @ zs))"
    using assms(1,2) by (auto simp: handles_append run_append)
  note sep = handles_separate [OF registry_inv_new all] handles_separate [OF registry_inv_new all(2) all(1)]
  have "set (all_cells r) \<inter> set (all_cells r') = {}"
  proof (cases "i = i'")
    case False
    with sep(1) show ?thesis by (simp add: separate_def)
  next
    case True
    with assms(3) obtain us vs where ys: "ys = us @ Discard i # vs" by (meson split_list)
    let ?retired = "run registry_ops ?st (xs @ us)"
    have "(i, r') \<in> set (handles (retire_state ?retired i) (vs @ zs))"
      using assms(2) True by (simp add: ys run_append handles_append)
    from handles_after_retire [OF this] have "\<forall>a \<in> set (all_cells r'). next_free (fst ?retired) \<le> a" .
    moreover have "(i, r) \<in> set (handles ?st (xs @ us))" using assms(1) by (simp add: handles_append)
    from handles_allocated [OF registry_inv_new this] have "set (all_cells r) \<subseteq> {..<next_free (fst ?retired)}" by simp
    ultimately show ?thesis by fastforce
  qed
  with sep show ?thesis by (simp add: all_cells_def)
qed

theorem resources_isolated_witness:
  "\<exists>r r'. handles sample_registry [Acquire_Handle (RouteId ''a''), Discard (RouteId ''a''), Acquire_Handle (RouteId ''a'')] =
       [(RouteId ''a'', r), (RouteId ''a'', r')] \<and> set (all_cells r) \<inter> set (all_cells r') = {}"
proof -
  let ?xs = "[Acquire_Handle (RouteId ''a'')]" and ?ys = "[Discard (RouteId ''a'')]"
  have shape: "\<exists>r. handles st ?xs = [(RouteId ''a'', r)]" for st by simp
  obtain r where r: "handles sample_registry ?xs = [(RouteId ''a'', r)]" using shape by blast
  obtain r' where r': "handles (run registry_ops sample_registry (?xs @ ?ys)) ?xs = [(RouteId ''a'', r')]" using shape by blast
  have "handles sample_registry ((?xs @ ?ys) @ ?xs) = [(RouteId ''a'', r), (RouteId ''a'', r')]"
    unfolding handles_append r r' by (simp add: r')
  moreover have "set (all_cells r) \<inter> set (all_cells r') = {}"
    using resources_isolated [of "RouteId ''a''" r "\<lparr>cells = Map.empty, next_free = 0\<rparr>" sample_policy sample_policy ?xs
        "RouteId ''a''" r' ?ys ?xs, folded sample_registry_def]
    by (simp add: r r' del: answers.simps run.simps append.simps)
  ultimately show ?thesis by auto
qed

text \<open>\<open>get_or_create\<close> returns the registered resources where there are any and changes nothing;
  otherwise it registers new ones, full and closed, made of each namespace's own policy, in cells that
  were not in use, and leaves every other cell and every other route as it was.\<close>

theorem get_or_create_behaviour:
  "case registry_get st i of
     Some r \<Rightarrow> get_or_create st i = (r, st)
   | None \<Rightarrow> (case get_or_create st i of (r, st') \<Rightarrow>
       registry_get st' i = Some r \<and> (\<forall>j. j \<noteq> i \<longrightarrow> registry_get st' j = registry_get st j) \<and>
       all_cells r = [next_free (fst st) ..< next_free (fst st) + 6] \<and>
       (\<forall>a < next_free (fst st). cells (fst st') a = cells (fst st) a) \<and>
       (let pp = registry_primary_policy (snd st); sp = registry_shadow_policy (snd st)
        in map (cells (fst st')) (primary_cells r @ shadow_cells r) = map Some
             [BreakerCell (policy_breaker pp) breaker_new, BulkheadCell (bulkhead_new (policy_capacity pp)),
              BudgetCell (budget_new (policy_budget pp)), BreakerCell (policy_breaker sp) breaker_new,
              BulkheadCell (bulkhead_new (policy_capacity sp)), BudgetCell (budget_new (policy_budget sp))]))"
proof (cases rule: entry_or_insert_cases [of st i])
  case (found r)
  then show ?thesis by (simp add: get_or_create_def)
next
  case (created r m')
  note new = route_resources_new_fields [OF created(2)]
  let ?st = "(m', (snd st)\<lparr>registry_routes := (registry_routes (snd st))(i \<mapsto> r)\<rparr>)"
  have "get_or_create st i = (r, ?st)" by (simp add: get_or_create_def created(1,3))
  moreover have "registry_get ?st j = (if j = i then Some r else registry_get st j)" for j
    by (simp add: registry_get_def split_beta)
  ultimately show ?thesis
    using new by (simp add: created(1) all_cells_def Let_def del: map_append)
qed

text \<open>retiring a route only forgets it: the next lookup misses, other routes and all cells stay, so a
  handle that a request still holds keeps working on its own cells, and resources created later for
  the same route share none of them.\<close>

theorem retire_keeps_handles:
  assumes "(i, r) \<in> set (handles (m, registry_new pp sp) xs)"
    and "st = run registry_ops (m, registry_new pp sp) xs"
  shows "registry_get (retire_state st i) i = None \<and>
    (\<forall>j. j \<noteq> i \<longrightarrow> registry_get (retire_state st i) j = registry_get st j) \<and>
    cells (fst (retire_state st i)) = cells (fst st) \<and>
    (\<forall>ys r'. (i, r') \<in> set (handles (retire_state st i) ys) \<longrightarrow>
      set (all_cells r') \<inter> set (all_cells r) = {})"
proof (intro conjI allI impI)
  show "registry_get (retire_state st i) i = None" by (rule resources.discard_same)
  show "cells (fst (retire_state st i)) = cells (fst st)" by (simp add: registry_defs split_beta)
  show "registry_get (retire_state st i) j = registry_get st j" if "j \<noteq> i" for j
    using that by (rule resources.discard_other)
  fix ys r' assume "(i, r') \<in> set (handles (retire_state st i) ys)"
  with handles_fresh [OF this] have "\<forall>a \<in> set (all_cells r'). next_free (fst st) \<le> a"
    by (simp add: registered_def resources.discard_same)
  moreover have "set (all_cells r) \<subseteq> {..<next_free (fst st)}"
    using handles_allocated [OF registry_inv_new assms(1)] by (simp add: assms(2))
  ultimately show "set (all_cells r') \<inter> set (all_cells r) = {}" by fastforce
qed

theorem retire_keeps_handles_witness:
  "registry_get (retire_state (run registry_ops sample_registry [Acquire_Handle (RouteId ''a'')]) (RouteId ''a''))
     (RouteId ''a'') = None"
proof -
  let ?xs = "[Acquire_Handle (RouteId ''a'')]"
  have "\<exists>r. (RouteId ''a'', r) \<in> set (handles sample_registry ?xs)" by auto
  then obtain r where "(RouteId ''a'', r) \<in> set (handles sample_registry ?xs)" by blast
  from retire_keeps_handles [OF this [unfolded sample_registry_def] refl] show ?thesis
    unfolding sample_registry_def by blast
qed

end
