(* ===== verification/Observability.thy ===== *)
theory Observability
  imports Routing Circuit_Breaker
begin

section \<open>The observation vocabulary (src/src/observability.rs)\<close>

text \<open>
  The closed enumerations with their label strings, and the events that the core hands to an
  observer. The enumerations are finite types and their labels are injective, which is what keeps
  metric labels bounded and trace records decodable.
\<close>

datatype traffic_role = PrimaryTraffic | ShadowTraffic

fun traffic_role_str :: "traffic_role \<Rightarrow> string" where
  "traffic_role_str PrimaryTraffic = ''primary''"
| "traffic_role_str ShadowTraffic = ''shadow''"

datatype rejection_reason =
  RejectCircuitOpen | RejectBulkheadFull | RejectRetryBudgetExhausted | RejectLogicalDeadlineExhausted
  | RejectRouteAttemptBudgetExhausted | RejectNoEligibleRoute

fun rejection_reason_str :: "rejection_reason \<Rightarrow> string" where
  "rejection_reason_str RejectCircuitOpen = ''circuit_open''"
| "rejection_reason_str RejectBulkheadFull = ''bulkhead_full''"
| "rejection_reason_str RejectRetryBudgetExhausted = ''retry_budget_exhausted''"
| "rejection_reason_str RejectLogicalDeadlineExhausted = ''logical_deadline_exhausted''"
| "rejection_reason_str RejectRouteAttemptBudgetExhausted = ''route_attempt_budget_exhausted''"
| "rejection_reason_str RejectNoEligibleRoute = ''no_eligible_route''"

datatype retry_suppression_reason =
  SuppressRetryPolicyExhausted | SuppressRetryBudgetExhausted | SuppressLogicalDeadlineExhausted

fun retry_suppression_reason_str :: "retry_suppression_reason \<Rightarrow> string" where
  "retry_suppression_reason_str SuppressRetryPolicyExhausted = ''retry_policy_exhausted''"
| "retry_suppression_reason_str SuppressRetryBudgetExhausted = ''retry_budget_exhausted''"
| "retry_suppression_reason_str SuppressLogicalDeadlineExhausted = ''logical_deadline_exhausted''"

datatype outcome_class =
  OutcomeSucceeded | OutcomeFailed | OutcomeCancelled | OutcomeDeadlineExceeded | OutcomeOverloaded

fun outcome_class_str :: "outcome_class \<Rightarrow> string" where
  "outcome_class_str OutcomeSucceeded = ''succeeded''"
| "outcome_class_str OutcomeFailed = ''failed''"
| "outcome_class_str OutcomeCancelled = ''cancelled''"
| "outcome_class_str OutcomeDeadlineExceeded = ''deadline_exceeded''"
| "outcome_class_str OutcomeOverloaded = ''overloaded''"

datatype budget_stage = BeforeAttempt | BeforeBackoff | BeforeFailover | BeforeShadow

fun budget_stage_str :: "budget_stage \<Rightarrow> string" where
  "budget_stage_str BeforeAttempt = ''before_attempt''"
| "budget_stage_str BeforeBackoff = ''before_backoff''"
| "budget_stage_str BeforeFailover = ''before_failover''"
| "budget_stage_str BeforeShadow = ''before_shadow''"

datatype shadow_sampling_outcome = Sampled | NotSampled

fun shadow_sampling_outcome_str :: "shadow_sampling_outcome \<Rightarrow> string" where
  "shadow_sampling_outcome_str Sampled = ''sampled''"
| "shadow_sampling_outcome_str NotSampled = ''not_sampled''"

text \<open>Each event with its fields in the order of the source.\<close>

datatype resilience_event =
  AttemptAdmitted traffic_role route_id u32
| AttemptRejected traffic_role "route_id option" rejection_reason
| AttemptCompleted traffic_role route_id u32 outcome_class duration
| RetryScheduled traffic_role route_id u32 duration
| RetrySuppressed traffic_role route_id u32 retry_suppression_reason
| BreakerTransition traffic_role route_id circuit_state circuit_state
| BulkheadAdmission traffic_role route_id bool
| RouteSelected traffic_role u64 route_id
| RouteFailedOver u64 u32 route_id "route_id option" outcome_class
| ShadowSampled u64 shadow_sampling_outcome
| ShadowCompleted u64 route_id outcome_class
| LogicalDeadlineExhausted traffic_role budget_stage

text \<open>An observer cannot answer the core: it only changes the world it exports to.\<close>

type_synonym 'w observer = "resilience_event \<Rightarrow> 'w \<Rightarrow> 'w"

definition noop_observer :: "'w observer" where
  "noop_observer e w = w"

subsection \<open>Finite enumerations with injective labels\<close>

instance traffic_role :: finite
proof
  have "(UNIV :: traffic_role set) = {PrimaryTraffic, ShadowTraffic}" by (auto intro: traffic_role.exhaust)
  then show "finite (UNIV :: traffic_role set)" by (metis finite.emptyI finite.insertI)
qed

instance rejection_reason :: finite
proof
  have "(UNIV :: rejection_reason set) = {RejectCircuitOpen, RejectBulkheadFull, RejectRetryBudgetExhausted,
      RejectLogicalDeadlineExhausted, RejectRouteAttemptBudgetExhausted, RejectNoEligibleRoute}"
    by (auto intro: rejection_reason.exhaust)
  then show "finite (UNIV :: rejection_reason set)" by (metis finite.emptyI finite.insertI)
qed

instance retry_suppression_reason :: finite
proof
  have "(UNIV :: retry_suppression_reason set) =
      {SuppressRetryPolicyExhausted, SuppressRetryBudgetExhausted, SuppressLogicalDeadlineExhausted}"
    by (auto intro: retry_suppression_reason.exhaust)
  then show "finite (UNIV :: retry_suppression_reason set)" by (metis finite.emptyI finite.insertI)
qed

instance outcome_class :: finite
proof
  have "(UNIV :: outcome_class set) =
      {OutcomeSucceeded, OutcomeFailed, OutcomeCancelled, OutcomeDeadlineExceeded, OutcomeOverloaded}"
    by (auto intro: outcome_class.exhaust)
  then show "finite (UNIV :: outcome_class set)" by (metis finite.emptyI finite.insertI)
qed

instance budget_stage :: finite
proof
  have "(UNIV :: budget_stage set) = {BeforeAttempt, BeforeBackoff, BeforeFailover, BeforeShadow}"
    by (auto intro: budget_stage.exhaust)
  then show "finite (UNIV :: budget_stage set)" by (metis finite.emptyI finite.insertI)
qed

instance shadow_sampling_outcome :: finite
proof
  have "(UNIV :: shadow_sampling_outcome set) = {Sampled, NotSampled}"
    by (auto intro: shadow_sampling_outcome.exhaust)
  then show "finite (UNIV :: shadow_sampling_outcome set)" by (metis finite.emptyI finite.insertI)
qed

instance circuit_state :: finite
proof
  have "(UNIV :: circuit_state set) = {Closed, Open, HalfOpen}" by (auto intro: circuit_state.exhaust)
  then show "finite (UNIV :: circuit_state set)" by (metis finite.emptyI finite.insertI)
qed

lemma traffic_role_str_eq [simp]: "traffic_role_str a = traffic_role_str b \<longleftrightarrow> a = b"
  by (cases a; cases b) simp_all

lemma rejection_reason_str_eq [simp]: "rejection_reason_str a = rejection_reason_str b \<longleftrightarrow> a = b"
  by (cases a; cases b) simp_all

lemma retry_suppression_reason_str_eq [simp]:
  "retry_suppression_reason_str a = retry_suppression_reason_str b \<longleftrightarrow> a = b"
  by (cases a; cases b) simp_all

lemma outcome_class_str_eq [simp]: "outcome_class_str a = outcome_class_str b \<longleftrightarrow> a = b"
  by (cases a; cases b) simp_all

lemma budget_stage_str_eq [simp]: "budget_stage_str a = budget_stage_str b \<longleftrightarrow> a = b"
  by (cases a; cases b) simp_all

lemma shadow_sampling_outcome_str_eq [simp]:
  "shadow_sampling_outcome_str a = shadow_sampling_outcome_str b \<longleftrightarrow> a = b"
  by (cases a; cases b) simp_all

text \<open>The routes an event names.\<close>

fun event_routes :: "resilience_event \<Rightarrow> route_id set" where
  "event_routes (AttemptAdmitted role i n) = {i}"
| "event_routes (AttemptRejected role i reason) = set_option i"
| "event_routes (AttemptCompleted role i n oc d) = {i}"
| "event_routes (RetryScheduled role i n d) = {i}"
| "event_routes (RetrySuppressed role i n reason) = {i}"
| "event_routes (BreakerTransition role i a b) = {i}"
| "event_routes (BulkheadAdmission role i b) = {i}"
| "event_routes (RouteSelected role g i) = {i}"
| "event_routes (RouteFailedOver g n i j oc) = insert i (set_option j)"
| "event_routes (ShadowSampled g oc) = {}"
| "event_routes (ShadowCompleted g i oc) = {i}"
| "event_routes (LogicalDeadlineExhausted role stage) = {}"

text \<open>A route identifier the crate can have constructed.\<close>

definition route_id_ok :: "route_id \<Rightarrow> bool" where
  "route_id_ok i \<longleftrightarrow> as_str i \<noteq> []"

lemma route_id_new_ok: "route_id_new s = Ok i \<longleftrightarrow> route_id_ok i \<and> i = RouteId s"
  by (auto simp: route_id_new_def route_id_ok_def)

end
