(* ===== verification/Telemetry_Adapters.thy ===== *)
theory Telemetry_Adapters
  imports Observability
begin

section \<open>The telemetry adapters (src/src/metrics_adapter.rs, src/src/tracing_adapter.rs)\<close>

text \<open>
  Both adapters translate an event and do nothing else, so each is the function from an event to
  what it hands to its facade: the \<open>metrics\<close> crate gets counters and histograms with labels, the
  \<open>tracing\<close> crate gets one record of named fields. A histogram carries the duration; its
  conversion to a floating-point number of seconds is not modelled.
\<close>

subsection \<open>Metrics\<close>

type_synonym labels = "(string \<times> string) list"

datatype metric = Counter (metric_name: string) (metric_labels: labels)
  | Histogram (metric_name: string) (metric_labels: labels) duration

definition route_label :: "route_id option \<Rightarrow> string" where
  "route_label i = (case i of None \<Rightarrow> ''none'' | Some r \<Rightarrow> as_str r)"

fun circuit_state_label :: "circuit_state \<Rightarrow> string" where
  "circuit_state_label Closed = ''closed''"
| "circuit_state_label Open = ''open''"
| "circuit_state_label HalfOpen = ''half_open''"

definition bool_label :: "bool \<Rightarrow> string" where
  "bool_label b = (if b then ''true'' else ''false'')"

fun metrics_observe :: "resilience_event \<Rightarrow> metric list" where
  "metrics_observe (AttemptAdmitted role i n) =
     [Counter ''softwheel_resilience_attempt_admitted_total''
        [(''role'', traffic_role_str role), (''route_id'', as_str i)]]"
| "metrics_observe (AttemptRejected role i reason) =
     [Counter ''softwheel_resilience_attempt_rejected_total''
        [(''role'', traffic_role_str role), (''route_id'', route_label i), (''reason'', rejection_reason_str reason)]]"
| "metrics_observe (AttemptCompleted role i n oc latency) =
     [Counter ''softwheel_resilience_attempt_completed_total''
        [(''role'', traffic_role_str role), (''route_id'', as_str i), (''outcome'', outcome_class_str oc)],
      Histogram ''softwheel_resilience_attempt_latency_seconds''
        [(''role'', traffic_role_str role), (''route_id'', as_str i), (''outcome'', outcome_class_str oc)] latency]"
| "metrics_observe (RetryScheduled role i n delay) =
     [Counter ''softwheel_resilience_retry_scheduled_total''
        [(''role'', traffic_role_str role), (''route_id'', as_str i)],
      Histogram ''softwheel_resilience_retry_backoff_seconds''
        [(''role'', traffic_role_str role), (''route_id'', as_str i)] delay]"
| "metrics_observe (RetrySuppressed role i n reason) =
     [Counter ''softwheel_resilience_retry_suppressed_total''
        [(''role'', traffic_role_str role), (''route_id'', as_str i),
         (''reason'', retry_suppression_reason_str reason)]]"
| "metrics_observe (BreakerTransition role i a b) =
     [Counter ''softwheel_resilience_breaker_transition_total''
        [(''role'', traffic_role_str role), (''route_id'', as_str i),
         (''from'', circuit_state_label a), (''to'', circuit_state_label b)]]"
| "metrics_observe (BulkheadAdmission role i admitted') =
     [Counter ''softwheel_resilience_bulkhead_admission_total''
        [(''role'', traffic_role_str role), (''route_id'', as_str i), (''admitted'', bool_label admitted')]]"
| "metrics_observe (RouteSelected role g i) =
     [Counter ''softwheel_resilience_route_selected_total''
        [(''role'', traffic_role_str role), (''route_id'', as_str i)]]"
| "metrics_observe (RouteFailedOver g n i j oc) =
     [Counter ''softwheel_resilience_route_failover_total''
        [(''from_route_id'', as_str i), (''to_route_id'', route_label j), (''outcome'', outcome_class_str oc)]]"
| "metrics_observe (ShadowSampled g oc) =
     [Counter ''softwheel_resilience_shadow_sampling_total'' [(''outcome'', shadow_sampling_outcome_str oc)]]"
| "metrics_observe (ShadowCompleted g i oc) =
     [Counter ''softwheel_resilience_shadow_completed_total''
        [(''route_id'', as_str i), (''outcome'', outcome_class_str oc)]]"
| "metrics_observe (LogicalDeadlineExhausted role stage) =
     [Counter ''softwheel_resilience_logical_deadline_exhausted_total''
        [(''role'', traffic_role_str role), (''stage'', budget_stage_str stage)]]"

subsection \<open>Tracing\<close>

datatype field = FStr string | FU32 u32 | FU64 u64 | FBool bool

record trace_record =
  trace_target :: string
  trace_fields :: "(string \<times> field) list"

definition duration_micros :: "duration \<Rightarrow> u64" where
  "duration_micros d = (if as_micros d < 2 ^ 64 then word_of_nat (as_micros d) else - 1)"

definition trace_route :: "route_id option \<Rightarrow> string" where
  "trace_route i = (case i of None \<Rightarrow> [] | Some r \<Rightarrow> as_str r)"

definition info :: "(string \<times> field) list \<Rightarrow> trace_record" where
  "info fs = \<lparr>trace_target = ''softwheel_resilience'', trace_fields = fs\<rparr>"

fun tracing_observe :: "resilience_event \<Rightarrow> trace_record" where
  "tracing_observe (AttemptAdmitted role i n) = info
     [(''event'', FStr ''attempt_admitted''), (''role'', FStr (traffic_role_str role)),
      (''route_id'', FStr (as_str i)), (''attempt_ordinal'', FU32 n)]"
| "tracing_observe (AttemptRejected role i reason) = info
     [(''event'', FStr ''attempt_rejected''), (''role'', FStr (traffic_role_str role)),
      (''route_id'', FStr (trace_route i)), (''reason'', FStr (rejection_reason_str reason))]"
| "tracing_observe (AttemptCompleted role i n oc latency) = info
     [(''event'', FStr ''attempt_completed''), (''role'', FStr (traffic_role_str role)),
      (''route_id'', FStr (as_str i)), (''attempt_ordinal'', FU32 n),
      (''outcome'', FStr (outcome_class_str oc)), (''latency_us'', FU64 (duration_micros latency))]"
| "tracing_observe (RetryScheduled role i n delay) = info
     [(''event'', FStr ''retry_scheduled''), (''role'', FStr (traffic_role_str role)),
      (''route_id'', FStr (as_str i)), (''retry_ordinal'', FU32 n), (''backoff_us'', FU64 (duration_micros delay))]"
| "tracing_observe (RetrySuppressed role i n reason) = info
     [(''event'', FStr ''retry_suppressed''), (''role'', FStr (traffic_role_str role)),
      (''route_id'', FStr (as_str i)), (''retry_ordinal'', FU32 n),
      (''reason'', FStr (retry_suppression_reason_str reason))]"
| "tracing_observe (BreakerTransition role i a b) = info
     [(''event'', FStr ''breaker_transition''), (''role'', FStr (traffic_role_str role)),
      (''route_id'', FStr (as_str i)), (''from'', FStr (circuit_state_label a)), (''to'', FStr (circuit_state_label b))]"
| "tracing_observe (BulkheadAdmission role i admitted') = info
     [(''event'', FStr ''bulkhead_admission''), (''role'', FStr (traffic_role_str role)),
      (''route_id'', FStr (as_str i)), (''admitted'', FBool admitted')]"
| "tracing_observe (RouteSelected role g i) = info
     [(''event'', FStr ''route_selected''), (''role'', FStr (traffic_role_str role)),
      (''generation'', FU64 g), (''route_id'', FStr (as_str i))]"
| "tracing_observe (RouteFailedOver g n i j oc) = info
     [(''event'', FStr ''route_failover''), (''generation'', FU64 g), (''failover_ordinal'', FU32 n),
      (''from_route_id'', FStr (as_str i)), (''to_route_id'', FStr (trace_route j)),
      (''outcome'', FStr (outcome_class_str oc))]"
| "tracing_observe (ShadowSampled g oc) = info
     [(''event'', FStr ''shadow_sampled''), (''generation'', FU64 g),
      (''outcome'', FStr (shadow_sampling_outcome_str oc))]"
| "tracing_observe (ShadowCompleted g i oc) = info
     [(''event'', FStr ''shadow_completed''), (''generation'', FU64 g), (''route_id'', FStr (as_str i)),
      (''outcome'', FStr (outcome_class_str oc))]"
| "tracing_observe (LogicalDeadlineExhausted role stage) = info
     [(''event'', FStr ''logical_deadline_exhausted''), (''role'', FStr (traffic_role_str role)),
      (''stage'', FStr (budget_stage_str stage))]"

subsection \<open>Metric labels are bounded\<close>

text \<open>The label values that come from closed enumerations.\<close>

definition closed_labels :: "string set" where
  "closed_labels = range traffic_role_str \<union> range rejection_reason_str \<union> range retry_suppression_reason_str \<union>
     range outcome_class_str \<union> range budget_stage_str \<union> range shadow_sampling_outcome_str \<union>
     range circuit_state_label \<union> range bool_label \<union> {''none''}"

lemma finite_closed_labels: "finite closed_labels"
  by (simp add: closed_labels_def)

lemma closed_labels_in [simp]:
  "traffic_role_str a \<in> closed_labels" "rejection_reason_str b \<in> closed_labels"
  "retry_suppression_reason_str c \<in> closed_labels" "outcome_class_str d \<in> closed_labels"
  "budget_stage_str e \<in> closed_labels" "shadow_sampling_outcome_str f \<in> closed_labels"
  "circuit_state_label g \<in> closed_labels" "bool_label h \<in> closed_labels" "''none'' \<in> closed_labels"
  by (auto simp: closed_labels_def)

lemma route_label_in: "route_label i \<in> closed_labels \<union> as_str ` set_option i"
  by (cases i) (auto simp: route_label_def)

lemma metric_label_values:
  "m \<in> set (metrics_observe e) \<Longrightarrow> snd ` set (metric_labels m) \<subseteq> closed_labels \<union> as_str ` event_routes e"
  by (cases e) (use route_label_in in auto)

definition metric_names :: "string set" where
  "metric_names =
     {''softwheel_resilience_attempt_admitted_total'', ''softwheel_resilience_attempt_rejected_total'',
      ''softwheel_resilience_attempt_completed_total'', ''softwheel_resilience_attempt_latency_seconds'',
      ''softwheel_resilience_retry_scheduled_total'', ''softwheel_resilience_retry_backoff_seconds'',
      ''softwheel_resilience_retry_suppressed_total'', ''softwheel_resilience_breaker_transition_total'',
      ''softwheel_resilience_bulkhead_admission_total'', ''softwheel_resilience_route_selected_total'',
      ''softwheel_resilience_route_failover_total'', ''softwheel_resilience_shadow_sampling_total'',
      ''softwheel_resilience_shadow_completed_total'', ''softwheel_resilience_logical_deadline_exhausted_total''}"

definition label_keys :: "string set" where
  "label_keys = {''role'', ''route_id'', ''reason'', ''outcome'', ''from'', ''to'', ''admitted'',
     ''from_route_id'', ''to_route_id'', ''stage''}"

lemma metric_shape:
  "m \<in> set (metrics_observe e) \<Longrightarrow>
     metric_name m \<in> metric_names \<and> fst ` set (metric_labels m) \<subseteq> label_keys \<and> length (metric_labels m) \<le> 4"
  unfolding metric_names_def label_keys_def by (cases e) auto

text \<open>A time series is a metric's name with its labels.\<close>

definition series :: "metric \<Rightarrow> string \<times> labels" where
  "series m = (metric_name m, metric_labels m)"

text \<open>An event without its ordinals, generation and durations.\<close>

fun without_numbers :: "resilience_event \<Rightarrow> resilience_event" where
  "without_numbers (AttemptAdmitted role i n) = AttemptAdmitted role i 0"
| "without_numbers (AttemptCompleted role i n oc d) = AttemptCompleted role i 0 oc dur_zero"
| "without_numbers (RetryScheduled role i n d) = RetryScheduled role i 0 dur_zero"
| "without_numbers (RetrySuppressed role i n reason) = RetrySuppressed role i 0 reason"
| "without_numbers (RouteSelected role g i) = RouteSelected role 0 i"
| "without_numbers (RouteFailedOver g n i j oc) = RouteFailedOver 0 0 i j oc"
| "without_numbers (ShadowSampled g oc) = ShadowSampled 0 oc"
| "without_numbers (ShadowCompleted g i oc) = ShadowCompleted 0 i oc"
| "without_numbers e = e"

lemma series_without_numbers: "map series (metrics_observe (without_numbers e)) = map series (metrics_observe e)"
  by (cases e) (simp_all add: series_def)

subsection \<open>Trace records are decodable\<close>

lemma circuit_state_label_eq [simp]: "circuit_state_label a = circuit_state_label b \<longleftrightarrow> a = b"
  by (cases a; cases b) simp_all

lemma as_str_eq [simp]: "as_str i = as_str j \<longleftrightarrow> i = j"
  by (cases i; cases j) simp

lemma trace_route_eq:
  "(\<forall>r \<in> set_option i \<union> set_option j. route_id_ok r) \<Longrightarrow> trace_route i = trace_route j \<longleftrightarrow> i = j"
  by (cases i; cases j) (auto simp: trace_route_def route_id_ok_def)

lemma unat_duration_micros: "unat (duration_micros d) = min (as_nanos d div 1000) (2 ^ 64 - 1)"
  by (simp add: duration_micros_def as_micros_def unat_of_nat)

text \<open>An event with its durations cut to whole microseconds, at most \<open>2 ^ 64 - 1\<close> of them.\<close>

definition micros_only :: "duration \<Rightarrow> duration" where
  "micros_only d = dur_of (min (as_nanos d div 1000) (2 ^ 64 - 1) * 1000)"

fun coarsened :: "resilience_event \<Rightarrow> resilience_event" where
  "coarsened (AttemptCompleted role i n oc d) = AttemptCompleted role i n oc (micros_only d)"
| "coarsened (RetryScheduled role i n d) = RetryScheduled role i n (micros_only d)"
| "coarsened e = e"

lemma micros_only_eq: "micros_only d = micros_only e \<longleftrightarrow> duration_micros d = duration_micros e"
proof -
  have "unat (duration_micros x) * 1000 \<le> duration_max" for x
    using u64_less [of "duration_micros x"] by (simp add: duration_max_def)
  then show ?thesis
    by (simp add: micros_only_def [folded unat_duration_micros] duration_eq_iff as_nanos_dur_of word_unat_eq_iff)
qed

lemma info_eq [simp]: "info fs = info gs \<longleftrightarrow> fs = gs"
  by (simp add: info_def)

definition event_ok :: "resilience_event \<Rightarrow> bool" where
  "event_ok e \<longleftrightarrow> (\<forall>i \<in> event_routes e. route_id_ok i)"

lemma tracing_observe_eq:
  assumes "event_ok e" and "event_ok e'"
  shows "tracing_observe e = tracing_observe e' \<longleftrightarrow> coarsened e = coarsened e'"
proof -
  have routes: "trace_route i = trace_route j \<longleftrightarrow> i = j"
    if "\<forall>r \<in> set_option i. route_id_ok r" "\<forall>r \<in> set_option j. route_id_ok r" for i j
    using that by (intro trace_route_eq) auto
  from assms show ?thesis
    by (cases e; cases e') (simp_all add: event_ok_def routes micros_only_eq)
qed

subsection \<open>Properties\<close>

text \<open>C34: metrics stay bounded: for a finite set of routes, all the events that name no others, whatever
  their ordinals, generations and durations, touch finitely many time series; the numbers of an event
  never reach a label.\<close>

theorem metric_series_bounded:
  assumes "finite R"
  shows "finite {series m | m e. m \<in> set (metrics_observe e) \<and> event_routes e \<subseteq> R} \<and>
    map series (metrics_observe e) = map series (metrics_observe (without_numbers e))"
proof
  let ?V = "closed_labels \<union> as_str ` R"
  let ?L = "{ls. set ls \<subseteq> label_keys \<times> ?V \<and> length ls \<le> 4}"
  have "series m \<in> metric_names \<times> ?L" if "m \<in> set (metrics_observe e)" "event_routes e \<subseteq> R" for m e
  proof -
    have "snd ` set (metric_labels m) \<subseteq> ?V" using metric_label_values [OF that(1)] that(2) by blast
    then have "set (metric_labels m) \<subseteq> label_keys \<times> ?V"
      using metric_shape [OF that(1)] by (force simp: image_subset_iff)
    then show ?thesis using metric_shape [OF that(1)] by (simp add: series_def)
  qed
  then have "{series m | m e. m \<in> set (metrics_observe e) \<and> event_routes e \<subseteq> R} \<subseteq> metric_names \<times> ?L"
    by blast
  moreover have "finite (metric_names \<times> ?L)"
    using assms finite_closed_labels
    by (intro finite_cartesian_product finite_lists_length_le) (simp_all add: metric_names_def label_keys_def)
  ultimately show "finite {series m | m e. m \<in> set (metrics_observe e) \<and> event_routes e \<subseteq> R}"
    by (rule finite_subset)
qed (rule series_without_numbers [symmetric])

theorem metric_series_bounded_witness:
  "map series (metrics_observe (RouteSelected PrimaryTraffic 9 (RouteId ''a''))) =
     [(''softwheel_resilience_route_selected_total'', [(''role'', ''primary''), (''route_id'', ''a'')])] \<and>
   finite {series m | m e. m \<in> set (metrics_observe e) \<and> event_routes e \<subseteq> {RouteId ''a'', RouteId ''b''}}"
  using metric_series_bounded [of "{RouteId ''a'', RouteId ''b''}"] by (simp add: series_def)

text \<open>C28: a trace record identifies its event: two events with identifiers the crate can construct give
  the same record exactly when they are equal, durations being told apart in whole microseconds up to
  the largest 64-bit number of them.\<close>

theorem tracing_lossless:
  assumes "event_ok e" and "event_ok e'"
  shows "tracing_observe e = tracing_observe e' \<longleftrightarrow> coarsened e = coarsened e'"
  using assms by (rule tracing_observe_eq)

theorem tracing_lossless_witness:
  "tracing_observe (AttemptRejected PrimaryTraffic None RejectNoEligibleRoute) \<noteq>
   tracing_observe (AttemptRejected PrimaryTraffic (Some (RouteId ''none'')) RejectNoEligibleRoute)"
  using tracing_lossless [of "AttemptRejected PrimaryTraffic None RejectNoEligibleRoute"
      "AttemptRejected PrimaryTraffic (Some (RouteId ''none'')) RejectNoEligibleRoute"]
  by (simp add: event_ok_def route_id_ok_def)

text \<open>a metric label does not identify its route: a rejection without a route is counted in the same
  time series as a rejection of the route named \<open>none\<close>, which is a valid identifier.\<close>

theorem metrics_none_ambiguous:
  "route_id_new ''none'' = Ok (RouteId ''none'') \<and>
   metrics_observe (AttemptRejected role None reason) =
     metrics_observe (AttemptRejected role (Some (RouteId ''none'')) reason)"
  by (simp add: route_id_new_def route_label_def)

end
