(* ===== verification/Tokio_Runtime.thy ===== *)
theory Tokio_Runtime
  imports Deadline
begin

section \<open>The Tokio budget (src/src/tokio_runtime.rs)\<close>

text \<open>
  The binding of a logical-request budget to a running clock. Tokio is not part of the repository:
  its clock, \<open>sleep\<close>, \<open>timeout\<close> and the biased \<open>select!\<close> are parameters over a world of type \<open>'w\<close>, and a
  future that is awaited to its end is a function from the world to its output and the next
  world. What the code relies on of Tokio's documentation is \<open>tokio_ok\<close>: the clock does not go
  back, a sleep lasts at least its duration, and a timeout either passes on the future's
  output or fires no earlier than its duration. The properties come from the \<open>request_budget\<close> contract.
\<close>

datatype tokio_stop =
  CallerCancelled | LogicalDeadlineExceeded | ChildTimeout | BackoffWouldExhaustBudget

type_synonym ('w, 'a) future = "'w \<Rightarrow> 'a \<times> 'w"

text \<open>\<open>select\<close> polls its first future first; its result is \<open>None\<close> where that one wins.\<close>

record ('w, 'a) tokio =
  tokio_clock :: "'w \<Rightarrow> instant"
  tokio_sleep :: "duration \<Rightarrow> 'w \<Rightarrow> 'w"
  tokio_timeout :: "duration \<Rightarrow> ('w, 'a) future \<Rightarrow> 'w \<Rightarrow> 'a option \<times> 'w"
  tokio_select :: "('w, unit) future \<Rightarrow> ('w, ('a, tokio_stop) result) future \<Rightarrow> 'w \<Rightarrow>
    ('a, tokio_stop) result option \<times> 'w"

record tokio_budget =
  core :: logical_request_budget
  started :: instant

definition tokio_from_start :: "logical_request_budget \<Rightarrow> instant \<Rightarrow> tokio_budget" where
  "tokio_from_start b t = \<lparr>core = b, started = t\<rparr>"

definition tokio_start :: "('w, 'a) tokio \<Rightarrow> logical_request_budget \<Rightarrow> 'w \<Rightarrow> tokio_budget" where
  "tokio_start tk b w = tokio_from_start b (tokio_clock tk w)"

definition tokio_elapsed :: "('w, 'a) tokio \<Rightarrow> tokio_budget \<Rightarrow> 'w \<Rightarrow> duration" where
  "tokio_elapsed tk b w = elapsed_since (started b) (tokio_clock tk w)"

definition tokio_remaining :: "('w, 'a) tokio \<Rightarrow> tokio_budget \<Rightarrow> 'w \<Rightarrow> duration option" where
  "tokio_remaining tk b w = remaining (core b) (tokio_elapsed tk b w)"

definition budget_timeout ::
    "('w, 'a) tokio \<Rightarrow> tokio_budget \<Rightarrow> duration \<Rightarrow> ('w, 'a) future \<Rightarrow> 'w \<Rightarrow> ('a, tokio_stop) result \<times> 'w" where
  "budget_timeout tk b requested fut w =
     (let elapsed = tokio_elapsed tk b w
      in if is_exhausted (core b) elapsed then (Err LogicalDeadlineExceeded, w)
         else
           let rest = remaining (core b) elapsed;
               effective = clamp_child (core b) elapsed requested;
               stop = (case rest of
                   Some r \<Rightarrow> if r \<le> requested then LogicalDeadlineExceeded else ChildTimeout
                 | None \<Rightarrow> ChildTimeout)
           in case tokio_timeout tk effective fut w of
                (Some v, w') \<Rightarrow> (Ok v, w')
              | (None, w') \<Rightarrow> (Err stop, w'))"

definition timeout_or_cancel ::
    "('w, 'a) tokio \<Rightarrow> tokio_budget \<Rightarrow> duration \<Rightarrow> ('w, 'a) future \<Rightarrow> ('w, unit) future \<Rightarrow> 'w \<Rightarrow>
     ('a, tokio_stop) result \<times> 'w" where
  "timeout_or_cancel tk b requested fut cancelled w =
     (case tokio_select tk cancelled (budget_timeout tk b requested fut) w of
       (None, w') \<Rightarrow> (Err CallerCancelled, w')
     | (Some r, w') \<Rightarrow> (r, w'))"

definition sleep_backoff ::
    "('w, 'a) tokio \<Rightarrow> tokio_budget \<Rightarrow> duration \<Rightarrow> 'w \<Rightarrow> (unit, tokio_stop) result \<times> 'w" where
  "sleep_backoff tk b delay w =
     (if \<not> can_wait (core b) (tokio_elapsed tk b w) delay then (Err BackoffWouldExhaustBudget, w)
      else
        let w' = tokio_sleep tk delay w
        in if is_exhausted (core b) (tokio_elapsed tk b w') then (Err LogicalDeadlineExceeded, w')
           else (Ok (), w'))"

subsection \<open>What is relied on of Tokio\<close>

definition tokio_ok :: "('w, 'a) tokio \<Rightarrow> bool" where
  "tokio_ok tk \<longleftrightarrow>
     (\<forall>d w. tokio_clock tk w + as_nanos d \<le> tokio_clock tk (tokio_sleep tk d w)) \<and>
     (\<forall>d fut w v w'. tokio_timeout tk d fut w = (Some v, w') \<longrightarrow> fut w = (v, w')) \<and>
     (\<forall>d fut w w'. tokio_timeout tk d fut w = (None, w') \<longrightarrow> tokio_clock tk w + as_nanos d \<le> tokio_clock tk w')"

lemma elapsed_after:
  assumes "started b \<le> tokio_clock tk w" and "tokio_clock tk w + as_nanos d \<le> tokio_clock tk w'"
  shows "dur_add (tokio_elapsed tk b w) d \<le> tokio_elapsed tk b w'"
  using assms by (auto simp: tokio_elapsed_def elapsed_since_def dur min_def)

text \<open>A clamped child that runs to the end of the budget exhausts it.\<close>

lemma clamp_full_exhausts:
  assumes "remaining b e = Some r" and "r \<le> requested" and "dur_add e (clamp_child b e requested) \<le> e'"
  shows "is_exhausted b e'"
proof -
  from assms(1) obtain l where l: "limit b = Some l" and r: "r = dur_sub l e"
    by (auto simp: remaining_def)
  have "clamp_child b e requested = r" using assms(1,2) by (simp add: clamp_child_def min_def)
  then have "dur_add e r \<le> e'" using assms(3) by simp
  moreover have "l \<le> dur_add e r" using as_nanos_le [of l] by (auto simp: r dur min_def)
  ultimately show ?thesis by (simp add: is_exhausted_def l)
qed

lemma budget_timeout_cases:
  "budget_timeout tk b requested fut w =
    (if is_exhausted (core b) (tokio_elapsed tk b w) then (Err LogicalDeadlineExceeded, w)
     else case tokio_timeout tk (clamp_child (core b) (tokio_elapsed tk b w) requested) fut w of
       (Some v, w') \<Rightarrow> (Ok v, w')
     | (None, w') \<Rightarrow>
         (Err (case remaining (core b) (tokio_elapsed tk b w) of
            Some r \<Rightarrow> if r \<le> requested then LogicalDeadlineExceeded else ChildTimeout
          | None \<Rightarrow> ChildTimeout), w'))"
  by (simp add: budget_timeout_def Let_def)

text \<open>A simulated Tokio for examples: the world is the instant, a future takes a fixed time.\<close>

definition simulated :: "(instant, 'a) tokio" where
  "simulated =
     \<lparr>tokio_clock = (\<lambda>w. w), tokio_sleep = (\<lambda>d w. w + as_nanos d),
      tokio_timeout = (\<lambda>d fut w. case fut w of
        (v, w') \<Rightarrow> if w' \<le> w + as_nanos d then (Some v, w') else (None, w + as_nanos d)),
      tokio_select = (\<lambda>c fut w. case (c w, fut w) of
        ((u, wc), (r, wr)) \<Rightarrow> if wc \<le> wr then (None, wc) else (Some r, wr))\<rparr>"

lemma simulated_ok [simp]: "tokio_ok simulated"
  by (auto simp: tokio_ok_def simulated_def split: prod.splits if_splits)

subsection \<open>Properties\<close>

text \<open>C27: a timeout never hides who ran out of time: a value is the future's own; \<open>LogicalDeadlineExceeded\<close>
  means that the logical budget is exhausted when it is reported; \<open>ChildTimeout\<close> means that the child's
  own limit was shorter than what the budget had left and has passed; and no future is polled
  once the budget is exhausted.\<close>

theorem timeout_truthful:
  assumes "tokio_ok tk" and "started b \<le> tokio_clock tk w" and "budget_timeout tk b requested fut w = (res, w')"
  shows "case res of
      Ok v \<Rightarrow> fut w = (v, w') \<and> \<not> is_exhausted (core b) (tokio_elapsed tk b w)
    | Err stop \<Rightarrow>
        (stop = LogicalDeadlineExceeded \<and> is_exhausted (core b) (tokio_elapsed tk b w') \<or>
         stop = ChildTimeout \<and> tokio_clock tk w + as_nanos requested \<le> tokio_clock tk w' \<and>
           (case tokio_remaining tk b w of None \<Rightarrow> True | Some r \<Rightarrow> requested < r)) \<and>
        (is_exhausted (core b) (tokio_elapsed tk b w) \<longrightarrow> w' = w)"
proof (cases "is_exhausted (core b) (tokio_elapsed tk b w)")
  case True
  with assms(3) show ?thesis by (auto simp: budget_timeout_cases)
next
  case False
  let ?e = "tokio_elapsed tk b w"
  let ?d = "clamp_child (core b) ?e requested"
  show ?thesis
  proof (cases "fst (tokio_timeout tk ?d fut w)")
    case (Some v)
    then have "tokio_timeout tk ?d fut w = (Some v, w') \<and> res = Ok v"
      using assms(3) False by (auto simp: budget_timeout_cases split: prod.splits option.splits)
    then show ?thesis using assms(1) False by (auto simp: tokio_ok_def)
  next
    case None
    then have t: "tokio_timeout tk ?d fut w = (None, w')"
      and res: "res = Err (case remaining (core b) ?e of
            Some r \<Rightarrow> if r \<le> requested then LogicalDeadlineExceeded else ChildTimeout
          | None \<Rightarrow> ChildTimeout)"
      using assms(3) False by (auto simp: budget_timeout_cases split: prod.splits option.splits)
    have late: "tokio_clock tk w + as_nanos ?d \<le> tokio_clock tk w'"
      using assms(1) t by (auto simp: tokio_ok_def)
    have after: "dur_add ?e ?d \<le> tokio_elapsed tk b w'" by (rule elapsed_after [OF assms(2) late])
    show ?thesis
    proof (cases "remaining (core b) ?e")
      case None
      then have "?d = requested" by (simp add: clamp_child_def)
      with None late False res show ?thesis by (simp add: tokio_remaining_def)
    next
      case (Some r)
      show ?thesis
      proof (cases "r \<le> requested")
        case True
        with Some clamp_full_exhausts [OF Some True after] res False show ?thesis by simp
      next
        case False
        with Some have "?d = requested" by (simp add: clamp_child_def min_def not_le less_imp_le)
        with Some False late res \<open>\<not> is_exhausted (core b) ?e\<close> show ?thesis
          by (simp add: tokio_remaining_def)
      qed
    qed
  qed
qed

theorem timeout_truthful_witness:
  "is_exhausted (bounded (from_nanos 5)) (tokio_elapsed (simulated :: (instant, unit) tokio)
     (tokio_from_start (bounded (from_nanos 5)) 0)
     (snd (budget_timeout simulated (tokio_from_start (bounded (from_nanos 5)) 0) (from_nanos 9)
       (\<lambda>w. ((), w + 100)) 3)))"
proof -
  let ?b = "tokio_from_start (bounded (from_nanos 5)) 0"
  have run: "budget_timeout simulated ?b (from_nanos 9) (\<lambda>w. ((), w + 100)) 3 = (Err LogicalDeadlineExceeded, 5)"
    by (simp add: budget_timeout_def simulated_def tokio_from_start_def tokio_elapsed_def elapsed_since_def
        budget_defs dur duration_max_def Let_def)
  from timeout_truthful [OF simulated_ok _ run] show ?thesis
    by (simp add: run) (simp add: tokio_from_start_def)
qed

text \<open>a backoff sleep never spends the budget: it does not start when nothing would be left after it,
  changing nothing, and it is reported as completed only while the budget is not exhausted.\<close>

theorem backoff_leaves_budget:
  assumes "sleep_backoff tk b delay w = (res, w')"
  shows "case res of
      Ok u \<Rightarrow> w' = tokio_sleep tk delay w \<and> \<not> is_exhausted (core b) (tokio_elapsed tk b w')
    | Err stop \<Rightarrow>
        stop = BackoffWouldExhaustBudget \<and> w' = w \<and>
          is_exhausted (core b) (dur_add (tokio_elapsed tk b w) delay) \<or>
        stop = LogicalDeadlineExceeded \<and> w' = tokio_sleep tk delay w \<and>
          \<not> is_exhausted (core b) (dur_add (tokio_elapsed tk b w) delay) \<and>
          is_exhausted (core b) (tokio_elapsed tk b w')"
  using assms by (auto simp: sleep_backoff_def budget.allowed_iff Let_def split: if_splits)

theorem backoff_leaves_budget_witness:
  "sleep_backoff (simulated :: (instant, unit) tokio) (tokio_from_start (bounded (from_nanos 5)) 0) (from_nanos 2) 3 =
     (Err BackoffWouldExhaustBudget, 3) \<and>
   is_exhausted (bounded (from_nanos 5)) (dur_add (from_nanos 3) (from_nanos 2))"
proof -
  let ?b = "tokio_from_start (bounded (from_nanos 5)) 0"
  have e: "tokio_elapsed (simulated :: (instant, unit) tokio) ?b 3 = from_nanos 3"
    by (simp add: simulated_def tokio_from_start_def tokio_elapsed_def elapsed_since_def dur duration_max_def)
  have run: "sleep_backoff (simulated :: (instant, unit) tokio) ?b (from_nanos 2) 3 = (Err BackoffWouldExhaustBudget, 3)"
    unfolding sleep_backoff_def e by (simp add: tokio_from_start_def budget_defs dur)
  from backoff_leaves_budget [OF run] run show ?thesis by (simp add: e) (simp add: tokio_from_start_def)
qed

end
