(* ===== verification/Tower_Adapter.thy ===== *)
theory Tower_Adapter
  imports Retry Tokio_Runtime
begin

section \<open>The Tower retry service (src/src/tower_adapter.rs)\<close>

text \<open>
  The retry loop around a Tower service. The wrapped service, the request factory and the
  Tokio runtime are parameters: the fields of \<open>service\<close> are the awaited calls on them, over a
  world of type \<open>'w\<close>. The two futures the loop puts a timeout on have different outputs, so
  there are two Tokio records. One attempt is one pass through the loop body up to the next
  one; the loop is total, because the retry policy bounds the attempts. How often
  the request factory runs is stated with a counter that the client reads off the world.
\<close>

datatype 'e tower_error = Readiness 'e | CallFailed 'e | Runtime tokio_stop

text \<open>The derived \<open>Debug\<close> text of a stop reason is its name.\<close>

fun tokio_stop_debug :: "tokio_stop \<Rightarrow> string" where
  "tokio_stop_debug CallerCancelled = ''CallerCancelled''"
| "tokio_stop_debug LogicalDeadlineExceeded = ''LogicalDeadlineExceeded''"
| "tokio_stop_debug ChildTimeout = ''ChildTimeout''"
| "tokio_stop_debug BackoffWouldExhaustBudget = ''BackoffWouldExhaustBudget''"

fun tower_error_display :: "('e \<Rightarrow> string) \<Rightarrow> 'e tower_error \<Rightarrow> string" where
  "tower_error_display show_error (Readiness e) = ''service readiness failed: '' @ show_error e"
| "tower_error_display show_error (CallFailed e) = ''service call failed: '' @ show_error e"
| "tower_error_display show_error (Runtime stop) = ''runtime stopped execution: '' @ tokio_stop_debug stop"

record ('w, 'req, 't, 'e) service =
  make_request :: "('w, 'req) future"
  svc_call :: "'req \<Rightarrow> ('w, ('t, 'e) result) future"
  svc_ready :: "('w, (unit, 'e) result) future"
  std_clock :: "'w \<Rightarrow> instant"
  call_tokio :: "('w, ('t, 'e) result) tokio"
  ready_tokio :: "('w, (unit, 'e) result) tokio"
  svc_draw :: "'w draw_inclusive"

record tower_request =
  request_budget :: tokio_budget
  attempt_timeout :: duration

record ('w, 'e) tower_layer =
  layer_policy :: retry_policy
  layer_classify :: "('w, 'e) classifier"

definition tower_request_new :: "tokio_budget \<Rightarrow> duration \<Rightarrow> tower_request" where
  "tower_request_new b t = \<lparr>request_budget = b, attempt_timeout = t\<rparr>"

definition tower_layer_new :: "retry_policy \<Rightarrow> ('w, 'e) classifier \<Rightarrow> ('w, 'e) tower_layer" where
  "tower_layer_new p c = \<lparr>layer_policy = p, layer_classify = c\<rparr>"

text \<open>\<open>poll_ready\<close> of the outer service: the inner one's answer, with its error classified.\<close>

definition tower_poll_ready :: "(unit, 'e) result option \<Rightarrow> (unit, 'e tower_error) result option" where
  "tower_poll_ready r =
     (case r of
       Some (Ok u) \<Rightarrow> Some (Ok ())
     | Some (Err e) \<Rightarrow> Some (Err (Readiness e))
     | None \<Rightarrow> None)"

text \<open>The \<open>async\<close> block of one physical attempt: make a fresh request and call the service.\<close>

definition physical_call :: "('w, 'req, 't, 'e) service \<Rightarrow> ('w, ('t, 'e) result) future" where
  "physical_call s w = (case make_request s w of (req, w') \<Rightarrow> svc_call s req w')"

text \<open>After a backoff the service must be ready again, within what remains of the budget.\<close>

definition await_ready ::
    "('w, 'req, 't, 'e) service \<Rightarrow> tower_request \<Rightarrow> 'w \<Rightarrow> (unit, 'e tower_error) result \<times> 'w" where
  "await_ready s rq w =
     (case tokio_remaining (ready_tokio s) (request_budget rq) w of
       Some rest \<Rightarrow>
         (case budget_timeout (ready_tokio s) (request_budget rq) rest (svc_ready s) w of
           (Err stop, w') \<Rightarrow> (Err (Runtime stop), w')
         | (Ok r, w') \<Rightarrow> (map_err Readiness r, w'))
     | None \<Rightarrow> (case svc_ready s w of (r, w') \<Rightarrow> (map_err Readiness r, w')))"

function tower_loop ::
    "('w, 'e) tower_layer \<Rightarrow> ('w, 'req, 't, 'e) service \<Rightarrow> tower_request \<Rightarrow> instant \<Rightarrow> u32 \<Rightarrow> 'w \<Rightarrow>
     ('t, 'e tower_error) result \<times> 'w" where
  "tower_loop ly s rq begun attempt w =
     (case budget_timeout (call_tokio s) (request_budget rq) (attempt_timeout rq) (physical_call s) w of
       (Err stop, w1) \<Rightarrow> (Err (Runtime stop), w1)
     | (Ok (Ok response), w1) \<Rightarrow> (Ok response, w1)
     | (Ok (Err e), w1) \<Rightarrow>
         (case layer_classify ly e w1 of (decision, w1') \<Rightarrow>
            (case next_delay (svc_draw s) (layer_policy ly) attempt (elapsed_since begun (std_clock s w1')) decision w1' of
              (None, w2) \<Rightarrow> (Err (CallFailed e), w2)
            | (Some delay, w2) \<Rightarrow>
                (case sleep_backoff (call_tokio s) (request_budget rq) delay w2 of
                  (Err stop, w3) \<Rightarrow> (Err (Runtime stop), w3)
                | (Ok u, w3) \<Rightarrow>
                    (case await_ready s rq w3 of
                      (Err x, w4) \<Rightarrow> (Err x, w4)
                    | (Ok u', w4) \<Rightarrow> tower_loop ly s rq begun (attempt + 1) w4)))))"
  by pat_completeness auto
termination
  by (relation "measure (\<lambda>(ly, s, rq, st, a, w). unat (nz_get (max_attempts (layer_policy ly))) - unat a)")
    (auto dest!: next_delay_progress [OF sym])

declare tower_loop.simps [simp del]

definition tower_call ::
    "('w, 'e) tower_layer \<Rightarrow> ('w, 'req, 't, 'e) service \<Rightarrow> tower_request \<Rightarrow> 'w \<Rightarrow> ('t, 'e tower_error) result \<times> 'w" where
  "tower_call ly s rq w = tower_loop ly s rq (std_clock s w) 1 w"

text \<open>
  The outer service holds an instance of the inner one; the instance's own state is in the world.
  \<open>call\<close> returns a future over the very instance whose readiness the caller saw, and leaves a clone of
  it for the next call; what the methods of an instance do is the parameter \<open>methods\<close>.
\<close>

record ('i, 'w, 'e) tower_service =
  service_inner :: 'i
  service_policy :: retry_policy
  service_classify :: "('w, 'e) classifier"

definition tower_layer_apply :: "('w, 'e) tower_layer \<Rightarrow> 'i \<Rightarrow> ('i, 'w, 'e) tower_service" where
  "tower_layer_apply ly i =
     \<lparr>service_inner = i, service_policy = layer_policy ly, service_classify = layer_classify ly\<rparr>"

definition tower_ready_for :: "('w, 'req, 't, 'e) service \<Rightarrow> ('w, (unit, 'e tower_error) result) future" where
  "tower_ready_for s w = (case svc_ready s w of (r, w') \<Rightarrow> (map_err Readiness r, w'))"

definition tower_service_call ::
    "('i \<Rightarrow> ('w, 'i) future) \<Rightarrow> ('i \<Rightarrow> ('w, 'req, 't, 'e) service) \<Rightarrow> ('i, 'w, 'e) tower_service \<Rightarrow> tower_request \<Rightarrow> 'w \<Rightarrow>
     ('w, ('t, 'e tower_error) result) future \<times> ('i, 'w, 'e) tower_service \<times> 'w" where
  "tower_service_call clone methods sv rq w =
     (case clone (service_inner sv) w of
       (replacement, w') \<Rightarrow>
         (tower_call \<lparr>layer_policy = service_policy sv, layer_classify = service_classify sv\<rparr>
            (methods (service_inner sv)) rq,
          sv\<lparr>service_inner := replacement\<rparr>, w'))"

lemma tower_service_call_fields:
  assumes "tower_service_call clone methods (tower_layer_apply ly i) rq w = (fut, sv', w')"
  shows "fut = tower_call ly (methods i) rq" and "sv' = tower_layer_apply ly (fst (clone i w))"
  using assms by (cases ly; auto simp: tower_service_call_def tower_layer_apply_def split: prod.splits)+

subsection \<open>Counting attempts\<close>

text \<open>
  A count of factory runs is honest for a service if one attempt, finished or timed out, runs the
  factory at most once and nothing else runs it.
\<close>

definition counts_makes :: "('w, 'e) tower_layer \<Rightarrow> ('w, 'req, 't, 'e) service \<Rightarrow> ('w \<Rightarrow> nat) \<Rightarrow> bool" where
  "counts_makes ly s count \<longleftrightarrow>
     (\<forall>e w. count (snd (layer_classify ly e w)) \<le> count w) \<and>
     (\<forall>d w. count (snd (tokio_timeout (call_tokio s) d (physical_call s) w)) \<le> Suc (count w)) \<and>
     (\<forall>d w. count (snd (tokio_timeout (ready_tokio s) d (svc_ready s) w)) \<le> count w) \<and>
     (\<forall>w. count (snd (svc_ready s w)) \<le> count w) \<and>
     (\<forall>d w. count (tokio_sleep (call_tokio s) d w) \<le> count w) \<and>
     (\<forall>n w. count (snd (svc_draw s n w)) \<le> count w)"

lemma counts_makes_parts:
  assumes "counts_makes ly s count"
  shows "budget_timeout (call_tokio s) b t (physical_call s) w = (r, w1) \<Longrightarrow> count w1 \<le> Suc (count w)"
    and "layer_classify ly e w = (dec, w1') \<Longrightarrow> count w1' \<le> count w"
    and "next_delay (svc_draw s) p a el dec w = (d, w2) \<Longrightarrow> count w2 \<le> count w"
    and "sleep_backoff (call_tokio s) b delay w = (u, w3) \<Longrightarrow> count w3 \<le> count w"
    and "await_ready s rq w = (x, w4) \<Longrightarrow> count w4 \<le> count w"
proof -
  note laws = assms [unfolded counts_makes_def]
  show "count w1' \<le> count w" if "layer_classify ly e w = (dec, w1')"
    using that laws by (metis snd_conv)
  show "count w1 \<le> Suc (count w)" if "budget_timeout (call_tokio s) b t (physical_call s) w = (r, w1)"
    using that laws by (auto simp: budget_timeout_cases split: if_splits prod.splits option.splits)
      (metis le_SucI order_refl snd_conv)+
  have ready: "count w' \<le> count w" if "budget_timeout (ready_tokio s) b t (svc_ready s) w = (r, w')" for b t r w w'
    using that laws by (auto simp: budget_timeout_cases split: if_splits prod.splits option.splits) (metis snd_conv)+
  show "count w2 \<le> count w" if "next_delay (svc_draw s) p a el dec w = (d, w2)"
    using next_delay_measure [OF that] laws by blast
  show "count w3 \<le> count w" if "sleep_backoff (call_tokio s) b delay w = (u, w3)"
    using that laws by (auto simp: sleep_backoff_def Let_def split: if_splits)
  show "count w4 \<le> count w" if "await_ready s rq w = (x, w4)"
  proof (cases "tokio_remaining (ready_tokio s) (request_budget rq) w")
    case None
    with that laws show ?thesis by (auto simp: await_ready_def split: prod.splits) (metis snd_conv)
  next
    case (Some rest)
    with that show ?thesis
      by (auto simp: await_ready_def split: prod.splits result.splits dest: ready)
  qed
qed

lemma tower_loop_makes:
  assumes "counts_makes ly s count"
  shows "count (snd (tower_loop ly s rq st a w)) \<le>
    count w + max 1 (Suc (unat (nz_get (max_attempts (layer_policy ly)))) - unat a)"
  using assms
proof (induction ly s rq st a w rule: tower_loop.induct)
  case (1 ly s rq st a w)
  note parts = counts_makes_parts [OF "1.prems"]
  obtain r w1 where call: "budget_timeout (call_tokio s) (request_budget rq) (attempt_timeout rq) (physical_call s) w = (r, w1)"
    by fastforce
  note w1 = parts(1) [OF call]
  show ?case
  proof (cases "\<exists>e. r = Ok (Err e)")
    case False
    then show ?thesis using w1
      by (subst tower_loop.simps) (auto simp: call split: result.splits)
  next
    case True
    then obtain e where r: "r = Ok (Err e)" by blast
    obtain dec w1' where dc: "layer_classify ly e w1 = (dec, w1')" by fastforce
    note w1' = parts(2) [OF dc]
    obtain d w2 where nd: "next_delay (svc_draw s) (layer_policy ly) a (elapsed_since st (std_clock s w1')) dec w1' = (d, w2)"
      by fastforce
    note w2 = parts(3) [OF nd]
    show ?thesis
    proof (cases d)
      case None
      then show ?thesis using w1 w1' w2 by (subst tower_loop.simps) (simp add: call r dc nd)
    next
      case (Some delay)
      obtain u w3 where sl: "sleep_backoff (call_tokio s) (request_budget rq) delay w2 = (u, w3)" by fastforce
      obtain x w4 where rd: "await_ready s rq w3 = (x, w4)" by fastforce
      note w3 = parts(4) [OF sl] and w4 = parts(5) [OF rd]
      have step: "unat a < unat (nz_get (max_attempts (layer_policy ly)))" "unat (a + 1) = Suc (unat a)"
        using next_delay_SomeD(2) [OF nd [unfolded Some]] by (simp_all add: unat_plus_one word_less_nat_alt)
      show ?thesis
      proof (cases "u = Ok () \<and> x = Ok ()")
        case True
        then have "count (snd (tower_loop ly s rq st (a + 1) w4)) \<le>
            count w4 + max 1 (Suc (unat (nz_get (max_attempts (layer_policy ly)))) - unat (a + 1))"
          using call r dc nd Some sl rd "1.prems" by (intro "1.IH") auto
        with True step w1 w1' w2 w3 w4 show ?thesis
          by (subst tower_loop.simps) (simp add: call r dc nd Some sl rd)
      next
        case False
        then show ?thesis using w1 w1' w2 w3 w4
          by (subst tower_loop.simps) (auto simp: call r dc nd Some sl rd split: result.splits)
      qed
    qed
  qed
qed

subsection \<open>The loop without a deadline\<close>

text \<open>Everything but the attempt itself, as the environment of the core retry loop.\<close>

definition service_env :: "('w, 'req, 't, 'e) service \<Rightarrow> ('w, 't, 'e) env" where
  "service_env s =
     \<lparr>operation = (\<lambda>w. case physical_call s w of (r, w') \<Rightarrow> (Return r, w')), clock = std_clock s, sleep = tokio_sleep (call_tokio s), draw = svc_draw s\<rparr>"

text \<open>No timeout fires and the service is always ready.\<close>

definition undisturbed :: "('w, 'req, 't, 'e) service \<Rightarrow> bool" where
  "undisturbed s \<longleftrightarrow>
     (\<forall>d fut w. tokio_timeout (call_tokio s) d fut w = (Some (fst (fut w)), snd (fut w))) \<and>
     (\<forall>w. svc_ready s w = (Ok (), w))"

lemma tower_loop_like_retry:
  assumes "undisturbed s" and "limit (core (request_budget rq)) = None"
  shows "apfst Return (tower_loop ly s rq st a w) =
    apfst (map_outcome (map_err CallFailed)) (retry_loop (layer_policy ly) (service_env s) (layer_classify ly) st a w)"
  using assms
proof (induction ly s rq st a w rule: tower_loop.induct)
  case (1 ly s rq st a w)
  have free: "\<not> is_exhausted (core (request_budget rq)) e" "can_wait (core (request_budget rq)) e d"
    "tokio_remaining tk (request_budget rq) w'' = None" for e d tk w''
    using "1.prems"(2) by (simp_all add: budget_defs tokio_remaining_def)
  obtain r w1 where op: "physical_call s w = (r, w1)" by fastforce
  have call: "budget_timeout (call_tokio s) (request_budget rq) (attempt_timeout rq) (physical_call s) w = (Ok r, w1)"
    using "1.prems"(1) by (simp add: budget_timeout_cases free undisturbed_def op)
  show ?case
  proof (cases r)
    case (Ok v)
    then show ?thesis
      by (subst tower_loop.simps, subst retry_loop.simps) (simp add: call op service_env_def)
  next
    case (Err e)
    obtain dec w1' where dc: "layer_classify ly e w1 = (dec, w1')" by fastforce
    obtain d w2 where nd: "next_delay (svc_draw s) (layer_policy ly) a (elapsed_since st (std_clock s w1'))
        dec w1' = (d, w2)"
      by fastforce
    show ?thesis
    proof (cases d)
      case None
      with Err show ?thesis
        by (subst tower_loop.simps, subst retry_loop.simps) (simp add: call op service_env_def dc nd)
    next
      case (Some delay)
      let ?w3 = "tokio_sleep (call_tokio s) delay w2"
      have sl: "sleep_backoff (call_tokio s) (request_budget rq) delay w2 = (Ok (), ?w3)"
        by (simp add: sleep_backoff_def free)
      have rd: "await_ready s rq ?w3 = (Ok (), ?w3)"
        using "1.prems"(1) by (simp add: await_ready_def free undisturbed_def)
      have "apfst Return (tower_loop ly s rq st (a + 1) ?w3) =
        apfst (map_outcome (map_err CallFailed))
          (retry_loop (layer_policy ly) (service_env s) (layer_classify ly) st (a + 1) ?w3)"
        using call Err dc nd Some sl rd "1.prems" by (intro "1.IH") auto
      with Err Some show ?thesis
        by (subst tower_loop.simps, subst retry_loop.simps) (simp add: call op service_env_def dc nd sl rd)
    qed
  qed
qed

subsection \<open>What a timeout may depend on\<close>

text \<open>A timeout runs its future from the world it is started in and from no other.\<close>

definition timeout_local :: "('w, 'a) tokio \<Rightarrow> bool" where
  "timeout_local tk \<longleftrightarrow>
     (\<forall>d fut fut' w. fut w = fut' w \<longrightarrow> tokio_timeout tk d fut w = tokio_timeout tk d fut' w)"

text \<open>
  Two services that differ in the request factory and in \<open>call\<close> give the same loop if their attempts agree
  in the worlds in which the loop makes them: \<open>P\<close> holds where the loop starts and after each wait for
  readiness.
\<close>

lemma tower_loop_agree:
  assumes "P w"
    and "\<And>w. P w \<Longrightarrow>
      budget_timeout (call_tokio s) (request_budget rq) (attempt_timeout rq)
        (physical_call (s\<lparr>make_request := mk, svc_call := c\<rparr>)) w =
      budget_timeout (call_tokio s) (request_budget rq) (attempt_timeout rq) (physical_call s) w"
    and "\<And>w u w'. await_ready s rq w = (Ok u, w') \<Longrightarrow> P w'"
  shows "tower_loop ly (s\<lparr>make_request := mk, svc_call := c\<rparr>) rq st a w = tower_loop ly s rq st a w"
  using assms
proof (induction ly s rq st a w rule: tower_loop.induct)
  case (1 ly s rq st a w)
  let ?s = "s\<lparr>make_request := mk, svc_call := c\<rparr>"
  note call = "1.prems"(2) [OF "1.prems"(1)]
  have rd: "await_ready ?s rq = await_ready s rq" by (rule ext) (simp add: await_ready_def split: option.split)
  obtain r w1 where r: "budget_timeout (call_tokio s) (request_budget rq) (attempt_timeout rq) (physical_call s) w = (r, w1)"
    by fastforce
  show ?case
  proof (cases "\<exists>e. r = Ok (Err e)")
    case False
    then show ?thesis
      by (subst (1 2) tower_loop.simps) (auto simp: call r split: result.splits)
  next
    case True
    then obtain e where e: "r = Ok (Err e)" by blast
    obtain dec w1' where dc: "layer_classify ly e w1 = (dec, w1')" by fastforce
    obtain d w2 where nd: "next_delay (svc_draw s) (layer_policy ly) a (elapsed_since st (std_clock s w1'))
        dec w1' = (d, w2)"
      by fastforce
    show ?thesis
    proof (cases d)
      case None
      then show ?thesis by (subst (1 2) tower_loop.simps) (simp add: call r e dc nd)
    next
      case (Some delay)
      obtain u w3 where sl: "sleep_backoff (call_tokio s) (request_budget rq) delay w2 = (u, w3)" by fastforce
      obtain x w4 where aw: "await_ready s rq w3 = (x, w4)" by fastforce
      have "tower_loop ly ?s rq st (a + 1) w4 = tower_loop ly s rq st (a + 1) w4" if "u = Ok ()" "x = Ok ()"
      proof (rule "1.IH")
        show "P w4" using "1.prems"(3) aw that by blast
      qed (use that r e dc nd Some sl aw "1.prems"(2,3) in auto)
      then show ?thesis
        by (subst (1 2) tower_loop.simps) (auto simp: call r e dc nd Some sl rd aw split: result.splits)
    qed
  qed
qed

lemma budget_timeout_agree:
  assumes "timeout_local tk"
    and "\<not> is_exhausted (core b) (tokio_elapsed tk b w) \<Longrightarrow> fut w = fut' w"
  shows "budget_timeout tk b t fut w = budget_timeout tk b t fut' w"
proof (cases "is_exhausted (core b) (tokio_elapsed tk b w)")
  case False
  with assms have "tokio_timeout tk d fut w = tokio_timeout tk d fut' w" for d
    unfolding timeout_local_def by blast
  then show ?thesis by (simp add: budget_timeout_cases)
qed (simp add: budget_timeout_cases)

subsection \<open>Readiness\<close>

text \<open>
  What the documentation of Tower promises of \<open>poll_ready\<close>, and Tokio's of a timeout that passes on an
  output: \<open>ready\<close> are the worlds in which the instance has room reserved for one call.
\<close>

definition readiness_reserves :: "('w, 'req, 't, 'e) service \<Rightarrow> ('w \<Rightarrow> bool) \<Rightarrow> bool" where
  "readiness_reserves s ready \<longleftrightarrow>
     (\<forall>w u w'. svc_ready s w = (Ok u, w') \<longrightarrow> ready w') \<and>
     (\<forall>d w v w'. tokio_timeout (ready_tokio s) d (svc_ready s) w = (Some v, w') \<longrightarrow> svc_ready s w = (v, w'))"

lemma budget_timeout_Ok:
  "budget_timeout tk b t fut w = (Ok v, w') \<Longrightarrow>
     tokio_timeout tk (clamp_child (core b) (tokio_elapsed tk b w) t) fut w = (Some v, w')"
  by (auto simp: budget_timeout_cases split: if_splits prod.splits option.splits)

lemma await_ready_reserves:
  assumes "readiness_reserves s ready" and "await_ready s rq w = (Ok u, w')"
  shows "ready w'"
proof -
  have "\<exists>u. svc_ready s w = (Ok u, w')"
    using assms
    by (auto simp: await_ready_def readiness_reserves_def split: option.splits prod.splits result.splits
        dest!: budget_timeout_Ok)
  then show ?thesis using assms(1) unfolding readiness_reserves_def by blast
qed

subsection \<open>Properties\<close>

text \<open>C15: one logical request makes at most \<open>max_attempts\<close> physical requests, whatever times out, sleeps or
  becomes unready, however the service and the factory behave.\<close>

theorem tower_attempts_bounded:
  assumes "counts_makes ly s count"
  shows "count (snd (tower_call ly s rq w)) \<le> count w + unat (nz_get (max_attempts (layer_policy ly)))"
  using tower_loop_makes [OF assms, of rq "std_clock s w" 1 w] nz_get_ge_1 [of "max_attempts (layer_policy ly)"]
  by (simp add: tower_call_def max_def split: if_splits)

text \<open>A service in simulated time that counts the requests made, fails after 3 nanoseconds, and a Tokio of
  that world.\<close>

definition counting_tokio :: "(instant \<times> nat, 'a) tokio" where
  "counting_tokio =
     \<lparr>tokio_clock = fst, tokio_sleep = (\<lambda>d (t, n). (t + as_nanos d, n)),
      tokio_timeout = (\<lambda>d fut w. case fut w of
        (v, w') \<Rightarrow> if fst w' \<le> fst w + as_nanos d then (Some v, w') else (None, (fst w + as_nanos d, snd w'))),
      tokio_select = (\<lambda>c fut w. case (c w, fut w) of
        ((u, wc), (r, wr)) \<Rightarrow> if fst wc \<le> fst wr then (None, wc) else (Some r, wr))\<rparr>"

definition counting_service :: "(instant \<times> nat, nat, unit, unit) service" where
  "counting_service =
     \<lparr>make_request = (\<lambda>(t, n). (n, (t, Suc n))), svc_call = (\<lambda>req (t, n). (Err (), (t + 3, n))),
      svc_ready = (\<lambda>w. (Ok (), w)), std_clock = fst, call_tokio = counting_tokio, ready_tokio = counting_tokio,
      svc_draw = (\<lambda>n w. (0, w))\<rparr>"

definition counting_layer :: "(instant \<times> nat, unit) tower_layer" where
  "counting_layer = tower_layer_new three_attempts (by_error (\<lambda>_. Retry))"

lemma counting_service_counts [simp]: "counts_makes counting_layer counting_service snd"
  by (auto simp: counts_makes_def counting_layer_def tower_layer_new_def by_error_def counting_service_def counting_tokio_def physical_call_def split: prod.splits)

theorem tower_attempts_bounded_witness:
  "snd (snd (tower_call counting_layer counting_service
     (tower_request_new (tokio_from_start unlimited 0) (from_millis 5)) (0, 0))) \<le> 3"
  using tower_attempts_bounded [OF counting_service_counts, of
      "tower_request_new (tokio_from_start unlimited 0) (from_millis 5)" "(0, 0)"]
  by (simp add: counting_layer_def tower_layer_new_def three_attempts_def policy_new_def)

text \<open>C16: nothing is attempted after the logical deadline: whatever the factory and the service would do once
  the budget is exhausted cannot change the result of the request, nor the world it leaves.\<close>

theorem tower_no_attempt_after_deadline:
  assumes "timeout_local (call_tokio s)"
    and "\<forall>w. \<not> is_exhausted (core (request_budget rq)) (tokio_elapsed (call_tokio s) (request_budget rq) w) \<longrightarrow>
      physical_call (s\<lparr>make_request := mk, svc_call := c\<rparr>) w = physical_call s w"
  shows "tower_call ly (s\<lparr>make_request := mk, svc_call := c\<rparr>) rq w = tower_call ly s rq w"
  unfolding tower_call_def
  by (simp, rule tower_loop_agree [where P = "\<lambda>w. True"]) (use assms in \<open>auto intro: budget_timeout_agree\<close>)

theorem tower_no_attempt_after_deadline_witness:
  "tower_call counting_layer (counting_service\<lparr>make_request := make_request counting_service,
       svc_call := (\<lambda>req (t, n). if t < 100 then svc_call counting_service req (t, n) else (Ok (), (0, 0)))\<rparr>)
     (tower_request_new (tokio_from_start (bounded (from_nanos 100)) 0) (from_millis 5)) (0, 0) =
   tower_call counting_layer counting_service
     (tower_request_new (tokio_from_start (bounded (from_nanos 100)) 0) (from_millis 5)) (0, 0)"
proof (rule tower_no_attempt_after_deadline)
  show "timeout_local (call_tokio counting_service)"
    by (simp add: timeout_local_def counting_service_def counting_tokio_def)
  let ?rq = "tower_request_new (tokio_from_start (bounded (from_nanos 100)) 0) (from_millis 5)"
  let ?s = "counting_service\<lparr>make_request := make_request counting_service,
    svc_call := (\<lambda>req (t, n). if t < 100 then svc_call counting_service req (t, n) else (Ok (), (0, 0)))\<rparr>"
  have early: "fst w < 100"
    if "\<not> is_exhausted (core (request_budget ?rq)) (tokio_elapsed (call_tokio counting_service) (request_budget ?rq) w)" for w
    using that by (auto simp: counting_service_def counting_tokio_def tower_request_new_def tokio_from_start_def
        tokio_elapsed_def elapsed_since_def budget_defs dur duration_max_def min_def split: if_splits)
  show "\<forall>w. \<not> is_exhausted (core (request_budget ?rq))
      (tokio_elapsed (call_tokio counting_service) (request_budget ?rq) w) \<longrightarrow>
      physical_call ?s w = physical_call counting_service w"
  proof (intro allI impI)
    fix w assume "\<not> is_exhausted (core (request_budget ?rq))
      (tokio_elapsed (call_tokio counting_service) (request_budget ?rq) w)"
    then have "fst w < 100" by (rule early)
    then show "physical_call ?s w = physical_call counting_service w"
      by (cases w) (simp add: physical_call_def counting_service_def)
  qed
qed

text \<open>C17: backpressure is respected: the future of \<open>call\<close> calls the wrapped service only where that very
  instance has reserved room, first by the caller's \<open>poll_ready\<close> and then by the loop's own wait after each
  backoff. Whatever an instance, a clone included, would do when it is called unready cannot change the result.\<close>

theorem tower_calls_only_ready_instance:
  assumes "\<forall>i. readiness_reserves (methods i) (ready i)" and "\<forall>i. timeout_local (call_tokio (methods i))"
    and "\<forall>i w. ready i w \<longrightarrow>
      physical_call ((methods i)\<lparr>make_request := mk i, svc_call := c i\<rparr>) w = physical_call (methods i) w"
    and "ready (service_inner sv) w'"
  shows "fst (tower_service_call clone (\<lambda>i. (methods i)\<lparr>make_request := mk i, svc_call := c i\<rparr>) sv rq w) w' =
    fst (tower_service_call clone methods sv rq w) w'"
proof -
  let ?i = "service_inner sv"
  have "tower_loop ly ((methods ?i)\<lparr>make_request := mk ?i, svc_call := c ?i\<rparr>) rq st a w' =
      tower_loop ly (methods ?i) rq st a w'" for ly st a
  proof (rule tower_loop_agree [where P = "ready ?i"])
    show "ready ?i w2" if "await_ready (methods ?i) rq w1 = (Ok u, w2)" for w1 u w2
      using assms(1) that by (blast intro: await_ready_reserves)
  qed (use assms in \<open>auto intro: budget_timeout_agree\<close>)
  then show ?thesis by (simp add: tower_service_call_def tower_call_def split: prod.split)
qed

text \<open>Instances with room for one call each; a call without room would succeed at once.\<close>

definition ideal_tokio :: "('w, 'a) tokio" where
  "ideal_tokio =
     \<lparr>tokio_clock = (\<lambda>w. 0), tokio_sleep = (\<lambda>d w. w), tokio_timeout = (\<lambda>d fut w. apfst Some (fut w)),
      tokio_select = (\<lambda>c fut w. apfst Some (fut w))\<rparr>"

definition one_call_methods :: "nat \<Rightarrow> (nat \<Rightarrow> bool, unit, unit, unit) service" where
  "one_call_methods i =
     \<lparr>make_request = (\<lambda>w. ((), w)), svc_call = (\<lambda>req w. (Err (), w(i := False))), svc_ready = (\<lambda>w. (Ok (), w(i := True))),
      std_clock = (\<lambda>w. 0), call_tokio = ideal_tokio, ready_tokio = ideal_tokio, svc_draw = (\<lambda>n w. (0, w))\<rparr>"

lemma one_call_laws:
  "\<forall>i. readiness_reserves (one_call_methods i) (\<lambda>w. w i)"
  "\<forall>i. timeout_local (call_tokio (one_call_methods i))"
  "\<forall>i w. w i \<longrightarrow> physical_call ((one_call_methods i)\<lparr>make_request := make_request (one_call_methods i),
     svc_call := \<lambda>req w. if w i then (Err (), w(i := False)) else (Ok (), w)\<rparr>) w = physical_call (one_call_methods i) w"
  by (auto simp: readiness_reserves_def timeout_local_def physical_call_def one_call_methods_def ideal_tokio_def)

theorem tower_calls_only_ready_instance_witness:
  "fst (tower_service_call (\<lambda>i w. (Suc i, w(Suc i := False)))
       (\<lambda>i. (one_call_methods i)\<lparr>make_request := make_request (one_call_methods i),
         svc_call := \<lambda>req w. if w i then (Err (), w(i := False)) else (Ok (), w)\<rparr>)
       (tower_layer_apply (tower_layer_new three_attempts (by_error (\<lambda>_. Retry))) 7)
       (tower_request_new (tokio_from_start unlimited 0) (from_millis 5)) (\<lambda>i. False)) ((\<lambda>i. False)(7 := True)) =
   fst (tower_service_call (\<lambda>i w. (Suc i, w(Suc i := False))) one_call_methods
       (tower_layer_apply (tower_layer_new three_attempts (by_error (\<lambda>_. Retry))) 7)
       (tower_request_new (tokio_from_start unlimited 0) (from_millis 5)) (\<lambda>i. False)) ((\<lambda>i. False)(7 := True))"
  by (rule tower_calls_only_ready_instance [OF one_call_laws]) (simp add: tower_layer_apply_def)

text \<open>C35: without a logical deadline, timeouts or unreadiness, the Tower service is the core retry: the same
  attempts, delays and result, with the final error marked as a call failure.\<close>

theorem tower_like_retry:
  assumes "undisturbed s" and "limit (core (request_budget rq)) = None"
  shows "apfst Return (tower_call ly s rq w) =
    apfst (map_outcome (map_err CallFailed)) (retry (layer_policy ly) (service_env s) (layer_classify ly) w)"
proof -
  have "clock (service_env s) w = std_clock s w" by (simp add: service_env_def)
  then show ?thesis using tower_loop_like_retry [OF assms] by (simp add: tower_call_def retry_def)
qed

definition steady_service :: "(instant \<times> nat, nat, unit, unit) service" where
  "steady_service = counting_service\<lparr>call_tokio :=
     counting_tokio\<lparr>tokio_timeout := (\<lambda>d fut w. (Some (fst (fut w)), snd (fut w)))\<rparr>\<rparr>"

theorem tower_like_retry_witness:
  "Return (fst (tower_call counting_layer steady_service (tower_request_new (tokio_from_start unlimited 0) (from_millis 5)) (0, 0))) =
   map_outcome (map_err CallFailed)
     (fst (retry three_attempts (service_env steady_service) (by_error (\<lambda>_. Retry)) (0, 0)))"
proof -
  have "undisturbed steady_service" by (simp add: undisturbed_def steady_service_def counting_service_def)
  from tower_like_retry [OF this, of "tower_request_new (tokio_from_start unlimited 0) (from_millis 5)" counting_layer "(0, 0)"]
  show ?thesis
    by (simp add: tower_request_new_def tokio_from_start_def unlimited_def counting_layer_def tower_layer_new_def prod_eq_iff)
qed

end
