(* ===== verification/Route_Traffic.thy ===== *)
theory Route_Traffic
  imports Resource_Registry Breaker_Spec Observability
begin

section \<open>Traffic over the resources of routes\<close>

text \<open>
  What requests do with the resources the registry hands them: breaker calls, bulkhead acquisitions
  and returns, retry-budget requests and replenishments, each on the cell that the traffic's
  namespace has in the handle. The documented isolation of primary and shadow traffic is a
  noninterference property of any interleaving of such uses.
\<close>

datatype resource_use =
  BreakerUse call_event | BulkheadAcquire | BulkheadReturn | BudgetUse budget_op

fun use_cell :: "resource_use \<Rightarrow> cell \<Rightarrow> cell" where
  "use_cell (BreakerUse ev) (BreakerCell cfg s) = BreakerCell cfg (seq_call cfg s ev)"
| "use_cell BulkheadAcquire (BulkheadCell b) = BulkheadCell (snd (bulkhead_try_acquire b))"
| "use_cell BulkheadReturn (BulkheadCell b) = BulkheadCell (snd (bulkhead_permit_drop \<lparr>released = False\<rparr> b))"
| "use_cell (BudgetUse op) (BudgetCell b) = BudgetCell (budget_step b op)"
| "use_cell u c = c"

text \<open>The cell a use goes to: the breaker, bulkhead or budget of the namespace.\<close>

fun use_target :: "traffic_role \<Rightarrow> route_resources \<Rightarrow> resource_use \<Rightarrow> nat" where
  "use_target PrimaryTraffic r (BreakerUse ev) = primary_breaker (resources_primary r)"
| "use_target PrimaryTraffic r (BudgetUse op) = primary_budget (resources_primary r)"
| "use_target PrimaryTraffic r u = primary_bulkhead (resources_primary r)"
| "use_target ShadowTraffic r (BreakerUse ev) = shadow_breaker (resources_shadow r)"
| "use_target ShadowTraffic r (BudgetUse op) = shadow_budget (resources_shadow r)"
| "use_target ShadowTraffic r u = shadow_bulkhead (resources_shadow r)"

type_synonym traffic = "traffic_role \<times> route_resources \<times> resource_use"

fun traffic_step :: "memory \<Rightarrow> traffic \<Rightarrow> memory" where
  "traffic_step m (role, r, u) = update_cell (use_target role r u) (use_cell u) m"

definition namespace_cells :: "traffic_role \<Rightarrow> route_resources \<Rightarrow> nat list" where
  "namespace_cells role r = (case role of PrimaryTraffic \<Rightarrow> primary_cells r | ShadowTraffic \<Rightarrow> shadow_cells r)"

lemma use_target_in [simp]: "use_target role r u \<in> set (namespace_cells role r)"
  by (cases role; cases u) (simp_all add: namespace_cells_def primary_cells_def shadow_cells_def Let_def)

lemma namespace_cells_all: "set (namespace_cells role r) \<subseteq> set (all_cells r)"
  by (cases role) (auto simp: namespace_cells_def all_cells_def)

lemma update_cell_at [simp]:
  "cells (update_cell a f m) b = (if b = a then map_option f (cells m a) else cells m b)"
  by (simp add: update_cell_def)

text \<open>Handles and their namespaces do not overlap, unless they are the same.\<close>

lemma namespaces_disjoint:
  assumes "(i, r) \<in> set (handles (m, registry_new pp sp) xs)"
    and "(i', r') \<in> set (handles (m, registry_new pp sp) xs)" and "(role, r) \<noteq> (role', r')"
  shows "set (namespace_cells role r) \<inter> set (namespace_cells role' r') = {}"
proof (cases "r = r'")
  case True
  with assms(3) have "role \<noteq> role'" by simp
  moreover have "distinct (primary_cells r @ shadow_cells r)"
    using handles_separate [OF registry_inv_new assms(1,1)] by (simp add: all_cells_def)
  ultimately show ?thesis
    by (cases role; cases role') (auto simp: True namespace_cells_def)
next
  case False
  then have "set (all_cells r) \<inter> set (all_cells r') = {}"
    using handles_separate [OF registry_inv_new assms(1,2)] by (auto simp: separate_def)
  then show ?thesis using namespace_cells_all by blast
qed

text \<open>Memories that agree on some cells keep agreeing under uses of these cells, and uses of others do
  not matter.\<close>

lemma traffic_agrees:
  assumes "\<And>role r u. (role, r, u) \<in> set us \<Longrightarrow> use_target role r u \<in> A \<longleftrightarrow> P (role, r, u)"
    and "\<forall>a \<in> A. cells m a = cells m' a"
  shows "\<forall>a \<in> A. cells (run traffic_step m us) a = cells (run traffic_step m' (filter P us)) a"
  using assms
proof (induction us arbitrary: m m')
  case (Cons x us)
  obtain role r u where x: "x = (role, r, u)" by (cases x)
  have "use_target role r u \<in> A \<longleftrightarrow> P x" using Cons.prems(1) [of role r u] by (simp add: x)
  with Cons.prems(2) have "\<forall>a \<in> A. cells (traffic_step m x) a = cells (if P x then traffic_step m' x else m') a"
    by (auto simp: x)
  from Cons.IH [OF _ this] Cons.prems(1) show ?case by simp
qed simp

subsection \<open>Properties\<close>

text \<open>C13: traffic in one namespace of a route never affects another: after any interleaving of breaker
  calls, bulkhead acquisitions and budget requests on any resources the registry handed out, the
  breaker, bulkhead and budget of a route's primary (or shadow) namespace are what this namespace's
  own traffic alone made of them. Shadow failures do not trip the primary breaker, nor do shadow
  retries consume the primary budget.\<close>

theorem namespaces_do_not_interfere:
  assumes "(i, r) \<in> set (handles (m0, registry_new pp sp) xs)"
    and "\<forall>(role', r', u) \<in> set us. \<exists>i'. (i', r') \<in> set (handles (m0, registry_new pp sp) xs)"
    and "a \<in> set (namespace_cells role r)"
  shows "cells (run traffic_step m us) a =
    cells (run traffic_step m (filter (\<lambda>(role', r', u). role' = role \<and> r' = r) us)) a"
proof -
  let ?A = "set (namespace_cells role r)" and ?P = "\<lambda>(role', r', u). role' = role \<and> r' = r"
  have "use_target role' r' u \<in> ?A \<longleftrightarrow> ?P (role', r', u)" if x: "(role', r', u) \<in> set us" for role' r' u
  proof (cases "(role', r') = (role, r)")
    case False
    obtain i' where "(i', r') \<in> set (handles (m0, registry_new pp sp) xs)"
      using bspec [OF assms(2) x] by (simp only: prod.case) blast
    from namespaces_disjoint [OF this assms(1) False] have "use_target role' r' u \<notin> ?A"
      using use_target_in [of role' r' u] by blast
    with False show ?thesis by simp
  qed simp
  from traffic_agrees [of us ?A ?P m m, OF this] assms(3) show ?thesis by blast
qed

theorem namespaces_do_not_interfere_witness:
  "\<exists>r. handles sample_registry [Acquire_Handle (RouteId ''a'')] = [(RouteId ''a'', r)] \<and>
     cells (run traffic_step (fst (run registry_ops sample_registry [Acquire_Handle (RouteId ''a'')]))
       [(ShadowTraffic, r, BudgetUse budget_op.Acquire), (ShadowTraffic, r, BulkheadAcquire)])
       (primary_budget (resources_primary r)) =
     cells (fst (run registry_ops sample_registry [Acquire_Handle (RouteId ''a'')]))
       (primary_budget (resources_primary r))"
proof -
  let ?xs = "[Acquire_Handle (RouteId ''a'')]"
  have "\<exists>r. handles sample_registry ?xs = [(RouteId ''a'', r)]" by simp
  then obtain r where h: "handles sample_registry ?xs = [(RouteId ''a'', r)]" by blast
  then have r: "(RouteId ''a'', r) \<in> set (handles sample_registry ?xs)" by simp
  let ?us = "[(ShadowTraffic, r, BudgetUse budget_op.Acquire), (ShadowTraffic, r, BulkheadAcquire)]"
  have us: "\<forall>(role', r', u) \<in> set ?us. \<exists>i'. (i', r') \<in> set (handles sample_registry ?xs)"
    using r by auto
  have a: "primary_budget (resources_primary r) \<in> set (namespace_cells PrimaryTraffic r)"
    by (simp add: namespace_cells_def primary_cells_def Let_def)
  from namespaces_do_not_interfere [OF r [unfolded sample_registry_def] us [unfolded sample_registry_def] a,
      of "fst (run registry_ops sample_registry ?xs)"] h
  show ?thesis by (simp del: run.simps traffic_step.simps) simp
qed

end
