(* ===== verification/Async_Retry.thy ===== *)
theory Async_Retry
  imports Retry
begin

section \<open>The future of retry\_async (src/src/retry.rs)\<close>

text \<open>
  \<open>Retry\<close> models an \<open>await\<close> as a function that runs to its end. Here \<open>retry_async\<close> is the state machine that
  an \<open>async fn\<close> is: it is suspended before its first poll, in the future of the operation or in a sleep,
  and a poll takes it to the next of these points. Between two polls anybody may change the world, and at
  any of these points the future may be dropped, which drops the child future it waits in. The futures
  of the operation and of the sleep are parameters: how they are created, polled and dropped. Polled to its
  end the machine is \<open>retry_async\<close>; dropped at any point it keeps to the attempts of the policy and leaves no
  child behind.
\<close>

datatype ('a, 'f) poll = Ready 'a | Pending 'f

text \<open>A panic of the closure or of a poll of its future is the outcome \<open>Panic\<close>; the unwinding drops the future.\<close>

record ('w, 'f, 's, 't, 'e) async_env =
  start_op :: "'w \<Rightarrow> 'f \<times> 'w"
  poll_op :: "'f \<Rightarrow> 'w \<Rightarrow> (('t, 'e) result outcome, 'f) poll \<times> 'w"
  drop_op :: "'f \<Rightarrow> 'w \<Rightarrow> 'w"
  start_sleep :: "duration \<Rightarrow> 'w \<Rightarrow> 's \<times> 'w"
  poll_sleep :: "'s \<Rightarrow> 'w \<Rightarrow> (unit, 's) poll \<times> 'w"
  drop_sleep :: "'s \<Rightarrow> 'w \<Rightarrow> 'w"
  async_clock :: "'w \<Rightarrow> instant"
  async_draw :: "'w draw_inclusive"

datatype ('f, 's) retry_future =
  Unpolled | InOperation instant u32 'f | InSleep instant u32 's

text \<open>The loop body from the point where the result of an attempt is there to the next suspension.\<close>

function settle ::
    "retry_policy \<Rightarrow> ('w, 'f, 's, 't, 'e) async_env \<Rightarrow> ('w, 'e) classifier \<Rightarrow> instant \<Rightarrow> u32 \<Rightarrow>
     ('t, 'e) result outcome \<Rightarrow> 'w \<Rightarrow> (('t, 'e) result outcome, ('f, 's) retry_future) poll \<times> 'w" where
  "settle p env classify started attempt r w =
     (case r of
       Panic \<Rightarrow> (Ready Panic, w)
     | Return (Ok v) \<Rightarrow> (Ready (Return (Ok v)), w)
     | Return (Err e) \<Rightarrow>
         (case classify e w of (decision, w1) \<Rightarrow>
            (case next_delay (async_draw env) p attempt (elapsed_since started (async_clock env w1)) decision w1 of
              (None, w2) \<Rightarrow> (Ready (Return (Err e)), w2)
            | (Some delay, w2) \<Rightarrow>
                (case start_sleep env delay w2 of (s, w3) \<Rightarrow>
                  (case poll_sleep env s w3 of
                    (Pending s', w4) \<Rightarrow> (Pending (InSleep started attempt s'), w4)
                  | (Ready u, w4) \<Rightarrow>
                      (case start_op env w4 of (f, w5) \<Rightarrow>
                        (case poll_op env f w5 of
                          (Pending f', w6) \<Rightarrow> (Pending (InOperation started (attempt + 1) f'), w6)
                        | (Ready r', w6) \<Rightarrow> settle p env classify started (attempt + 1) r' w6)))))))"
  by pat_completeness auto
termination
  by (relation "measure (\<lambda>(p, env, c, st, a, r, w). unat (nz_get (max_attempts p)) - unat a)")
    (auto dest!: next_delay_progress [OF sym])

declare settle.simps [simp del]

definition poll_operation ::
    "retry_policy \<Rightarrow> ('w, 'f, 's, 't, 'e) async_env \<Rightarrow> ('w, 'e) classifier \<Rightarrow> instant \<Rightarrow> u32 \<Rightarrow> 'f \<Rightarrow> 'w \<Rightarrow>
     (('t, 'e) result outcome, ('f, 's) retry_future) poll \<times> 'w" where
  "poll_operation p env c st a f w =
     (case poll_op env f w of
       (Pending f', w1) \<Rightarrow> (Pending (InOperation st a f'), w1)
     | (Ready r, w1) \<Rightarrow> settle p env c st a r w1)"

definition begin_attempt ::
    "retry_policy \<Rightarrow> ('w, 'f, 's, 't, 'e) async_env \<Rightarrow> ('w, 'e) classifier \<Rightarrow> instant \<Rightarrow> u32 \<Rightarrow> 'w \<Rightarrow>
     (('t, 'e) result outcome, ('f, 's) retry_future) poll \<times> 'w" where
  "begin_attempt p env c st a w = (case start_op env w of (f, w1) \<Rightarrow> poll_operation p env c st a f w1)"

definition poll_pause ::
    "retry_policy \<Rightarrow> ('w, 'f, 's, 't, 'e) async_env \<Rightarrow> ('w, 'e) classifier \<Rightarrow> instant \<Rightarrow> u32 \<Rightarrow> 's \<Rightarrow> 'w \<Rightarrow>
     (('t, 'e) result outcome, ('f, 's) retry_future) poll \<times> 'w" where
  "poll_pause p env c st a s w =
     (case poll_sleep env s w of
       (Pending s', w1) \<Rightarrow> (Pending (InSleep st a s'), w1)
     | (Ready u, w1) \<Rightarrow> begin_attempt p env c st (a + 1) w1)"

fun poll_retry ::
    "retry_policy \<Rightarrow> ('w, 'f, 's, 't, 'e) async_env \<Rightarrow> ('w, 'e) classifier \<Rightarrow> ('f, 's) retry_future \<Rightarrow> 'w \<Rightarrow>
     (('t, 'e) result outcome, ('f, 's) retry_future) poll \<times> 'w" where
  "poll_retry p env c Unpolled w = begin_attempt p env c (async_clock env w) 1 w"
| "poll_retry p env c (InOperation st a f) w = poll_operation p env c st a f w"
| "poll_retry p env c (InSleep st a s) w = poll_pause p env c st a s w"

fun drop_retry :: "('w, 'f, 's, 't, 'e) async_env \<Rightarrow> ('f, 's) retry_future \<Rightarrow> 'w \<Rightarrow> 'w" where
  "drop_retry env Unpolled w = w"
| "drop_retry env (InOperation st a f) w = drop_op env f w"
| "drop_retry env (InSleep st a s) w = drop_sleep env s w"

text \<open>A task that polls the future after each of the changes \<open>ks\<close> and drops it if it is still pending.\<close>

fun polled_then_dropped ::
    "retry_policy \<Rightarrow> ('w, 'f, 's, 't, 'e) async_env \<Rightarrow> ('w, 'e) classifier \<Rightarrow> ('f, 's) retry_future \<Rightarrow>
     ('w \<Rightarrow> 'w) list \<Rightarrow> 'w \<Rightarrow> ('t, 'e) result outcome option \<times> 'w" where
  "polled_then_dropped p env c fut [] w = (None, drop_retry env fut w)"
| "polled_then_dropped p env c fut (k # ks) w =
     (case poll_retry p env c fut (k w) of
       (Ready r, w1) \<Rightarrow> (Some r, w1)
     | (Pending fut', w1) \<Rightarrow> polled_then_dropped p env c fut' ks w1)"

text \<open>Polling a future to its end, where \<open>pass\<close> is what happens to the world until it is woken.\<close>

inductive polls_to ::
    "('f \<Rightarrow> 'w \<Rightarrow> ('a, 'f) poll \<times> 'w) \<Rightarrow> ('w \<Rightarrow> 'w) \<Rightarrow> 'f \<Rightarrow> 'w \<Rightarrow> 'a \<Rightarrow> 'w \<Rightarrow> bool"
  for poll_fut and pass where
  ready: "poll_fut f w = (Ready r, w') \<Longrightarrow> polls_to poll_fut pass f w r w'"
| woken: "poll_fut f w = (Pending f', w1) \<Longrightarrow> polls_to poll_fut pass f' (pass w1) r w' \<Longrightarrow>
    polls_to poll_fut pass f w r w'"

inductive_cases polls_toE: "polls_to poll_fut pass f w r w'"

lemma polls_to_unique:
  "polls_to poll_fut pass f w r w' \<Longrightarrow> polls_to poll_fut pass f w r2 w2 \<Longrightarrow> r2 = r \<and> w2 = w'"
proof (induction rule: polls_to.induct)
  case (ready f w r w')
  from ready.prems ready.hyps show ?case by (cases rule: polls_toE) auto
next
  case (woken f w f' w1 r w')
  from woken.prems woken.hyps woken.IH show ?case by (cases rule: polls_toE) auto
qed

subsection \<open>Polled to its end\<close>

text \<open>Where a poll leads if the future is polled on.\<close>

fun leads_to ::
    "('f \<Rightarrow> 'w \<Rightarrow> ('a, 'f) poll \<times> 'w) \<Rightarrow> ('w \<Rightarrow> 'w) \<Rightarrow> ('a, 'f) poll \<times> 'w \<Rightarrow> 'a \<times> 'w \<Rightarrow> bool" where
  "leads_to poll_fut pass (Ready r, w) x = (x = (r, w))"
| "leads_to poll_fut pass (Pending f, w) x = polls_to poll_fut pass f (pass w) (fst x) (snd x)"

lemma polls_to_iff: "polls_to poll_fut pass f w r w' \<longleftrightarrow> leads_to poll_fut pass (poll_fut f w) (r, w')"
proof (cases "poll_fut f w")
  case (Pair x w1)
  then show ?thesis
    by (cases x) (auto intro: polls_to.intros elim: polls_toE)
qed

text \<open>The awaited calls of \<open>benv\<close> are the futures of \<open>env\<close>, polled to their end.\<close>

definition awaits ::
    "('w, 'f, 's, 't, 'e) async_env \<Rightarrow> ('w \<Rightarrow> 'w) \<Rightarrow> ('w, 't, 'e) env \<Rightarrow> bool" where
  "awaits env pass benv \<longleftrightarrow>
     (\<forall>w. case start_op env w of (f, w1) \<Rightarrow>
        polls_to (poll_op env) pass f w1 (fst (operation benv w)) (snd (operation benv w))) \<and>
     (\<forall>d w. case start_sleep env d w of (s, w1) \<Rightarrow> polls_to (poll_sleep env) pass s w1 () (sleep benv d w)) \<and>
     async_clock env = clock benv \<and> async_draw env = draw benv"

lemma operation_leads:
  assumes "polls_to (poll_op env) pass f w r w1"
    and "leads_to (poll_retry p env c) pass (settle p env c st a r w1) x"
  shows "leads_to (poll_retry p env c) pass (poll_operation p env c st a f w) x"
  using assms
proof (induction rule: polls_to.induct)
  case (ready f w r w')
  then show ?case by (simp add: poll_operation_def)
next
  case (woken f w f' w1 r w')
  then have "leads_to (poll_retry p env c) pass (poll_operation p env c st a f' (pass w1)) x" by blast
  with woken.hyps show ?case by (cases x) (simp add: poll_operation_def polls_to_iff)
qed

lemma pause_leads:
  assumes "polls_to (poll_sleep env) pass s w u w1"
    and "leads_to (poll_retry p env c) pass (begin_attempt p env c st (a + 1) w1) x"
  shows "leads_to (poll_retry p env c) pass (poll_pause p env c st a s w) x"
  using assms
proof (induction rule: polls_to.induct)
  case (ready s w u w')
  then show ?case by (simp add: poll_pause_def)
next
  case (woken s w s' w1 u w')
  then have "leads_to (poll_retry p env c) pass (poll_pause p env c st a s' (pass w1)) x" by blast
  with woken.hyps show ?case by (cases x) (simp add: poll_pause_def polls_to_iff)
qed

text \<open>The rest of the loop body, in the three ways an attempt can end.\<close>

lemma settle_ends: "(\<And>e. r \<noteq> Return (Err e)) \<Longrightarrow> settle p env c st a r w = (Ready r, w)"
  by (subst settle.simps) (auto split: outcome.split result.split)

lemma settle_gives_up:
  assumes "c e w = (dec, w1)"
    and "next_delay (async_draw env) p a (elapsed_since st (async_clock env w1)) dec w1 = (None, w2)"
  shows "settle p env c st a (Return (Err e)) w = (Ready (Return (Err e)), w2)"
  using assms by (subst settle.simps) simp

lemma settle_again:
  assumes "c e w = (dec, w1)"
    and "next_delay (async_draw env) p a (elapsed_since st (async_clock env w1)) dec w1 = (Some d, w2)"
  shows "settle p env c st a (Return (Err e)) w =
    (case start_sleep env d w2 of (s, w3) \<Rightarrow> poll_pause p env c st a s w3)"
  using assms
  by (subst settle.simps) (simp add: poll_pause_def begin_attempt_def poll_operation_def split: prod.split poll.split)

lemma begin_attempt_leads:
  assumes aw: "awaits env pass benv"
  shows "leads_to (poll_retry p env c) pass (begin_attempt p env c st a w) (retry_loop p benv c st a w)"
proof -
  have op: "polls_to (poll_op env) pass (fst (start_op env w)) (snd (start_op env w)) r w1"
    if "operation benv w = (r, w1)" for w r w1
    using conjunct1 [OF aw [unfolded awaits_def], THEN spec, of w] that by (simp add: split_beta)
  have sl: "polls_to (poll_sleep env) pass (fst (start_sleep env d w)) (snd (start_sleep env d w)) () (sleep benv d w)" for d w
    using conjunct1 [OF conjunct2 [OF aw [unfolded awaits_def]], THEN spec, THEN spec, of d w] by (simp add: split_beta)
  have same: "async_clock env = clock benv" "async_draw env = draw benv" using aw by (simp_all add: awaits_def)
  have begins: "leads_to (poll_retry p env c) pass (begin_attempt p env c st a w) x"
    if "operation benv w = (r, w1)" "leads_to (poll_retry p env c) pass (settle p env c st a r w1) x" for a w r w1 x
    using operation_leads [OF op [OF that(1)] that(2)] by (simp add: begin_attempt_def split_beta)
  show ?thesis
  proof (induction rule: retry_loop_induct [where env = benv and c = c and p = p and st = st and
        P = "\<lambda>a w x. leads_to (poll_retry p env c) pass (begin_attempt p env c st a w) x"])
    case (ends a w r w1)
    then show ?case by (simp add: begins settle_ends)
  next
    case (gives_up a w e w1 dec w2 w3)
    then show ?case by (auto intro!: begins simp: settle_gives_up same)
  next
    case (again a w e w1 dec w2 d w3 r)
    have "leads_to (poll_retry p env c) pass (settle p env c st a (Return (Err e)) w1) r"
      using pause_leads [OF sl again(4)] again(2,3) by (simp add: settle_again same split_beta)
    with again(1) show ?case by (rule begins)
  qed
qed


text \<open>So polled to its end, whatever its operation and its sleeps wait for, the future does what the awaited loop does.\<close>

lemma future_is_loop:
  assumes "awaits env pass benv"
  shows "polls_to (poll_retry p env c) pass Unpolled w r w' \<longleftrightarrow> (r, w') = retry_async p benv c w"
proof -
  have "async_clock env = clock benv" using assms by (simp add: awaits_def)
  with begin_attempt_leads [OF assms, of p c "clock benv w" 1 w]
  have "leads_to (poll_retry p env c) pass (poll_retry p env c Unpolled w) (retry_async p benv c w)"
    by (simp add: retry_async_def retry_async_loop_eq)
  then have "polls_to (poll_retry p env c) pass Unpolled w (fst (retry_async p benv c w)) (snd (retry_async p benv c w))"
    by (simp add: polls_to_iff)
  then show ?thesis by (auto dest: polls_to_unique simp: prod_eq_iff)
qed

subsection \<open>The log of a future\<close>

text \<open>
  As for the blocking loop, a log kept beside the world observes a run: an operation is recorded when its future is
  ready, a sleep when it is over. \<open>children_end\<close> is all that is asked of the child futures: polled on,
  they are ready some time.
\<close>

definition logged_async ::
    "('w, 'f, 's, 't, 'e) async_env \<Rightarrow> (('t, 'e) retry_event list \<times> 'w, 'f, duration \<times> 's, 't, 'e) async_env" where
  "logged_async env =
     \<lparr>start_op = (\<lambda>(l, w). case start_op env w of (f, w') \<Rightarrow> (f, (l, w'))),
      poll_op = (\<lambda>f (l, w). case poll_op env f w of
        (Ready r, w') \<Rightarrow> (Ready r, (l @ [Attempt r], w')) | (Pending f', w') \<Rightarrow> (Pending f', (l, w'))),
      drop_op = (\<lambda>f (l, w). (l, drop_op env f w)),
      start_sleep = (\<lambda>d (l, w). case start_sleep env d w of (s, w') \<Rightarrow> ((d, s), (l, w'))),
      poll_sleep = (\<lambda>(d, s) (l, w). case poll_sleep env s w of
        (Ready u, w') \<Rightarrow> (Ready u, (l @ [Slept d], w')) | (Pending s', w') \<Rightarrow> (Pending (d, s'), (l, w'))),
      drop_sleep = (\<lambda>(d, s) (l, w). (l, drop_sleep env s w)),
      async_clock = (\<lambda>(l, w). async_clock env w),
      async_draw = (\<lambda>n (l, w). case async_draw env n w of (x, w') \<Rightarrow> (x, (l, w')))\<rparr>"

definition children_end :: "('w, 'f, 's, 't, 'e) async_env \<Rightarrow> ('w \<Rightarrow> 'w) \<Rightarrow> bool" where
  "children_end env pass \<longleftrightarrow>
     (\<forall>w. case start_op env w of (f, w1) \<Rightarrow> \<exists>r w'. polls_to (poll_op env) pass f w1 r w') \<and>
     (\<forall>d w. case start_sleep env d w of (s, w1) \<Rightarrow> \<exists>w'. polls_to (poll_sleep env) pass s w1 () w')"

lemma children_end_awaits:
  assumes "children_end env pass"
  shows "\<exists>benv. awaits env pass benv"
proof -
  have "\<exists>x. polls_to (poll_op env) pass (fst (start_op env w)) (snd (start_op env w)) (fst x) (snd x)" for w
    using conjunct1 [OF assms [unfolded children_end_def], THEN spec, of w] by (auto simp: split_beta)
  then obtain awaited where op: "\<And>w. polls_to (poll_op env) pass (fst (start_op env w)) (snd (start_op env w))
      (fst (awaited w)) (snd (awaited w))"
    by metis
  have "\<exists>w'. polls_to (poll_sleep env) pass (fst (start_sleep env d w)) (snd (start_sleep env d w)) () w'" for d w
    using conjunct2 [OF assms [unfolded children_end_def], THEN spec, THEN spec, of d w] by (auto simp: split_beta)
  then obtain pause where sl: "\<And>d w. polls_to (poll_sleep env) pass (fst (start_sleep env d w)) (snd (start_sleep env d w)) ()
      (pause d w)"
    by metis
  have "awaits env pass \<lparr>operation = awaited, clock = async_clock env, sleep = pause, draw = async_draw env\<rparr>"
    by (simp add: awaits_def split_beta op sl)
  then show ?thesis by blast
qed

lemma logged_operation_polls:
  "polls_to (poll_op env) pass f w r w' \<Longrightarrow>
     polls_to (poll_op (logged_async env)) (apsnd pass) f (l, w) r (l @ [Attempt r], w')"
  by (induction rule: polls_to.induct) (auto simp: polls_to_iff logged_async_def)

lemma logged_sleep_polls:
  "polls_to (poll_sleep env) pass s w u w' \<Longrightarrow>
     polls_to (poll_sleep (logged_async env)) (apsnd pass) (d, s) (l, w) u (l @ [Slept d], w')"
  by (induction rule: polls_to.induct) (auto simp: polls_to_iff logged_async_def)

lemma logged_awaits:
  fixes env :: "('w, 'f, 's, 't, 'e) async_env"
  assumes "awaits env pass benv"
  shows "awaits (logged_async env) (apsnd pass) (logged benv)"
proof -
  note laws = assms [unfolded awaits_def]
  have same: "async_clock env = clock benv" "async_draw env = draw benv" using laws by simp_all
  show ?thesis
    unfolding awaits_def
  proof (intro conjI allI)
    fix x :: "('t, 'e) retry_event list \<times> 'w"
    obtain l w where x: "x = (l, w)" by (cases x)
    have "polls_to (poll_op env) pass (fst (start_op env w)) (snd (start_op env w)) (fst (operation benv w)) (snd (operation benv w))"
      using conjunct1 [OF laws, THEN spec, of w] by (simp add: split_beta)
    from logged_operation_polls [OF this]
    show "case start_op (logged_async env) x of (f, w1) \<Rightarrow> polls_to (poll_op (logged_async env)) (apsnd pass) f w1
        (fst (operation (logged benv) x)) (snd (operation (logged benv) x))"
      by (simp add: x logged_simps split_beta) (simp add: logged_async_def split_beta)
    fix d
    have "polls_to (poll_sleep env) pass (fst (start_sleep env d w)) (snd (start_sleep env d w)) () (sleep benv d w)"
      using conjunct1 [OF conjunct2 [OF laws], THEN spec, THEN spec, of d w] by (simp add: split_beta)
    from logged_sleep_polls [OF this]
    show "case start_sleep (logged_async env) d x of (s, w1) \<Rightarrow> polls_to (poll_sleep (logged_async env)) (apsnd pass) s w1 ()
        (sleep (logged benv) d x)"
      by (simp add: x logged_simps split_beta) (simp add: logged_async_def split_beta)
  qed (auto simp: logged_async_def logged_def same split_beta Let_def)
qed

subsection \<open>Dropped at any point\<close>

text \<open>
  Two counts that the client reads off the world: \<open>begun\<close>, the operations created, and \<open>live\<close>, the child
  futures that exist. A child exists from its creation until it is ready (or panics) or is dropped; only
  the creation of an operation raises \<open>begun\<close>.
\<close>

definition counts_children ::
    "('w, 'f, 's, 't, 'e) async_env \<Rightarrow> ('w, 'e) classifier \<Rightarrow> ('w \<Rightarrow> nat) \<Rightarrow> ('w \<Rightarrow> nat) \<Rightarrow> bool" where
  "counts_children env c begun live \<longleftrightarrow>
     (\<forall>w. begun (snd (start_op env w)) \<le> Suc (begun w) \<and> live (snd (start_op env w)) = Suc (live w)) \<and>
     (\<forall>f w. case poll_op env f w of (x, w') \<Rightarrow> begun w' \<le> begun w \<and>
        live w' = (case x of Pending f' \<Rightarrow> live w | Ready r \<Rightarrow> live w - 1)) \<and>
     (\<forall>f w. begun (drop_op env f w) \<le> begun w \<and> live (drop_op env f w) = live w - 1) \<and>
     (\<forall>d w. begun (snd (start_sleep env d w)) \<le> begun w \<and> live (snd (start_sleep env d w)) = Suc (live w)) \<and>
     (\<forall>s w. case poll_sleep env s w of (x, w') \<Rightarrow> begun w' \<le> begun w \<and>
        live w' = (case x of Pending s' \<Rightarrow> live w | Ready u \<Rightarrow> live w - 1)) \<and>
     (\<forall>s w. begun (drop_sleep env s w) \<le> begun w \<and> live (drop_sleep env s w) = live w - 1) \<and>
     (\<forall>e w. begun (snd (c e w)) \<le> begun w \<and> live (snd (c e w)) = live w) \<and>
     (\<forall>k w. begun (snd (async_draw env k w)) \<le> begun w \<and> live (snd (async_draw env k w)) = live w)"

definition quiet :: "('w \<Rightarrow> nat) \<Rightarrow> ('w \<Rightarrow> nat) \<Rightarrow> ('w \<Rightarrow> 'w) \<Rightarrow> bool" where
  "quiet begun live k \<longleftrightarrow> (\<forall>w. begun (k w) \<le> begun w \<and> live (k w) = live w)"

lemma counts_children_parts:
  assumes "counts_children env c begun live"
  shows "start_op env w = (f, w') \<Longrightarrow> begun w' \<le> Suc (begun w) \<and> live w' = Suc (live w)"
    and "poll_op env f w = (x, w') \<Longrightarrow>
      begun w' \<le> begun w \<and> live w' = (case x of Pending f' \<Rightarrow> live w | Ready r \<Rightarrow> live w - 1)"
    and "begun (drop_op env f w) \<le> begun w \<and> live (drop_op env f w) = live w - 1"
    and "start_sleep env d w = (s, w') \<Longrightarrow> begun w' \<le> begun w \<and> live w' = Suc (live w)"
    and "poll_sleep env s w = (y, w') \<Longrightarrow>
      begun w' \<le> begun w \<and> live w' = (case y of Pending s' \<Rightarrow> live w | Ready u \<Rightarrow> live w - 1)"
    and "begun (drop_sleep env s w) \<le> begun w \<and> live (drop_sleep env s w) = live w - 1"
    and "c e w = (dec, w') \<Longrightarrow> begun w' \<le> begun w \<and> live w' = live w"
proof -
  note laws = assms [unfolded counts_children_def]
  show "begun w' \<le> Suc (begun w) \<and> live w' = Suc (live w)" if "start_op env w = (f, w')"
    using conjunct1 [OF laws, THEN spec, of w] that by simp
  note laws = conjunct2 [OF laws]
  show "begun w' \<le> begun w \<and> live w' = (case x of Pending f' \<Rightarrow> live w | Ready r \<Rightarrow> live w - 1)"
    if "poll_op env f w = (x, w')"
    using spec [OF spec [OF conjunct1 [OF laws], of f], of w] that by simp
  note laws = conjunct2 [OF laws]
  show "begun (drop_op env f w) \<le> begun w \<and> live (drop_op env f w) = live w - 1"
    using conjunct1 [OF laws] by blast
  note laws = conjunct2 [OF laws]
  show "begun w' \<le> begun w \<and> live w' = Suc (live w)" if "start_sleep env d w = (s, w')"
    using spec [OF spec [OF conjunct1 [OF laws], of d], of w] that by simp
  note laws = conjunct2 [OF laws]
  show "begun w' \<le> begun w \<and> live w' = (case y of Pending s' \<Rightarrow> live w | Ready u \<Rightarrow> live w - 1)"
    if "poll_sleep env s w = (y, w')"
    using spec [OF spec [OF conjunct1 [OF laws], of s], of w] that by simp
  note laws = conjunct2 [OF laws]
  show "begun (drop_sleep env s w) \<le> begun w \<and> live (drop_sleep env s w) = live w - 1"
    using conjunct1 [OF laws] by blast
  note laws = conjunct2 [OF laws]
  show "begun w' \<le> begun w \<and> live w' = live w" if "c e w = (dec, w')"
    using spec [OF spec [OF conjunct1 [OF laws], of e], of w] that by simp
qed

lemma counts_children_delay:
  assumes "counts_children env c begun live" and "next_delay (async_draw env) p a el dec w = (d, w')"
  shows "begun w' \<le> begun w \<and> live w' = live w"
proof -
  have draws: "begun (snd (async_draw env k v)) \<le> begun v" "live (snd (async_draw env k v)) = live v" for k v
    using assms(1) unfolding counts_children_def by blast+
  have "begun w' \<le> begun w" by (rule next_delay_measure [where \<mu> = begun, OF assms(2) draws(1)])
  moreover have "live w' = live w"
    by (rule next_delay_preserves [OF assms(2), of "\<lambda>v. live v = live w"]) (simp_all add: draws)
  ultimately show ?thesis ..
qed


text \<open>What holds of the counts after a poll, of a request that began \<open>n\<close> operations before and found \<open>l\<close>
  children.\<close>

fun future_kept ::
    "('w \<Rightarrow> nat) \<Rightarrow> ('w \<Rightarrow> nat) \<Rightarrow> retry_policy \<Rightarrow> nat \<Rightarrow> nat \<Rightarrow> ('f, 's) retry_future \<Rightarrow> 'w \<Rightarrow> bool" where
  "future_kept begun live p n l Unpolled w = (begun w \<le> n \<and> live w = l)"
| "future_kept begun live p n l (InOperation st a f) w =
     (a \<le> nz_get (max_attempts p) \<and> begun w \<le> n + unat a \<and> live w = Suc l)"
| "future_kept begun live p n l (InSleep st a s) w =
     (a < nz_get (max_attempts p) \<and> begun w \<le> n + unat a \<and> live w = Suc l)"

fun poll_kept ::
    "('w \<Rightarrow> nat) \<Rightarrow> ('w \<Rightarrow> nat) \<Rightarrow> retry_policy \<Rightarrow> nat \<Rightarrow> nat \<Rightarrow> ('r, ('f, 's) retry_future) poll \<times> 'w \<Rightarrow> bool" where
  "poll_kept begun live p n l (Ready r, w) = (begun w \<le> n + unat (nz_get (max_attempts p)) \<and> live w = l)"
| "poll_kept begun live p n l (Pending fut, w) = future_kept begun live p n l fut w"

lemma operation_kept:
  assumes "counts_children env c begun live"
    and "\<And>r w. begun w \<le> n + unat a \<Longrightarrow> live w = l \<Longrightarrow> poll_kept begun live p n l (settle p env c st a r w)"
    and "a \<le> nz_get (max_attempts p)" and "begun w \<le> n + unat a" and "live w = Suc l"
  shows "poll_kept begun live p n l (poll_operation p env c st a f w)"
proof -
  obtain x w1 where x: "poll_op env f w = (x, w1)" by fastforce
  from counts_children_parts(2) [OF assms(1) this] assms(2-) show ?thesis
    by (cases x) (simp_all add: poll_operation_def x)
qed

lemma attempt_kept:
  assumes "counts_children env c begun live"
    and "\<And>r w. begun w \<le> n + unat a \<Longrightarrow> live w = l \<Longrightarrow> poll_kept begun live p n l (settle p env c st a r w)"
    and "a \<le> nz_get (max_attempts p)" and "begun w < n + unat a" and "live w = l"
  shows "poll_kept begun live p n l (begin_attempt p env c st a w)"
proof -
  obtain f w1 where f: "start_op env w = (f, w1)" by fastforce
  from counts_children_parts(1) [OF assms(1) this] assms(4,5) have "begun w1 \<le> n + unat a" "live w1 = Suc l"
    by simp_all
  from operation_kept [OF assms(1-3) this] show ?thesis by (simp add: begin_attempt_def f)
qed

lemma pause_kept:
  assumes "counts_children env c begun live"
    and "\<And>r w. begun w \<le> n + unat (a + 1) \<Longrightarrow> live w = l \<Longrightarrow>
      poll_kept begun live p n l (settle p env c st (a + 1) r w)"
    and "a < nz_get (max_attempts p)" and "begun w \<le> n + unat a" and "live w = Suc l"
  shows "poll_kept begun live p n l (poll_pause p env c st a s w)"
proof -
  obtain x w1 where x: "poll_sleep env s w = (x, w1)" by fastforce
  note sl = counts_children_parts(5) [OF assms(1) this]
  have a: "unat (a + 1) = Suc (unat a)" "a + 1 \<le> nz_get (max_attempts p)"
    using assms(3) by (simp_all add: unat_plus_one inc_le)
  show ?thesis
  proof (cases x)
    case (Ready u)
    with sl assms(4,5) a(1) have "begun w1 < n + unat (a + 1)" "live w1 = l" by simp_all
    from attempt_kept [OF assms(1,2) a(2) this] Ready show ?thesis by (simp add: poll_pause_def x)
  next
    case (Pending s')
    with sl assms(3-) show ?thesis by (simp add: poll_pause_def x)
  qed
qed

lemma settle_kept:
  assumes "counts_children env c begun live"
    and "a \<le> nz_get (max_attempts p)" and "begun w \<le> n + unat a" and "live w = l"
  shows "poll_kept begun live p n l (settle p env c st a r w)"
  using assms(2-)
proof (induction "unat (nz_get (max_attempts p)) - unat a" arbitrary: a r w rule: less_induct)
  case less
  note a = less.prems(1) [unfolded word_le_nat_alt]
  show ?case
  proof (cases "\<exists>e. r = Return (Err e)")
    case False
    with less.prems a show ?thesis by (subst settle_ends) auto
  next
    case True
    then obtain e where e: "r = Return (Err e)" by blast
    obtain dec w1 where dec: "c e w = (dec, w1)" by fastforce
    obtain d w2 where d: "next_delay (async_draw env) p a (elapsed_since st (async_clock env w1)) dec w1 = (d, w2)"
      by fastforce
    note kept = counts_children_parts(7) [OF assms(1) dec] counts_children_delay [OF assms(1) d]
    show ?thesis
    proof (cases d)
      case None
      then show ?thesis
        using kept less.prems a by (simp add: e settle_gives_up [where c = c, OF dec d [unfolded None]])
    next
      case (Some delay)
      obtain s w3 where s: "start_sleep env delay w2 = (s, w3)" by fastforce
      note lt = next_delay_SomeD(2) [OF d [unfolded Some]] and pr = next_delay_progress [OF d [unfolded Some]]
      have w3: "begun w3 \<le> n + unat a" "live w3 = Suc l"
        using counts_children_parts(4) [OF assms(1) s] kept less.prems by simp_all
      have "poll_kept begun live p n l (poll_pause p env c st a s w3)"
        by (rule pause_kept [OF assms(1) less.hyps [OF pr inc_le [OF lt]] lt w3])
      then show ?thesis by (simp add: e settle_again [where c = c, OF dec d [unfolded Some]] s)
    qed
  qed
qed

lemma poll_retry_kept:
  assumes "counts_children env c begun live" and "future_kept begun live p n l fut w"
  shows "poll_kept begun live p n l (poll_retry p env c fut w)"
proof (cases fut)
  case Unpolled
  have one: "1 \<le> nz_get (max_attempts p)" by (simp add: word_le_nat_alt)
  show ?thesis
    unfolding Unpolled poll_retry.simps
    by (rule attempt_kept [OF assms(1) settle_kept [OF assms(1) one] one]) (use assms(2) Unpolled in simp_all)
next
  case (InOperation st a f)
  with assms(2) have a: "a \<le> nz_get (max_attempts p)" and w: "begun w \<le> n + unat a" "live w = Suc l" by simp_all
  from operation_kept [OF assms(1) settle_kept [OF assms(1) a] a w] show ?thesis by (simp add: InOperation)
next
  case (InSleep st a s)
  with assms(2) have a: "a < nz_get (max_attempts p)" and w: "begun w \<le> n + unat a" "live w = Suc l" by simp_all
  from pause_kept [OF assms(1) settle_kept [OF assms(1) inc_le [OF a]] a w] show ?thesis by (simp add: InSleep)
qed

lemma quiet_kept: "quiet begun live k \<Longrightarrow> future_kept begun live p n l fut w \<Longrightarrow> future_kept begun live p n l fut (k w)"
  by (cases fut) (auto simp: quiet_def intro: order_trans)

lemma drop_kept:
  assumes "counts_children env c begun live" and "future_kept begun live p n l fut w"
  shows "begun (drop_retry env fut w) \<le> n + unat (nz_get (max_attempts p)) \<and> live (drop_retry env fut w) = l"
proof (cases fut)
  case Unpolled
  with assms(2) show ?thesis by simp
next
  case (InOperation st a f)
  with assms(2) counts_children_parts(3) [OF assms(1), of f w] show ?thesis by (simp add: word_le_nat_alt)
next
  case (InSleep st a s)
  with assms(2) counts_children_parts(6) [OF assms(1), of s w] show ?thesis by (simp add: word_less_nat_alt)
qed

lemma dropped_kept:
  assumes "counts_children env c begun live" and "list_all (quiet begun live) ks" and "future_kept begun live p n l fut w"
    and "polled_then_dropped p env c fut ks w = (r, w')"
  shows "begun w' \<le> n + unat (nz_get (max_attempts p)) \<and> live w' = l"
  using assms(2-)
proof (induction ks arbitrary: fut w)
  case Nil
  with drop_kept [OF assms(1)] show ?case by simp blast
next
  case (Cons k ks)
  then have "future_kept begun live p n l fut (k w)" by (simp add: quiet_kept)
  from poll_retry_kept [OF assms(1) this] Cons show ?case
    by (auto split: prod.splits poll.splits)
qed

subsection \<open>Properties\<close>

text \<open>C6: polled whenever it is woken, the future of \<open>retry_async\<close> completes if its children do, whatever happens to the world
  between two polls, and what it has then done is this: at least one and at most \<open>max_attempts\<close> operations, each
  awaited to its end before anything else; between two of them one classification, as retryable, and one sleep awaited to
  its end, no longer than the backoff's maximum; its result is that of the last operation, or the panic; and it
  gives up on a retryable error only when the attempts are used up or a time limit is set.\<close>

theorem retry_future_completes:
  assumes "children_end env pass" and "draw_ok (async_draw env)"
  shows "\<exists>r l w'. polls_to (poll_retry p (logged_async env) (logged_by c)) (apsnd pass) Unpolled ([], w) r (l, w') \<and>
    paced (maximum (backoff p)) l r \<and> 0 < attempts l \<and> attempts l \<le> unat (nz_get (max_attempts p)) \<and>
    (\<forall>err. last l = Classified err Retry \<and> max_elapsed p = None \<longrightarrow> attempts l = unat (nz_get (max_attempts p)))"
proof -
  obtain benv where aw: "awaits env pass benv"
    using children_end_awaits [OF assms(1)] by blast
  let ?st = "clock benv w"
  from aw have "draw_ok (draw benv)" using assms(2) by (simp add: awaits_def)
  from retry_loop_logged [OF this, of p c ?st 1 "[]" w] obtain l where
    run: "retry_loop p (logged benv) (logged_by c) ?st 1 ([], w) =
      (fst (retry_loop p benv c ?st 1 w), ([] @ l, snd (retry_loop p benv c ?st 1 w)))" and
    ok: "run_ok p 1 l (fst (retry_loop p benv c ?st 1 w))"
    by blast
  have "clock (logged benv) ([], w) = ?st" by (simp add: logged_simps)
  with run have "polls_to (poll_retry p (logged_async env) (logged_by c)) (apsnd pass) Unpolled ([], w)
      (fst (retry_loop p benv c ?st 1 w)) (l, snd (retry_loop p benv c ?st 1 w))"
    by (simp add: future_is_loop [OF logged_awaits [OF aw]] retry_async_def retry_async_loop_eq)
  with run_ok_whole [OF ok] show ?thesis by blast
qed

text \<open>An operation that fails after two idle polls, in a world that counts the operations begun and the live
  children.\<close>

definition slow_env :: "(nat \<times> nat, nat, nat, unit, unit) async_env" where
  "slow_env =
     \<lparr>start_op = (\<lambda>(b, l). (2, (Suc b, Suc l))),
      poll_op = (\<lambda>n (b, l). if n = 0 then (Ready (Return (Err ())), (b, l - 1)) else (Pending (n - 1), (b, l))),
      drop_op = (\<lambda>n (b, l). (b, l - 1)),
      start_sleep = (\<lambda>d (b, l). (1, (b, Suc l))),
      poll_sleep = (\<lambda>n (b, l). if n = 0 then (Ready (), (b, l - 1)) else (Pending (n - 1), (b, l))),
      drop_sleep = (\<lambda>n (b, l). (b, l - 1)), async_clock = (\<lambda>w. 0), async_draw = (\<lambda>n w. (0, w))\<rparr>"

lemma slow_ends: "children_end slow_env (\<lambda>w. w)"
  by (auto simp: children_end_def slow_env_def polls_to_iff numeral_2_eq_2)

lemma slow_counts: "counts_children slow_env (by_error f) fst snd"
  by (auto simp: counts_children_def slow_env_def)

theorem retry_future_completes_witness:
  "\<exists>r l w'. polls_to (poll_retry three_attempts (logged_async slow_env) (logged_by (by_error (\<lambda>_. Retry)))) (apsnd (\<lambda>w. w))
       Unpolled ([], (0, 0)) r (l, w') \<and> paced (from_millis 100) l r \<and> 0 < attempts l \<and> attempts l \<le> 3"
proof -
  have "draw_ok (async_draw slow_env)" by (simp add: draw_ok_def slow_env_def)
  from retry_future_completes [OF slow_ends this, of three_attempts "by_error (\<lambda>_. Retry)" "(0, 0)"] show ?thesis
    by (auto simp: three_attempts_def policy_new_def)
qed

text \<open>C7: cancelling is safe at every suspension point: however often the future is polled, whatever others do in
  between and wherever it is dropped, it has begun no more operations than \<open>max_attempts\<close>, and neither an
  operation nor a sleep is left behind: the child in which it was suspended is dropped with it.\<close>

theorem retry_future_cancellable:
  assumes "counts_children env c begun live" and "list_all (quiet begun live) ks"
  shows "begun (snd (polled_then_dropped p env c Unpolled ks w)) \<le> begun w + unat (nz_get (max_attempts p)) \<and>
    live (snd (polled_then_dropped p env c Unpolled ks w)) = live w"
  using dropped_kept [OF assms, of p "begun w" "live w" Unpolled w, OF _ surjective_pairing] by simp

theorem retry_future_cancellable_witness:
  "fst (snd (polled_then_dropped three_attempts slow_env (by_error (\<lambda>_. Retry)) Unpolled (replicate 7 (\<lambda>w. w)) (0, 5))) \<le> 3 \<and>
   snd (snd (polled_then_dropped three_attempts slow_env (by_error (\<lambda>_. Retry)) Unpolled (replicate 7 (\<lambda>w. w)) (0, 5))) = 5"
  using retry_future_cancellable [OF slow_counts, of "replicate 7 (\<lambda>w. w)" three_attempts "\<lambda>_. Retry" "(0, 5)"]
  by (simp add: quiet_def list_all_iff three_attempts_def policy_new_def)

end
