(* ===== verification/Atomic_Counter.thy ===== *)
theory Atomic_Counter
  imports Bulkhead
begin

section \<open>The counter interface of the bulkhead (src/src/bulkhead.rs)\<close>

text \<open>
  \<open>try_reserve\<close> is generic in a trait, so that Loom can run it on its own atomics. Here is the
  trait as a record of operations, the loop as it stands over any implementation, which need not end by
  itself, and the contract that makes it end: an exchange on the value last seen fails only finitely
  often. The implementation for the standard library's \<open>AtomicUsize\<close> is a cell on which other threads write
  and whose weak exchange may fail although the value is the expected one; what is still to come of that is a
  script in its state. \<open>Bulkhead\<close> has the same loop with the values observed as an argument.
\<close>

record 'c atomic_counter =
  atomic_load :: "'c \<Rightarrow> usize \<times> 'c"
  compare_exchange_weak :: "usize \<Rightarrow> usize \<Rightarrow> 'c \<Rightarrow> (usize, usize) result \<times> 'c"
  fetch_sub :: "usize \<Rightarrow> 'c \<Rightarrow> usize \<times> 'c"

partial_function (option) reserve_loop :: "'c atomic_counter \<Rightarrow> usize \<Rightarrow> usize \<Rightarrow> 'c \<Rightarrow> (bool \<times> 'c) option" where
  "reserve_loop ac capacity current c =
     (if current \<ge> capacity then Some (False, c)
      else case compare_exchange_weak ac current (current + 1) c of
        (Ok v, c') \<Rightarrow> Some (True, c')
      | (Err observed, c') \<Rightarrow> reserve_loop ac capacity observed c')"

definition generic_try_reserve :: "'c atomic_counter \<Rightarrow> usize \<Rightarrow> 'c \<Rightarrow> (bool \<times> 'c) option" where
  "generic_try_reserve ac capacity c = (case atomic_load ac c of (current, c') \<Rightarrow> reserve_loop ac capacity current c')"

definition generic_release_slot :: "'c atomic_counter \<Rightarrow> 'c \<Rightarrow> unit outcome \<times> 'c" where
  "generic_release_slot ac c =
     (case fetch_sub ac 1 c of (previous, c') \<Rightarrow> ((if previous > 0 then Return () else Panic), c'))"

subsection \<open>The contract\<close>

text \<open>\<open>cell_value\<close> is the number in the cell, \<open>failures_left\<close> bounds the exchanges that may still fail although they
  expect that number.\<close>

locale lock_free_counter =
  fixes ac :: "'c atomic_counter" and cell_value :: "'c \<Rightarrow> usize" and failures_left :: "'c \<Rightarrow> nat"
  assumes load: "atomic_load ac c = (v, c') \<Longrightarrow> cell_value c' = v"
    and exchanged: "compare_exchange_weak ac cur new c = (Ok v, c') \<Longrightarrow> v = cur \<and> cell_value c' = new"
    and failed: "compare_exchange_weak ac cur new c = (Err v, c') \<Longrightarrow>
      cell_value c' = v \<and> (cell_value c = cur \<longrightarrow> failures_left c' < failures_left c)"
begin

lemma loop_ends:
  "cell_value c = cur \<Longrightarrow>
     \<exists>b c'. reserve_loop ac cap cur c = Some (b, c') \<and>
       (if b then 0 < cell_value c' \<and> cell_value c' \<le> cap else cap \<le> cell_value c')"
proof (induction "failures_left c" arbitrary: c cur rule: less_induct)
  case less
  show ?case
  proof (cases "cap \<le> cur")
    case True
    with less.prems show ?thesis by (subst reserve_loop.simps) auto
  next
    case False
    then have lt: "cur < cap" by simp
    obtain r c' where x: "compare_exchange_weak ac cur (cur + 1) c = (r, c')" by fastforce
    show ?thesis
    proof (cases r)
      case (Ok v)
      with exchanged x have "cell_value c' = cur + 1" by blast
      moreover have "0 < cur + 1" using unat_plus_one [OF lt] by (simp add: word_less_nat_alt)
      ultimately show ?thesis
        using False Ok x inc_le [OF lt] by (subst reserve_loop.simps) auto
    next
      case (Err v)
      with failed [of cur "cur + 1" c v c'] x less.prems
      have "cell_value c' = v" "failures_left c' < failures_left c" by simp_all
      from less.hyps [OF this(2,1)] show ?thesis
        using False Err x by (subst reserve_loop.simps) simp
    qed
  qed
qed

lemma try_reserve_ends:
  "\<exists>b c'. generic_try_reserve ac cap c = Some (b, c') \<and>
     (if b then 0 < cell_value c' \<and> cell_value c' \<le> cap else cap \<le> cell_value c')"
proof -
  obtain v c' where l: "atomic_load ac c = (v, c')" by fastforce
  from loop_ends [OF load [OF l]] show ?thesis by (simp add: generic_try_reserve_def l)
qed

end

subsection \<open>AtomicUsize\<close>

text \<open>
  The next exchanges meet the script's entries: before an exchange other threads may have left another value in the
  cell, and a weak exchange may fail spuriously. With no entries left the caller is alone.
\<close>

record atomic_usize =
  stored :: usize
  script :: "(usize \<times> bool) list"

definition atomic_usize_load :: "atomic_usize \<Rightarrow> usize \<times> atomic_usize" where
  "atomic_usize_load c = (stored c, c)"

fun exchange_at :: "usize \<Rightarrow> bool \<Rightarrow> usize \<Rightarrow> usize \<Rightarrow> (usize, usize) result \<times> usize" where
  "exchange_at v spurious current new = (if v = current \<and> \<not> spurious then (Ok v, new) else (Err v, v))"

definition atomic_usize_exchange ::
    "usize \<Rightarrow> usize \<Rightarrow> atomic_usize \<Rightarrow> (usize, usize) result \<times> atomic_usize" where
  "atomic_usize_exchange current new c =
     (case script c of
       [] \<Rightarrow> (case exchange_at (stored c) False current new of (r, v) \<Rightarrow> (r, c\<lparr>stored := v\<rparr>))
     | (v', spurious) # rest \<Rightarrow>
         (case exchange_at v' spurious current new of (r, v) \<Rightarrow> (r, \<lparr>stored = v, script = rest\<rparr>)))"

definition atomic_usize_fetch_sub :: "usize \<Rightarrow> atomic_usize \<Rightarrow> usize \<times> atomic_usize" where
  "atomic_usize_fetch_sub v c = (stored c, c\<lparr>stored := stored c - v\<rparr>)"

definition usize_counter :: "atomic_usize atomic_counter" where
  "usize_counter =
     \<lparr>atomic_load = atomic_usize_load, compare_exchange_weak = atomic_usize_exchange, fetch_sub = atomic_usize_fetch_sub\<rparr>"

lemma usize_counter_ops [simp]:
  "atomic_load usize_counter = atomic_usize_load" "compare_exchange_weak usize_counter = atomic_usize_exchange"
  "fetch_sub usize_counter = atomic_usize_fetch_sub"
  by (simp_all add: usize_counter_def)

lemmas usize_counter_defs =
  atomic_usize_load_def atomic_usize_exchange_def atomic_usize_fetch_sub_def

interpretation usize: lock_free_counter usize_counter stored "\<lambda>c. length (script c)"
  by unfold_locales (auto simp: usize_counter_defs split: list.splits if_splits)

subsection \<open>The loop and its summary\<close>

text \<open>The values that the failing exchanges of a script return, up to the first that succeeds.\<close>

fun observed_values :: "usize \<Rightarrow> usize \<Rightarrow> (usize \<times> bool) list \<Rightarrow> usize list" where
  "observed_values cap current [] = []"
| "observed_values cap current ((v, spurious) # rest) =
     (if current \<ge> cap \<or> (v = current \<and> \<not> spurious) then [] else v # observed_values cap v rest)"

lemma reserve_loop_summary:
  "stored c = current \<Longrightarrow>
     map_option fst (reserve_loop usize_counter cap current c) =
     Some (try_reserve cap current (observed_values cap current (script c)))"
proof (induction "script c" arbitrary: c current)
  case Nil
  then show ?case
    by (subst reserve_loop.simps) (simp add: usize_counter_defs reserve_body_def)
next
  case (Cons x rest)
  obtain v spurious where x: "x = (v, spurious)" by fastforce
  have s: "script c = (v, spurious) # rest" using Cons.hyps(2) by (simp add: x)
  have IH: "map_option fst (reserve_loop usize_counter cap v \<lparr>stored = v, script = rest\<rparr>) =
      Some (try_reserve cap v (observed_values cap v rest))"
    using Cons.hyps(1) [of "\<lparr>stored = v, script = rest\<rparr>" v] by simp
  from IH show ?case
    by (subst reserve_loop.simps) (auto simp: usize_counter_defs s reserve_body_def)
qed

lemma generic_release_usize:
  "generic_release_slot usize_counter c = (case release_slot (stored c) of (r, n) \<Rightarrow> (r, c\<lparr>stored := n\<rparr>))"
  by (simp add: generic_release_slot_def usize_counter_defs release_slot_def)

subsection \<open>Properties\<close>

text \<open>C10: the reservation is lock-free: whatever other threads write between the steps and however often the weak
  exchange fails spuriously, as long as that ends, the loop returns; it then holds a slot without
  exceeding the capacity, or it saw the bulkhead full. Its answer is that of the loop over the
  values observed, and a release gives back what \<open>release_slot\<close> does.\<close>

theorem reservation_is_lock_free:
  "(\<exists>b c'. generic_try_reserve usize_counter cap c = Some (b, c') \<and>
      b = try_reserve cap (stored c) (observed_values cap (stored c) (script c)) \<and>
      (if b then 0 < stored c' \<and> stored c' \<le> cap else cap \<le> stored c')) \<and>
   generic_release_slot usize_counter c = (case release_slot (stored c) of (r, n) \<Rightarrow> (r, c\<lparr>stored := n\<rparr>))"
proof -
  obtain b c' where r: "generic_try_reserve usize_counter cap c = Some (b, c')"
    and ok: "if b then 0 < stored c' \<and> stored c' \<le> cap else cap \<le> stored c'"
    using usize.try_reserve_ends [of cap c] by blast
  have "map_option fst (generic_try_reserve usize_counter cap c) =
      Some (try_reserve cap (stored c) (observed_values cap (stored c) (script c)))"
    using reserve_loop_summary [OF refl, of cap c] by (simp add: generic_try_reserve_def usize_counter_defs)
  with r ok show ?thesis by (simp add: generic_release_usize)
qed

end
