(* ===== verification/Locks.thy ===== *)
theory Locks
  imports Resource_Registry
begin

section \<open>Locks and their poison (std::sync in the modules of src/src)\<close>

text \<open>
  The breaker and the retry budgets keep their state in a \<open>Mutex\<close>, the table store and the resource registry
  in an \<open>RwLock\<close>. A lock whose holder panics is poisoned for ever; every module has a private method
  that takes the state out of the lock all the same. The other theories model what runs while a lock
  is held as functions of the state alone. This one puts the locks back: \<open>locked\<close> is a value with the
  poison flag beside it, \<open>critical\<close> a stretch of code under an exclusive guard, which sets the flag if it
  panics, and the \<open>_locked\<close> functions are the methods with their calls of \<open>lock\<close>, among them the one that
  the destructor of a permit makes while a panic of \<open>failure\<close> unwinds. The lemmas show that the flag is
  never seen from outside, which justifies leaving it out elsewhere.
\<close>

subsection \<open>The library's locks\<close>

record 'a locked =
  poisoned :: bool
  contents :: 'a

definition unpoisoned :: "'a \<Rightarrow> 'a locked" where
  "unpoisoned a = \<lparr>poisoned = False, contents = a\<rparr>"

text \<open>\<open>Mutex::lock\<close>, \<open>RwLock::read\<close> and \<open>RwLock::write\<close> give the guard, as an error if the flag is set.\<close>

definition take_lock :: "'a locked \<Rightarrow> ('a, 'a) result" where
  "take_lock m = (if poisoned m then Err (contents m) else Ok (contents m))"

fun unwrap_or_else :: "('a, 'e) result \<Rightarrow> ('e \<Rightarrow> 'a) \<Rightarrow> 'a" where
  "unwrap_or_else (Ok a) f = a"
| "unwrap_or_else (Err e) f = f e"

fun panics :: "'a outcome \<Rightarrow> bool" where
  "panics Panic = True"
| "panics (Return a) = False"

text \<open>\<open>lock\<close> is the module's method that takes the lock. A shared guard of an \<open>RwLock\<close> never poisons.\<close>

definition critical ::
    "('a locked \<Rightarrow> 'a) \<Rightarrow> ('a \<Rightarrow> 'r outcome \<times> 'a) \<Rightarrow> 'a locked \<Rightarrow> 'r outcome \<times> 'a locked" where
  "critical lock f m =
     (case f (lock m) of (r, a) \<Rightarrow> (r, \<lparr>poisoned = poisoned m \<or> panics r, contents = a\<rparr>))"

text \<open>What a client sees of an object that answers requests.\<close>

fun replies :: "('s \<Rightarrow> 'x \<Rightarrow> 'r \<times> 's) \<Rightarrow> 's \<Rightarrow> 'x list \<Rightarrow> 'r list" where
  "replies serve s [] = []"
| "replies serve s (x # xs) = (case serve s x of (r, s') \<Rightarrow> r # replies serve s' xs)"

text \<open>The contract of an object behind a lock: each request does to the contents what it does to the plain
  state, and has the same reply.\<close>

locale lock_transparent =
  fixes serve_locked :: "'a locked \<Rightarrow> 'x \<Rightarrow> 'r \<times> 'a locked" and serve :: "'a \<Rightarrow> 'x \<Rightarrow> 'r \<times> 'a"
  assumes same_reply: "fst (serve_locked m x) = fst (serve (contents m) x)"
    and same_state: "contents (snd (serve_locked m x)) = snd (serve (contents m) x)"
begin

lemma same_replies: "replies serve_locked m xs = replies serve (contents m) xs"
  by (induction xs arbitrary: m) (simp_all add: split_beta same_reply same_state)

lemma flag_invisible:
  "contents m = contents m' \<Longrightarrow> replies serve_locked m xs = replies serve_locked m' xs"
  by (simp add: same_replies)

end

subsection \<open>The circuit breaker\<close>

definition breaker_lock :: "shared locked \<Rightarrow> shared" where
  "breaker_lock m = unwrap_or_else (take_lock m) (\<lambda>poisoned_state. poisoned_state)"

definition state_locked :: "instant \<Rightarrow> shared locked \<Rightarrow> circuit_state outcome \<times> shared locked" where
  "state_locked t = critical breaker_lock (\<lambda>s. apfst Return (breaker_state t s))"

definition try_acquire_locked ::
    "circuit_breaker_config \<Rightarrow> instant \<Rightarrow> shared locked \<Rightarrow> (permit, breaker_rejected) result outcome \<times> shared locked" where
  "try_acquire_locked cfg t = critical breaker_lock (\<lambda>s. apfst Return (try_acquire cfg t s))"

definition record_success_locked ::
    "circuit_breaker_config \<Rightarrow> u64 \<Rightarrow> permit_kind \<Rightarrow> shared locked \<Rightarrow> unit outcome \<times> shared locked" where
  "record_success_locked cfg g k = critical breaker_lock (\<lambda>s. (Return (), record_success cfg g k s))"

definition record_failure_locked ::
    "circuit_breaker_config \<Rightarrow> instant \<Rightarrow> u64 \<Rightarrow> permit_kind \<Rightarrow> shared locked \<Rightarrow> unit outcome \<times> shared locked" where
  "record_failure_locked cfg t g k = critical breaker_lock (record_failure cfg t g k)"

text \<open>\<open>abandon\<close> does not take the lock for a permit of the closed state.\<close>

definition abandon_locked :: "u64 \<Rightarrow> permit_kind \<Rightarrow> shared locked \<Rightarrow> unit outcome \<times> shared locked" where
  "abandon_locked g k m =
     (if k \<noteq> PermitHalfOpen then (Return (), m)
      else critical breaker_lock (\<lambda>s. (Return (), abandon g k s)) m)"

definition drop_locked :: "permit \<Rightarrow> shared locked \<Rightarrow> unit outcome \<times> shared locked" where
  "drop_locked p m =
     (if \<not> completed p then abandon_locked (permit_generation p) (kind p) m else (Return (), m))"

definition success_locked ::
    "circuit_breaker_config \<Rightarrow> permit \<Rightarrow> shared locked \<Rightarrow> unit outcome \<times> shared locked" where
  "success_locked cfg p m =
     (case record_success_locked cfg (permit_generation p) (kind p) m of
       (Return u, m') \<Rightarrow> drop_locked (p\<lparr>completed := True\<rparr>) m'
     | (Panic, m') \<Rightarrow> (Panic, snd (drop_locked p m')))"

definition failure_locked ::
    "circuit_breaker_config \<Rightarrow> instant \<Rightarrow> permit \<Rightarrow> shared locked \<Rightarrow> unit outcome \<times> shared locked" where
  "failure_locked cfg t p m =
     (case record_failure_locked cfg t (permit_generation p) (kind p) m of
       (Return u, m') \<Rightarrow> drop_locked (p\<lparr>completed := True\<rparr>) m'
     | (Panic, m') \<Rightarrow> (Panic, snd (drop_locked p m')))"

datatype breaker_request =
  AskState instant | AskPermit instant | ReportSuccess permit | ReportFailure instant permit | GiveUp permit

datatype breaker_reply = StateIs circuit_state | PermitIs "(permit, breaker_rejected) result" | Noted

fun breaker_serve ::
    "circuit_breaker_config \<Rightarrow> shared \<Rightarrow> breaker_request \<Rightarrow> breaker_reply outcome \<times> shared" where
  "breaker_serve cfg s (AskState t) = apfst (\<lambda>c. Return (StateIs c)) (breaker_state t s)"
| "breaker_serve cfg s (AskPermit t) = apfst (\<lambda>r. Return (PermitIs r)) (try_acquire cfg t s)"
| "breaker_serve cfg s (ReportSuccess p) = (Return Noted, permit_success cfg p s)"
| "breaker_serve cfg s (ReportFailure t p) = apfst (map_outcome (\<lambda>_. Noted)) (permit_failure cfg t p s)"
| "breaker_serve cfg s (GiveUp p) = (Return Noted, permit_drop p s)"

fun breaker_serve_locked ::
    "circuit_breaker_config \<Rightarrow> shared locked \<Rightarrow> breaker_request \<Rightarrow> breaker_reply outcome \<times> shared locked" where
  "breaker_serve_locked cfg m (AskState t) = apfst (map_outcome StateIs) (state_locked t m)"
| "breaker_serve_locked cfg m (AskPermit t) = apfst (map_outcome PermitIs) (try_acquire_locked cfg t m)"
| "breaker_serve_locked cfg m (ReportSuccess p) = apfst (map_outcome (\<lambda>_. Noted)) (success_locked cfg p m)"
| "breaker_serve_locked cfg m (ReportFailure t p) = apfst (map_outcome (\<lambda>_. Noted)) (failure_locked cfg t p m)"
| "breaker_serve_locked cfg m (GiveUp p) = apfst (map_outcome (\<lambda>_. Noted)) (drop_locked p m)"

lemma recovered [simp]: "unwrap_or_else (take_lock m) (\<lambda>s. s) = contents m"
  by (simp add: take_lock_def)

lemmas breaker_locked_defs =
  critical_def breaker_lock_def state_locked_def try_acquire_locked_def record_success_locked_def
  record_failure_locked_def abandon_locked_def drop_locked_def success_locked_def failure_locked_def

lemma drop_locked_eq:
  "fst (drop_locked p m) = Return ()" "contents (snd (drop_locked p m)) = permit_drop p (contents m)"
  "poisoned (snd (drop_locked p m)) = poisoned m"
  by (auto simp: breaker_locked_defs permit_drop_def abandon_def split: mode.splits)

lemma failure_locked_eq:
  "fst (failure_locked cfg t p m) = fst (permit_failure cfg t p (contents m))"
  "contents (snd (failure_locked cfg t p m)) = snd (permit_failure cfg t p (contents m))"
  "poisoned (snd (failure_locked cfg t p m)) \<longleftrightarrow> poisoned m \<or> fst (permit_failure cfg t p (contents m)) = Panic"
  by (auto simp: failure_locked_def permit_failure_def record_failure_locked_def critical_def breaker_lock_def drop_locked_eq
      split: prod.splits outcome.splits)

lemma success_locked_eq:
  "success_locked cfg p m = (Return (), m\<lparr>contents := permit_success cfg p (contents m)\<rparr>)"
  by (simp add: success_locked_def record_success_locked_def critical_def breaker_lock_def drop_locked_def permit_success_eq)

interpretation breaker_mutex: lock_transparent "breaker_serve_locked cfg" "breaker_serve cfg" for cfg
proof
  fix m x
  show "fst (breaker_serve_locked cfg m x) = fst (breaker_serve cfg (contents m) x)"
    by (cases x) (simp_all add: state_locked_def try_acquire_locked_def critical_def breaker_lock_def failure_locked_eq
        success_locked_eq drop_locked_eq split_beta)
  show "contents (snd (breaker_serve_locked cfg m x)) = snd (breaker_serve cfg (contents m) x)"
    by (cases x) (simp_all add: state_locked_def try_acquire_locked_def critical_def breaker_lock_def failure_locked_eq
        success_locked_eq drop_locked_eq split_beta)
qed

text \<open>A panic of one caller stops nobody else: a request panics only if it reports a failure and its own
  opening of the circuit cannot represent the deadline.\<close>

lemma record_failure_returns: "clock_ok cfg t \<Longrightarrow> fst (record_failure cfg t g k s) = Return ()"
  by (simp add: record_failure_def transition_open_ok Let_def split: mode.split permit_kind.split)

fun clock_suits :: "circuit_breaker_config \<Rightarrow> breaker_request \<Rightarrow> bool" where
  "clock_suits cfg (ReportFailure t p) = clock_ok cfg t"
| "clock_suits cfg _ = True"

lemma breaker_serve_locked_returns: "clock_suits cfg x \<Longrightarrow> fst (breaker_serve_locked cfg m x) \<noteq> Panic"
  unfolding breaker_mutex.same_reply
  by (cases x) (simp_all add: split_beta permit_failure_ok record_failure_returns)

subsection \<open>Retry budgets\<close>

definition lock_state :: "shared_retry_budget locked \<Rightarrow> shared_retry_budget" where
  "lock_state m = unwrap_or_else (take_lock m) (\<lambda>poisoned_state. poisoned_state)"

datatype budget_request = AskRetry | ReportDone | AskAvailable
datatype budget_reply = DecisionIs retry_budget_decision | AvailableIs u32

fun budget_serve :: "shared_retry_budget \<Rightarrow> budget_request \<Rightarrow> budget_reply outcome \<times> shared_retry_budget" where
  "budget_serve s AskRetry = apfst (\<lambda>d. Return (DecisionIs d)) (try_acquire_retry s)"
| "budget_serve s ReportDone = apfst (\<lambda>n. Return (AvailableIs n)) (budget_record_success s)"
| "budget_serve s AskAvailable = (Return (AvailableIs (available_retries s)), s)"

definition budget_serve_locked ::
    "shared_retry_budget locked \<Rightarrow> budget_request \<Rightarrow> budget_reply outcome \<times> shared_retry_budget locked" where
  "budget_serve_locked m x = critical lock_state (\<lambda>s. budget_serve s x) m"

interpretation budget_mutex: lock_transparent budget_serve_locked budget_serve
  by unfold_locales (simp_all add: budget_serve_locked_def critical_def lock_state_def split_beta)

subsection \<open>The table store\<close>

definition store_read :: "route_table_store locked \<Rightarrow> route_table_store" where
  "store_read m = unwrap_or_else (take_lock m) (\<lambda>poisoned_state. poisoned_state)"

definition store_write :: "route_table_store locked \<Rightarrow> route_table_store" where
  "store_write m = unwrap_or_else (take_lock m) (\<lambda>poisoned_state. poisoned_state)"

datatype store_request = AskSnapshot | AskReplace "route list"
datatype store_reply = SnapshotIs route_table | ReplacedBy "(route_table, route_table_error) result"

fun store_serve :: "route_table_store \<Rightarrow> store_request \<Rightarrow> store_reply outcome \<times> route_table_store" where
  "store_serve s AskSnapshot = (Return (SnapshotIs (store_snapshot s)), s)"
| "store_serve s (AskReplace rs) = apfst (\<lambda>r. Return (ReplacedBy r)) (store_replace s rs)"

fun store_serve_locked ::
    "route_table_store locked \<Rightarrow> store_request \<Rightarrow> store_reply outcome \<times> route_table_store locked" where
  "store_serve_locked m AskSnapshot = (Return (SnapshotIs (store_snapshot (store_read m))), m)"
| "store_serve_locked m (AskReplace rs) =
     critical store_write (\<lambda>s. apfst (\<lambda>r. Return (ReplacedBy r)) (store_replace s rs)) m"

interpretation store_lock: lock_transparent store_serve_locked store_serve
proof
  fix m x
  show "fst (store_serve_locked m x) = fst (store_serve (contents m) x)"
    by (cases x) (simp_all add: critical_def store_read_def store_write_def split_beta)
  show "contents (snd (store_serve_locked m x)) = snd (store_serve (contents m) x)"
    by (cases x) (simp_all add: critical_def store_read_def store_write_def split_beta)
qed

subsection \<open>The resource registry\<close>

text \<open>The lock guards the map of the registry; the memory beside it is where the code under the lock
  allocates. \<open>get_or_create\<close> drops the shared guard before it takes the exclusive one.\<close>

definition read_routes :: "registry_state locked \<Rightarrow> registry_state" where
  "read_routes m = unwrap_or_else (take_lock m) (\<lambda>poisoned_state. poisoned_state)"

definition write_routes :: "registry_state locked \<Rightarrow> registry_state" where
  "write_routes m = unwrap_or_else (take_lock m) (\<lambda>poisoned_state. poisoned_state)"

definition get_or_create_locked ::
    "registry_state locked \<Rightarrow> route_id \<Rightarrow> route_resources outcome \<times> registry_state locked" where
  "get_or_create_locked m i =
     (case registry_get (read_routes m) i of
       Some r \<Rightarrow> (Return r, m)
     | None \<Rightarrow> critical write_routes (\<lambda>st. apfst Return (entry_or_insert st i)) m)"

datatype registry_request = AskResources route_id | AskRegistered route_id | AskRetire route_id | AskLen
datatype registry_reply = ResourcesAre route_resources | RegisteredAre "route_resources option" | LenIs nat

fun registry_serve :: "registry_state \<Rightarrow> registry_request \<Rightarrow> registry_reply outcome \<times> registry_state" where
  "registry_serve st (AskResources i) = apfst (\<lambda>r. Return (ResourcesAre r)) (get_or_create st i)"
| "registry_serve st (AskRegistered i) = (Return (RegisteredAre (registry_get st i)), st)"
| "registry_serve st (AskRetire i) = apfst (\<lambda>r. Return (RegisteredAre r)) (registry_retire st i)"
| "registry_serve st AskLen = (Return (LenIs (registry_len st)), st)"

fun registry_serve_locked ::
    "registry_state locked \<Rightarrow> registry_request \<Rightarrow> registry_reply outcome \<times> registry_state locked" where
  "registry_serve_locked m (AskResources i) = apfst (map_outcome ResourcesAre) (get_or_create_locked m i)"
| "registry_serve_locked m (AskRegistered i) = (Return (RegisteredAre (registry_get (read_routes m) i)), m)"
| "registry_serve_locked m (AskRetire i) =
     critical write_routes (\<lambda>st. apfst (\<lambda>r. Return (RegisteredAre r)) (registry_retire st i)) m"
| "registry_serve_locked m AskLen = (Return (LenIs (registry_len (read_routes m))), m)"

interpretation registry_lock: lock_transparent registry_serve_locked registry_serve
proof
  fix m x
  show "fst (registry_serve_locked m x) = fst (registry_serve (contents m) x)"
    by (cases x) (auto simp: critical_def read_routes_def write_routes_def get_or_create_locked_def get_or_create_def
        split_beta split: option.split)
  show "contents (snd (registry_serve_locked m x)) = snd (registry_serve (contents m) x)"
    by (cases x) (auto simp: critical_def read_routes_def write_routes_def get_or_create_locked_def get_or_create_def
        split_beta split: option.split)
qed

subsection \<open>Properties\<close>

text \<open>C9: a panic of one caller is not passed on by the locks: whether a lock is poisoned or not, clients of the
  breaker, of a retry budget, of the table store and of the registry get for every sequence of requests
  the replies that the plain state gives; a report of a failure that panics does poison the mutex, but its permit's
  destructor, run by the unwinding, gets through; and no request panics because of the poison.\<close>

theorem poison_is_invisible:
  "replies (breaker_serve_locked cfg) \<lparr>poisoned = b, contents = s\<rparr> xs = replies (breaker_serve cfg) s xs \<and>
   replies budget_serve_locked \<lparr>poisoned = b, contents = s'\<rparr> ys = replies budget_serve s' ys \<and>
   replies store_serve_locked \<lparr>poisoned = b, contents = st\<rparr> zs = replies store_serve st zs \<and>
   replies registry_serve_locked \<lparr>poisoned = b, contents = g\<rparr> us = replies registry_serve g us \<and>
   poisoned (snd (failure_locked cfg t p m)) = (poisoned m \<or> panics (fst (failure_locked cfg t p m))) \<and>
   fst (drop_locked p m) = Return () \<and>
   Panic \<notin> set (replies (breaker_serve_locked cfg) m (filter (clock_suits cfg) xs))"
proof -
  have "Panic \<notin> set (replies (breaker_serve_locked cfg) m (filter (clock_suits cfg) xs))"
  proof (induction xs arbitrary: m)
    case (Cons x xs)
    then show ?case
      using breaker_serve_locked_returns [of cfg x m] by (auto simp: split_beta)
  qed simp
  moreover have "panics r \<longleftrightarrow> r = Panic" for r :: "unit outcome"
    by (cases r) simp_all
  ultimately show ?thesis
    by (simp add: breaker_mutex.same_replies budget_mutex.same_replies store_lock.same_replies
        registry_lock.same_replies drop_locked_eq failure_locked_eq)
qed

end
