(* ===== verification/Loom_Breaker.thy ===== *)
theory Loom_Breaker
  imports Circuit_Breaker
begin

section \<open>The Loom model of the breaker (src/tests/loom_circuit_breaker.rs)\<close>

text \<open>
  The repository checks the breaker's concurrency on a copy of it that has no clock: Loom runs two
  programs of two threads under every schedule. Here are the copy, the two programs as step functions on
  a state with a program counter for each thread, and the assertions. A schedule is a list of thread
  numbers; a thread that is joined, or has nothing to wait for, does not move. A mutex makes the code
  between \<open>lock\<close> and the end of the guard one step. The assertions hold under every schedule, and the copy is
  a faithful one: the threads of the second program, run on the breaker of circuit_breaker.rs itself, go
  through the same states.
\<close>

subsection \<open>The copy\<close>

datatype loom_mode = LoomClosed | LoomOpen | LoomHalfOpen

record loom_shared =
  copy_generation :: u64
  copy_mode :: loom_mode
  copy_in_flight :: u32
  copy_successes :: u32

definition loom_half_open :: loom_shared where
  "loom_half_open =
     \<lparr>copy_generation = 1, copy_mode = LoomHalfOpen, copy_in_flight = 0, copy_successes = 0\<rparr>"

definition loom_transition_open :: "loom_shared \<Rightarrow> loom_shared" where
  "loom_transition_open s =
     s\<lparr>copy_generation := copy_generation s + 1, copy_mode := LoomOpen, copy_in_flight := 0, copy_successes := 0\<rparr>"

definition loom_transition_closed :: "loom_shared \<Rightarrow> loom_shared" where
  "loom_transition_closed s =
     s\<lparr>copy_generation := copy_generation s + 1, copy_mode := LoomClosed, copy_in_flight := 0, copy_successes := 0\<rparr>"

subsection \<open>The outcome of a stale generation\<close>

datatype transition_pc = LockToOpen | StoreFlag | TransitionJoined
datatype completion_pc = SpinOnFlag | LockToComplete | CompletionJoined
datatype stale_thread = TransitionThread | CompletionThread

record stale_run =
  stale_shared :: loom_shared
  transitioned :: bool
  transition_pc :: transition_pc
  completion_pc :: completion_pc

definition loom_complete :: "u64 \<Rightarrow> loom_shared \<Rightarrow> loom_shared" where
  "loom_complete stale s =
     (if copy_generation s = stale \<and> copy_mode s = LoomHalfOpen then
        loom_transition_closed
          (s\<lparr>copy_in_flight := saturating_sub (copy_in_flight s) 1, copy_successes := copy_successes s + 1\<rparr>)
      else s)"

definition stale_start :: stale_run where
  "stale_start =
     \<lparr>stale_shared = loom_half_open\<lparr>copy_in_flight := copy_in_flight loom_half_open + 1\<rparr>, transitioned = False,
      transition_pc = LockToOpen, completion_pc = SpinOnFlag\<rparr>"

definition stale_generation :: u64 where
  "stale_generation = copy_generation (stale_shared stale_start)"

fun stale_step :: "stale_run \<Rightarrow> stale_thread \<Rightarrow> stale_run" where
  "stale_step s TransitionThread =
     (case transition_pc s of
       LockToOpen \<Rightarrow> s\<lparr>stale_shared := loom_transition_open (stale_shared s), transition_pc := StoreFlag\<rparr>
     | StoreFlag \<Rightarrow> s\<lparr>transitioned := True, transition_pc := TransitionJoined\<rparr>
     | TransitionJoined \<Rightarrow> s)"
| "stale_step s CompletionThread =
     (case completion_pc s of
       SpinOnFlag \<Rightarrow> if \<not> transitioned s then s else s\<lparr>completion_pc := LockToComplete\<rparr>
     | LockToComplete \<Rightarrow>
         s\<lparr>stale_shared := loom_complete stale_generation (stale_shared s), completion_pc := CompletionJoined\<rparr>
     | CompletionJoined \<Rightarrow> s)"

definition stale_joined :: "stale_run \<Rightarrow> bool" where
  "stale_joined s \<longleftrightarrow> transition_pc s = TransitionJoined \<and> completion_pc s = CompletionJoined"

definition test_loom_stale_outcome :: "stale_thread list \<Rightarrow> bool" where
  "test_loom_stale_outcome schedule =
     (let s = run stale_step stale_start schedule; g = stale_shared s in
      stale_joined s \<longrightarrow>
        copy_mode g = LoomOpen \<and> copy_generation g = stale_generation + 1 \<and>
        copy_in_flight g = 0 \<and> copy_successes g = 0)"

subsection \<open>The probe budget and its release\<close>

text \<open>The program with any number of threads and any budget; the test has two threads and a budget of 1.\<close>

datatype probe_pc = AskProbe | YieldProbe | HoldProbe | ProbeJoined

record probe_run =
  probe_shared :: loom_shared
  probe_pcs :: "probe_pc list"
  probe_failed :: bool

definition loom_admits :: "u32 \<Rightarrow> loom_shared \<Rightarrow> bool" where
  "loom_admits budget s \<longleftrightarrow> copy_mode s = LoomHalfOpen \<and> copy_in_flight s < budget"

definition loom_admit :: "loom_shared \<Rightarrow> loom_shared" where
  "loom_admit s = s\<lparr>copy_in_flight := copy_in_flight s + 1\<rparr>"

definition loom_release :: "loom_shared \<Rightarrow> loom_shared" where
  "loom_release s = s\<lparr>copy_in_flight := saturating_sub (copy_in_flight s) 1\<rparr>"

definition probe_step :: "u32 \<Rightarrow> probe_run \<Rightarrow> nat \<Rightarrow> probe_run" where
  "probe_step budget s i =
     (if i < length (probe_pcs s) then
        (case probe_pcs s ! i of
          AskProbe \<Rightarrow>
            if loom_admits budget (probe_shared s) then
              let g = loom_admit (probe_shared s)
              in s\<lparr>probe_shared := g, probe_pcs := (probe_pcs s)[i := YieldProbe],
                   probe_failed := probe_failed s \<or> \<not> copy_in_flight g \<le> budget\<rparr>
            else s\<lparr>probe_pcs := (probe_pcs s)[i := ProbeJoined]\<rparr>
        | YieldProbe \<Rightarrow> s\<lparr>probe_pcs := (probe_pcs s)[i := HoldProbe]\<rparr>
        | HoldProbe \<Rightarrow>
            s\<lparr>probe_shared := loom_release (probe_shared s), probe_pcs := (probe_pcs s)[i := ProbeJoined]\<rparr>
        | ProbeJoined \<Rightarrow> s)
      else s)"

definition probe_start :: "nat \<Rightarrow> probe_run" where
  "probe_start n = \<lparr>probe_shared = loom_half_open, probe_pcs = replicate n AskProbe, probe_failed = False\<rparr>"

definition probe_joined :: "probe_run \<Rightarrow> bool" where
  "probe_joined s \<longleftrightarrow> set (probe_pcs s) \<subseteq> {ProbeJoined}"

definition test_loom_probe_budget :: "u32 \<Rightarrow> nat \<Rightarrow> nat list \<Rightarrow> bool" where
  "test_loom_probe_budget budget n schedule =
     (let s = run (probe_step budget) (probe_start n) schedule; g = probe_shared s in
      \<not> probe_failed s \<and>
      (probe_joined s \<longrightarrow>
        copy_mode g = LoomHalfOpen \<and> copy_in_flight g = 0 \<and> copy_successes g \<le> budget))"

subsection \<open>Every schedule\<close>

text \<open>The completion thread gets through the loop only after the circuit was opened.\<close>

definition stale_inv :: "stale_run \<Rightarrow> bool" where
  "stale_inv s \<longleftrightarrow>
     (if transition_pc s = LockToOpen then s = stale_start
      else stale_shared s = loom_transition_open (stale_shared stale_start)) \<and>
     (transitioned s \<longleftrightarrow> transition_pc s = TransitionJoined) \<and>
     (completion_pc s \<noteq> SpinOnFlag \<longrightarrow> transitioned s)"

lemmas stale_defs =
  stale_start_def stale_generation_def loom_half_open_def loom_transition_open_def loom_complete_def

interpretation stale_program: state_machine stale_step stale_inv "\<lambda>x. True"
proof
  fix s x
  assume "stale_inv s"
  then show "stale_inv (stale_step s x)"
    by (cases x; cases "transition_pc s"; cases "completion_pc s") (auto simp: stale_inv_def stale_defs)
qed

definition holds_probe :: "probe_pc \<Rightarrow> bool" where
  "holds_probe pc \<longleftrightarrow> pc = YieldProbe \<or> pc = HoldProbe"

definition probe_inv :: "u32 \<Rightarrow> probe_run \<Rightarrow> bool" where
  "probe_inv budget s \<longleftrightarrow>
     copy_mode (probe_shared s) = LoomHalfOpen \<and> copy_successes (probe_shared s) = 0 \<and> \<not> probe_failed s \<and>
     unat (copy_in_flight (probe_shared s)) = length (filter holds_probe (probe_pcs s)) \<and>
     copy_in_flight (probe_shared s) \<le> budget"

lemma probe_step_inv:
  assumes "probe_inv budget s"
  shows "probe_inv budget (probe_step budget s i)"
proof (cases "i < length (probe_pcs s)")
  case True
  note held = filter_list_update [OF True, of holds_probe]
  show ?thesis
  proof (cases "probe_pcs s ! i")
    case AskProbe
    show ?thesis
    proof (cases "loom_admits budget (probe_shared s)")
      case less: True
      then have "copy_in_flight (probe_shared s) < budget" by (simp add: loom_admits_def)
      from unat_plus_one [OF this] inc_le [OF this] show ?thesis
        using assms True AskProbe less held [of YieldProbe]
        by (simp add: probe_step_def loom_admit_def probe_inv_def holds_probe_def Let_def)
    next
      case False
      then show ?thesis
        using assms True AskProbe held [of ProbeJoined] by (simp add: probe_step_def probe_inv_def holds_probe_def)
    qed
  next
    case YieldProbe
    then show ?thesis
      using assms True held [of HoldProbe] by (simp add: probe_step_def probe_inv_def holds_probe_def)
  next
    case HoldProbe
    have "saturating_sub (copy_in_flight (probe_shared s)) 1 \<le> copy_in_flight (probe_shared s)"
      by (simp add: word_le_nat_alt wsat)
    then show ?thesis
      using assms True HoldProbe held [of ProbeJoined]
      by (auto simp: probe_step_def probe_inv_def holds_probe_def loom_release_def wsat)
  next
    case ProbeJoined
    then show ?thesis using assms True by (simp add: probe_step_def)
  qed
qed (use assms in \<open>simp add: probe_step_def\<close>)

interpretation probe_program: state_machine "probe_step budget" "probe_inv budget" "\<lambda>x. True" for budget
  by unfold_locales (rule probe_step_inv)

lemma stale_inv_run: "stale_inv (run stale_step stale_start schedule)"
  by (rule stale_program.run_inv) (simp_all add: stale_inv_def stale_start_def list_all_iff)

lemma probe_inv_run: "probe_inv budget (run (probe_step budget) (probe_start n) schedule)"
  by (rule probe_program.run_inv)
    (simp_all add: probe_inv_def probe_start_def loom_half_open_def holds_probe_def list_all_iff)


subsection \<open>The copy and the code\<close>

text \<open>What the copy keeps of the breaker's state, and the second program on the breaker itself: a thread asks
  \<open>try_acquire\<close> at some instant and drops its permit later.\<close>

definition copy_of :: "shared \<Rightarrow> loom_shared" where
  "copy_of s =
     (case mode s of
       ModeClosed f \<Rightarrow>
         \<lparr>copy_generation = generation s, copy_mode = LoomClosed, copy_in_flight = 0, copy_successes = 0\<rparr>
     | ModeOpen u \<Rightarrow>
         \<lparr>copy_generation = generation s, copy_mode = LoomOpen, copy_in_flight = 0, copy_successes = 0\<rparr>
     | ModeHalfOpen i n \<Rightarrow>
         \<lparr>copy_generation = generation s, copy_mode = LoomHalfOpen, copy_in_flight = i, copy_successes = n\<rparr>)"

datatype code_pc = CodeAsk | CodeYield permit | CodeHold permit | CodeJoined

record code_run =
  code_shared :: shared
  code_pcs :: "code_pc list"

definition code_step :: "circuit_breaker_config \<Rightarrow> code_run \<Rightarrow> nat \<times> instant \<Rightarrow> code_run" where
  "code_step cfg s x =
     (case x of (i, t) \<Rightarrow>
       if i < length (code_pcs s) then
         (case code_pcs s ! i of
           CodeAsk \<Rightarrow>
             (case try_acquire cfg t (code_shared s) of
               (Ok p, b) \<Rightarrow> \<lparr>code_shared = b, code_pcs = (code_pcs s)[i := CodeYield p]\<rparr>
             | (Err r, b) \<Rightarrow> \<lparr>code_shared = b, code_pcs = (code_pcs s)[i := CodeJoined]\<rparr>)
         | CodeYield p \<Rightarrow> s\<lparr>code_pcs := (code_pcs s)[i := CodeHold p]\<rparr>
         | CodeHold p \<Rightarrow>
             \<lparr>code_shared = permit_drop p (code_shared s), code_pcs = (code_pcs s)[i := CodeJoined]\<rparr>
         | CodeJoined \<Rightarrow> s)
       else s)"

definition code_start :: "nat \<Rightarrow> code_run" where
  "code_start n =
     \<lparr>code_shared = \<lparr>generation = 1, mode = ModeHalfOpen 0 0\<rparr>, code_pcs = replicate n CodeAsk\<rparr>"

fun pc_of :: "code_pc \<Rightarrow> probe_pc" where
  "pc_of CodeAsk = AskProbe"
| "pc_of (CodeYield p) = YieldProbe"
| "pc_of (CodeHold p) = HoldProbe"
| "pc_of CodeJoined = ProbeJoined"

definition program_of :: "code_run \<Rightarrow> probe_run" where
  "program_of s = \<lparr>probe_shared = copy_of (code_shared s), probe_pcs = map pc_of (code_pcs s), probe_failed = False\<rparr>"

fun permit_of :: "code_pc \<Rightarrow> permit option" where
  "permit_of (CodeYield p) = Some p"
| "permit_of (CodeHold p) = Some p"
| "permit_of _ = None"

definition probe_permit :: "u64 \<Rightarrow> permit" where
  "probe_permit g = \<lparr>permit_generation = g, kind = PermitHalfOpen, completed = False\<rparr>"

definition code_inv :: "code_run \<Rightarrow> bool" where
  "code_inv s \<longleftrightarrow> copy_mode (copy_of (code_shared s)) = LoomHalfOpen \<and>
     list_all (\<lambda>pc. \<forall>p. permit_of pc = Some p \<longrightarrow> p = probe_permit (generation (code_shared s))) (code_pcs s)"

text \<open>Each critical section of the code does to the copy what the copy's own does.\<close>

lemma copy_mode_of: "copy_mode (copy_of s) = LoomHalfOpen \<longleftrightarrow> (\<exists>i n. mode s = ModeHalfOpen i n)"
  by (simp add: copy_of_def split: mode.split)

lemma copy_generation_of [simp]: "copy_generation (copy_of s) = generation s"
  by (simp add: copy_of_def split: mode.split)

lemma copy_transitions:
  "copy_of (transition_closed s) = loom_transition_closed (copy_of s)"
  "clock_ok cfg t \<Longrightarrow> copy_of (snd (transition_open (open_timeout cfg) t s)) = loom_transition_open (copy_of s)"
  by (simp_all add: transition_open_ok copy_of_def transition_closed_def loom_transition_closed_def
      loom_transition_open_def split: mode.split)

lemma copy_acquire:
  assumes "mode s = ModeHalfOpen i n"
  shows "try_acquire cfg t s =
    (if loom_admits (half_open_success_threshold cfg) (copy_of s)
     then (Ok (probe_permit (generation s)), s\<lparr>mode := ModeHalfOpen (i + 1) n\<rparr>)
     else (Err CircuitBreakerRejected, s))"
  using assms
  by (simp add: try_acquire_def refresh_open_state_def loom_admits_def copy_of_def probe_permit_def Let_def not_le [symmetric])

lemma copy_drop:
  assumes "mode s = ModeHalfOpen i n"
  shows "permit_drop (probe_permit (generation s)) s = s\<lparr>mode := ModeHalfOpen (saturating_sub i 1) n\<rparr>"
  using assms by (simp add: permit_drop_def abandon_def probe_permit_def)

lemma copy_success:
  assumes "half_open_success_threshold cfg = 1"
  shows "copy_of (permit_success cfg (probe_permit g) s) = loom_complete g (copy_of s)"
proof (cases "mode s")
  case (ModeHalfOpen i n)
  have "1 \<le> saturating_add n (1 :: u32)" by (simp add: word_le_nat_alt wsat)
  with ModeHalfOpen assms show ?thesis
    by (simp add: permit_success_eq record_success_def probe_permit_def loom_complete_def copy_of_def
        transition_closed_def loom_transition_closed_def Let_def)
qed (simp_all add: permit_success_eq record_success_def probe_permit_def loom_complete_def copy_of_def Let_def)


lemma code_inv_update:
  assumes "code_inv s" and "mode b = ModeHalfOpen i' n'" and "generation b = generation (code_shared s)"
    and "\<And>p. permit_of pc = Some p \<Longrightarrow> p = probe_permit (generation b)"
  shows "code_inv \<lparr>code_shared = b, code_pcs = (code_pcs s)[i := pc]\<rparr>"
  using assms by (auto simp: code_inv_def copy_mode_of list_all_iff dest!: set_update_subset_insert [THEN subsetD])

lemma code_step_refines:
  assumes inv: "code_inv s"
  shows "code_inv (code_step cfg s x)"
    and "program_of (code_step cfg s x) = probe_step (half_open_success_threshold cfg) (program_of s) (fst x)"
proof -
  obtain i t where x: "x = (i, t)" by fastforce
  obtain k n where m: "mode (code_shared s) = ModeHalfOpen k n"
    using inv by (auto simp: code_inv_def copy_mode_of)
  have pc: "p = probe_permit (generation (code_shared s))"
    if "i < length (code_pcs s)" "permit_of (code_pcs s ! i) = Some p" for p
    using inv that by (auto simp: code_inv_def list_all_length)
  have "code_inv (code_step cfg s x) \<and>
      program_of (code_step cfg s x) = probe_step (half_open_success_threshold cfg) (program_of s) i"
  proof (cases "i < length (code_pcs s)")
    case True
    note rules = copy_acquire [OF m] copy_drop [OF m] x code_step_def probe_step_def program_of_def map_update True
    show ?thesis
    proof (cases "code_pcs s ! i")
      case CodeAsk
      show ?thesis
      proof (cases "loom_admits (half_open_success_threshold cfg) (copy_of (code_shared s))")
        case admits: True
        then have "k + 1 \<le> half_open_success_threshold cfg"
          using m by (simp add: loom_admits_def copy_of_def inc_le)
        with admits m CodeAsk show ?thesis
          by (auto simp: rules loom_admit_def copy_of_def Let_def intro!: code_inv_update [OF inv])
      next
        case False
        with m CodeAsk show ?thesis by (auto simp: rules intro!: code_inv_update [OF inv])
      qed
    next
      case (CodeYield p)
      with m pc [OF True] show ?thesis
        using code_inv_update [OF inv m refl, of "CodeHold p" i] True by (cases s) (simp add: rules)
    next
      case (CodeHold p)
      then have "p = probe_permit (generation (code_shared s))" using pc [OF True] by simp
      with CodeHold m show ?thesis
        by (auto simp: rules loom_release_def copy_of_def intro!: code_inv_update [OF inv])
    next
      case CodeJoined
      with inv show ?thesis by (simp add: rules)
    qed
  qed (use inv in \<open>simp_all add: x code_step_def probe_step_def program_of_def\<close>)
  then show "code_inv (code_step cfg s x)"
    "program_of (code_step cfg s x) = probe_step (half_open_success_threshold cfg) (program_of s) (fst x)"
    by (simp_all add: x)
qed

interpretation code_program: simulation "code_step cfg" code_inv "\<lambda>x. True"
    "\<lambda>s x. probe_step (half_open_success_threshold cfg) s (fst x)" program_of for cfg
  by unfold_locales (simp_all add: code_step_refines)

lemma run_fst: "run (\<lambda>s x. step s (fst x)) s xs = run step s (map fst xs)"
  by (induction xs arbitrary: s) simp_all

lemma code_start_program: "code_inv (code_start n)" "program_of (code_start n) = probe_start n"
  by (simp_all add: code_inv_def code_start_def program_of_def probe_start_def copy_of_def loom_half_open_def list_all_iff)

subsection \<open>Every schedule can be finished\<close>

lemma stale_finishes: "\<exists>more. stale_joined (run stale_step stale_start (schedule @ more))"
proof -
  let ?s = "run stale_step stale_start schedule"
  let ?more = "[TransitionThread, TransitionThread, CompletionThread, CompletionThread]"
  have "stale_joined (run stale_step ?s ?more)"
    using stale_inv_run [of schedule]
    by (cases "transition_pc ?s"; cases "completion_pc ?s") (auto simp: stale_joined_def stale_inv_def)
  then show ?thesis by (metis run_append)
qed

lemma probe_step_joins:
  assumes "i < length (probe_pcs s)"
  shows "probe_pcs (run (probe_step budget) s [i, i, i]) = (probe_pcs s)[i := ProbeJoined]"
  using assms
  by (cases "probe_pcs s ! i") (auto simp: probe_step_def Let_def list_update_same_conv [THEN iffD2])

lemma probe_finishes_from: "\<exists>more. probe_joined (run (probe_step budget) s more)"
proof (induction "length (filter (\<lambda>pc. pc \<noteq> ProbeJoined) (probe_pcs s))" arbitrary: s)
  case 0
  then have "probe_joined (run (probe_step budget) s [])"
    by (auto simp: probe_joined_def filter_empty_conv)
  then show ?case by blast
next
  case (Suc n)
  then obtain i where i: "i < length (probe_pcs s)" "probe_pcs s ! i \<noteq> ProbeJoined"
    by (metis (mono_tags, lifting) filter_False in_set_conv_nth length_0_conv nat.distinct(1))
  let ?s = "run (probe_step budget) s [i, i, i]"
  have "n = length (filter (\<lambda>pc. pc \<noteq> ProbeJoined) (probe_pcs ?s))"
    using Suc(2) i filter_list_update [OF i(1), of "\<lambda>pc. pc \<noteq> ProbeJoined" ProbeJoined] probe_step_joins [OF i(1), of budget]
    by auto
  from Suc(1) [OF this] obtain more where "probe_joined (run (probe_step budget) ?s more)" by blast
  then show ?case by (metis run_append)
qed

lemma probe_finishes:
  "\<exists>more. probe_joined (run (probe_step budget) (probe_start n) (schedule @ more))"
  using probe_finishes_from [of budget "run (probe_step budget) (probe_start n) schedule"]
  by (metis run_append)

subsection \<open>Properties\<close>

text \<open>C38: both Loom tests pass under every schedule, not only for two threads and a budget of one, and no
  schedule gets stuck: the outcome of a stale generation changes nothing after the circuit was opened,
  and the threads together never hold more probes than the budget and give all of them back.\<close>

theorem loom_tests_pass:
  "test_loom_stale_outcome schedule \<and> test_loom_probe_budget budget n order \<and>
   (\<exists>more. stale_joined (run stale_step stale_start (schedule @ more))) \<and>
   (\<exists>more. probe_joined (run (probe_step budget) (probe_start n) (order @ more)))"
proof (intro conjI stale_finishes probe_finishes)
  show "test_loom_stale_outcome schedule"
    using stale_inv_run [of schedule]
    by (auto simp: test_loom_stale_outcome_def stale_inv_def stale_joined_def stale_defs Let_def)
  let ?s = "run (probe_step budget) (probe_start n) order"
  have "unat (copy_in_flight (probe_shared ?s)) = 0" if "probe_joined ?s"
    using probe_inv_run [of budget n order] that
    by (auto simp: probe_inv_def probe_joined_def filter_empty_conv holds_probe_def)
  then have "copy_in_flight (probe_shared ?s) = 0" if "probe_joined ?s"
    using that by (simp add: unat_eq_zero)
  then show "test_loom_probe_budget budget n order"
    using probe_inv_run [of budget n order] by (auto simp: test_loom_probe_budget_def probe_inv_def Let_def)
qed

text \<open>C8: the Loom file tests the code: threads that ask circuit_breaker.rs for probes and drop their permits go,
  under every schedule and whatever the clock reads, through the states of Loom's own threads, with the success
  threshold as the budget; and opening, closing and completing do to the copy what they do to the code.\<close>

theorem loom_copies_breaker:
  assumes "clock_ok cfg t" and "half_open_success_threshold cfg' = 1"
  shows "program_of (run (code_step cfg) (code_start n) schedule) =
      run (probe_step (half_open_success_threshold cfg)) (probe_start n) (map fst schedule) \<and>
    copy_of (snd (transition_open (open_timeout cfg) t s)) = loom_transition_open (copy_of s) \<and>
    copy_of (transition_closed s) = loom_transition_closed (copy_of s) \<and>
    copy_of (permit_success cfg' (probe_permit g) s) = loom_complete g (copy_of s)"
  using code_program.run_sim [OF code_start_program(1), of schedule cfg n] assms
  by (simp add: code_start_program(2) run_fst copy_transitions copy_success list_all_iff)

theorem loom_copies_breaker_witness:
  "probe_pcs (program_of (run (code_step sample_breaker_config) (code_start 2) [(0, 3), (1, 7), (0, 7), (0, 7), (1, 8)])) =
     [ProbeJoined, ProbeJoined] \<and>
   copy_of (permit_success sample_breaker_config (probe_permit 1) \<lparr>generation = 1, mode = ModeHalfOpen 1 0\<rparr>) =
     \<lparr>copy_generation = 2, copy_mode = LoomClosed, copy_in_flight = 0, copy_successes = 0\<rparr>"
proof -
  have one: "half_open_success_threshold sample_breaker_config = 1" by (simp add: sample_breaker_config_def)
  have clock: "clock_ok sample_breaker_config 0" by simp
  have "run (probe_step 1) (probe_start 2) [0, 1, 0, 0, 1] =
      \<lparr>probe_shared = loom_half_open, probe_pcs = [ProbeJoined, ProbeJoined], probe_failed = False\<rparr>"
    by code_simp
  moreover have "copy_of \<lparr>generation = 1, mode = ModeHalfOpen 1 0\<rparr> =
      \<lparr>copy_generation = 1, copy_mode = LoomHalfOpen, copy_in_flight = 1, copy_successes = 0\<rparr>"
    by (simp add: copy_of_def)
  ultimately show ?thesis
    using loom_copies_breaker [OF clock one, of 2 "[(0, 3), (1, 7), (0, 7), (0, 7), (1, 8)]"
        "\<lparr>generation = 1, mode = ModeHalfOpen 1 0\<rparr>" 1]
    by (simp add: one loom_complete_def loom_transition_closed_def)
qed

end
