(* ===== verification/Public_Api.thy ===== *)
theory Public_Api
  imports Failover Shadow
begin

section \<open>What clients of the routing modules can build\<close>

text \<open>
  The fields of tables, stores, eligibility decisions, sampling policies and failover policies are
  private, so a client has only the values that the public constructors and methods return. The
  inductive predicates below are these values, one introduction rule per public way to obtain
  one; an eligibility decision carries the table it was derived from. As for a type system,
  soundness is in two parts: the operations preserve the predicates by their definition, and no
  operation on such values panics while the random source stays in the range it is asked for. There is
  one exception: the code accepts eligibility of another table with the same generation, and may then
  panic (\<open>Eligibility.foreign_eligibility_accepted\<close>). \<open>told_apart\<close> excludes exactly this, and nothing else: eligibility
  of a table with another generation, as of an earlier one of the same store, may be used with any table.
\<close>

inductive public_table :: "route_table \<Rightarrow> bool" and public_store :: "route_table_store \<Rightarrow> bool" where
  validated: "public_table t" if "route_table_new g rs = Ok t"
| republished: "public_table t" if "public_store st" and "store_replace st rs = (Ok t, st')"
| snapshotted: "public_table (store_snapshot st)" if "public_store st"
| opened: "public_store (store_new t)" if "public_table t"
| updated: "public_store st'" if "public_store st" and "store_replace st rs = (r, st')"

text \<open>A caller's predicate has a state of any type, but only its answers count: it is represented by the
  list of them.\<close>

definition answering :: "bool list \<Rightarrow> route \<Rightarrow> bool \<times> bool list" where
  "answering as r = (hd as, tl as)"

inductive public_eligibility :: "route_table \<Rightarrow> route_eligibility \<Rightarrow> bool" where
  everything: "public_eligibility t (eligibility_all t)"
| predicated: "public_eligibility t e" if "eligibility_from_predicate answering t as = (e, as')"

inductive public_sampling :: "shadow_sampling \<Rightarrow> bool" where
  by_default: "public_sampling sampling_default"
| by_rate: "public_sampling p" if "sampling_new ppm = Ok p"
| never: "public_sampling sampling_disabled"
| ever: "public_sampling sampling_always"

text \<open>The generations tell the two tables apart, as those of one store do.\<close>

definition told_apart :: "route_table \<Rightarrow> route_table \<Rightarrow> bool" where
  "told_apart t u \<longleftrightarrow> t = u \<or> table_generation t \<noteq> table_generation u"

inductive public_failover :: "route_failover \<Rightarrow> bool" where
  drawn: "public_failover f" if "public_table t" and "failover_new fastrand t b = Return f"
| drawn_with: "public_failover f" if "public_table t" and "failover_new_with t b draw = Return (Ok f)"
| planned: "public_failover f"
    if "public_table t" and "public_eligibility u e" and "told_apart t u" and "from_primary_eligibility t e b i = Ok f"
| classified: "public_failover f'" if "public_failover f" and "classify_with oc draw f = (r, f')"

inductive_cases public_eligibilityE: "public_eligibility t e"
inductive_cases public_samplingE: "public_sampling p"

lemma public_table_store_ok:
  "public_table t \<Longrightarrow> table_ok t"
  "public_store st \<Longrightarrow> store_ok st"
proof (induction rule: public_table_public_store.inducts)
  case (republished st rs t st')
  then have "fst (store_replace st rs) = Ok t" by simp
  then show ?case by (simp add: store_replace_Ok)
next
  case (updated st rs r st')
  then have "st' = store_step st rs" by (simp add: store_step_def)
  with updated show ?case by (simp add: store_step_ok)
qed (simp_all add: route_table_new_Ok store_ok_def store_snapshot_def store_new_def)

fun answers :: "('s \<Rightarrow> route \<Rightarrow> bool \<times> 's) \<Rightarrow> route list \<Rightarrow> 's \<Rightarrow> bool list" where
  "answers pred [] s = []"
| "answers pred (r # rs) s =
     (if live r then (case pred s r of (keep, s') \<Rightarrow> keep # answers pred rs s') else answers pred rs s)"

lemma eligible_ids_answering: "fst (eligible_ids answering rs (answers pred rs s)) = fst (eligible_ids pred rs s)"
  by (induction pred rs s rule: answers.induct) (auto simp: live_def answering_def split: prod.splits)

lemma public_eligibility_predicate: "public_eligibility t (fst (eligibility_from_predicate pred t s))"
proof -
  have "fst (eligibility_from_predicate answering t (answers pred (table_routes t) s)) =
      fst (eligibility_from_predicate pred t s)"
    using eligible_ids_answering [of "table_routes t" pred s]
    by (simp add: eligibility_from_predicate_def split_beta)
  then show ?thesis by (metis predicated surjective_pairing)
qed

lemma public_eligibility_derived: "public_eligibility t e \<Longrightarrow> derived_from e t"
  by (elim public_eligibilityE) (simp, metis derived_from_predicate fst_conv)

lemma derived_generation: "derived_from e t \<Longrightarrow> elig_generation e = table_generation t"
  by (simp add: derived_from_def)

lemma public_sampling_le: "public_sampling p \<Longrightarrow> unat (parts_per_million p) \<le> 1000000"
  by (auto elim!: public_samplingE simp: sampling_new_Ok sampling_default_def sampling_disabled_def
      sampling_always_def shadow_parts_per_million_def)

text \<open>The route a selection returns is eligible, so the policy that starts there has its invariant.\<close>

lemma table_selected_eligible:
  assumes "table_ok t" and "table_select_with t draw = Return (Ok r)"
  shows "elig_contains (eligibility_all t) (route_ident r)"
  using table_select_with_cases [OF assms(1), of draw] assms(2)
  by (auto simp: elig_contains_def split: if_splits)

lemma public_failover_inv: "public_failover f \<Longrightarrow> failover_inv f"
proof (induction rule: public_failover.induct)
  case (drawn t fastrand b f)
  note t = public_table_store_ok(1) [OF drawn(1)]
  from drawn(2) obtain r where "table_select_with t fastrand = Return (Ok r)"
    and f: "f = from_primary t (eligibility_all t) b (route_ident r)"
    by (auto simp: failover_new_def table_select_def bind_outcome_eq_Return)
  with t show ?case by (simp add: failover_inv_from_primary table_selected_eligible)
next
  case (drawn_with t b draw f)
  note t = public_table_store_ok(1) [OF drawn_with(1)]
  from drawn_with(2) obtain r where r: "select_remaining t (eligibility_all t) {} draw = Return (Ok (Some r))"
    and f: "f = from_primary t (eligibility_all t) b (route_ident r)"
    by (auto simp: failover_new_with_def Let_def split: outcome.splits result.splits option.splits)
  from select_remaining_Some(3) [OF t derived_from_all r] t show ?case
    unfolding f by (intro failover_inv_from_primary) simp_all
next
  case (planned t u e b i f)
  note e = public_eligibility_derived [OF planned(2)]
  from planned(4) have "elig_generation e = table_generation t" and c: "elig_contains e i"
    and f: "f = from_primary t e b i"
    by (auto simp: from_primary_eligibility_def split: if_splits)
  with planned(3) derived_generation [OF e] have "t = u" by (auto simp: told_apart_def)
  with planned(1) e c show ?case by (simp add: f public_table_store_ok failover_inv_from_primary)
next
  case (classified f oc draw r f')
  then have "f' = failover_step f (oc, draw)" by simp
  with classified show ?case by (simp only: failover_step_inv)
qed

subsection \<open>No operation panics\<close>

lemma in_range_less: "in_range draw \<Longrightarrow> w \<noteq> 0 \<Longrightarrow> draw w < w"
  by (simp add: in_range_def)

lemma table_select_no_panic:
  assumes "table_ok t"
  shows "table_select_with t draw \<noteq> Panic" and "in_range draw \<Longrightarrow> \<exists>r. table_select draw t = Return r"
proof -
  note cases = table_select_with_cases [OF assms, of draw]
  show "table_select_with t draw \<noteq> Panic" using cases by (auto split: if_splits)
  assume "in_range draw"
  moreover have "table_eligible_weight t \<noteq> 0" using assms by (simp add: table_ok_def)
  ultimately have "draw (table_eligible_weight t) < table_eligible_weight t" by (rule in_range_less)
  with cases show "\<exists>r. table_select draw t = Return r" by (auto simp: table_select_def)
qed

lemma sample_no_panic:
  assumes "in_range draw"
  shows "\<exists>b. sample draw p = Return b"
proof -
  have "draw shadow_parts_per_million < shadow_parts_per_million"
    using assms by (rule in_range_less) (simp add: shadow_parts_per_million_def)
  then show ?thesis by (auto simp: sample_def sample_with_def Let_def not_le [symmetric])
qed

lemma plan_no_panic:
  assumes "table_ok t"
  shows "plan_with t p d1 d2 d3 \<noteq> Panic"
    and "in_range d1 \<Longrightarrow> in_range d2 \<Longrightarrow> plan d1 d2 t p \<noteq> Panic"
  using table_select_no_panic [OF assms, of d1] sample_no_panic [of d2 p]
  by (auto simp: plan_with_def plan_def Let_def split: outcome.splits result.splits)

text \<open>Eligibility of a table with another generation is turned down.\<close>

lemma select_weighted_no_panic:
  assumes "table_ok t" and "derived_from e u" and "told_apart t u"
  shows "select_weighted_with t e ex draw \<noteq> Panic"
proof (cases "t = u")
  case True
  with assms(1,2) show ?thesis by (simp add: select_weighted_with_cases Let_def)
next
  case False
  with assms(3) derived_generation [OF assms(2)] have "elig_generation e \<noteq> table_generation t" by (simp add: told_apart_def)
  then show ?thesis by (simp add: select_weighted_with_def)
qed

lemma eligibility_select_no_panic:
  "table_ok t \<Longrightarrow> derived_from e u \<Longrightarrow> told_apart t u \<Longrightarrow> eligibility_select_with e t draw \<noteq> Panic"
  by (simp add: eligibility_select_with_def select_weighted_no_panic)

lemma plan_eligible_no_panic:
  assumes "table_ok t" and "derived_from e u" and "told_apart t u"
  shows "plan_eligible_with t e p d1 d2 d3 \<noteq> Panic"
  using select_weighted_no_panic [OF assms]
  by (auto simp: plan_eligible_with_def eligibility_select_with_def Let_def
      split: outcome.splits result.splits option.splits if_splits)

lemma failover_new_no_panic:
  assumes "table_ok t"
  shows "failover_new_with t b draw \<noteq> Panic" and "in_range draw \<Longrightarrow> failover_new draw t b \<noteq> Panic"
proof -
  let ?c = "(t, eligibility_all t, \<lambda>r. False)"
  have nz: "elig_total ?c \<noteq> 0" using elig_total_all [OF assms] assms by (simp add: table_ok_def)
  have chosen: "elig_chosen ?c d \<noteq> None" if "d < elig_total ?c" for d
    using elig_chosen_selectable [OF assms derived_from_all that] by blast
  show "failover_new_with t b draw \<noteq> Panic"
    using nz chosen [of "draw (elig_total ?c)"]
    by (auto simp: failover_new_with_def select_remaining_cases [OF assms derived_from_all] Let_def
        simp del: not_None_eq split: option.splits)
  show "failover_new draw t b \<noteq> Panic" if "in_range draw"
    using table_select_no_panic(2) [OF assms that] by (auto simp: failover_new_def Let_def)
qed

lemma classify_no_panic:
  assumes "failover_inv f"
  shows "fst (classify_with oc draw f) \<noteq> Panic" and "in_range draw \<Longrightarrow> fst (classify draw oc f) \<noteq> Panic"
proof -
  have ok: "table_ok (snapshot f)" "derived_from (eligibility f) (snapshot f)"
    using assms by (simp_all add: failover_inv_def)
  note remaining = select_remaining_cases [OF ok, of "attempted f" draw]
  show "fst (classify_with oc draw f) \<noteq> Panic"
    using select_remaining_no_panic [OF ok]
    by (auto simp: classify_with_def Let_def
        split: route_outcome.splits outcome.splits result.splits option.splits)
  assume "in_range draw"
  then have "select_remaining (snapshot f) (eligibility f) (attempted f) draw \<noteq> Return (Err x)" for x
    by (auto simp: remaining Let_def in_range_less split: if_splits)
  then show "fst (classify draw oc f) \<noteq> Panic"
    using select_remaining_no_panic [OF ok]
    by (auto simp: classify_def classify_with_def Let_def
        split: route_outcome.splits outcome.splits result.splits option.splits)
qed

subsection \<open>Properties\<close>

text \<open>C5: the public interface is sound, but for one misuse. Whatever tables, eligibility decisions, sampling policies and
  failover policies a client obtains from it, no selection, planning, failover construction or classification
  that uses them panics, for any injected draws, and with a random source in range neither do the
  operations that draw themselves and unwrap the result; provided that an eligibility decision is not used with
  a different table that has the same generation as its own. A decision of another generation is turned down.\<close>

theorem public_api_never_panics:
  assumes "public_table t" and "public_eligibility u e" and "told_apart t u" and "public_sampling p"
    and "public_failover f" and "in_range fastrand64" and "in_range fastrand32"
  shows "table_select_with t d1 \<noteq> Panic \<and> eligibility_select_with e t d1 \<noteq> Panic \<and>
    plan_with t p d1 d2 d3 \<noteq> Panic \<and> plan_eligible_with t e p d1 d2 d3 \<noteq> Panic \<and>
    failover_new_with t b d1 \<noteq> Panic \<and> fst (classify_with oc d1 f) \<noteq> Panic \<and>
    table_select fastrand64 t \<noteq> Panic \<and> sample fastrand32 p \<noteq> Panic \<and>
    plan fastrand64 fastrand32 t p \<noteq> Panic \<and> plan_eligible fastrand64 fastrand32 t e p \<noteq> Panic \<and>
    failover_new fastrand64 t b \<noteq> Panic \<and> fst (classify fastrand64 oc f) \<noteq> Panic \<and>
    (t \<noteq> u \<longrightarrow> eligibility_select_with e t d1 = Return (Err EligGenerationMismatch))"
proof -
  note t = public_table_store_ok(1) [OF assms(1)] and e = public_eligibility_derived [OF assms(2)]
    and f = public_failover_inv [OF assms(5)]
  have "t \<noteq> u \<longrightarrow> eligibility_select_with e t d1 = Return (Err EligGenerationMismatch)"
    using assms(3) derived_generation [OF e]
    by (auto simp: told_apart_def eligibility_select_with_def select_weighted_with_def)
  then show ?thesis
    using table_select_no_panic(1) [OF t] table_select_no_panic(2) [OF t assms(6)]
      sample_no_panic [OF assms(7), of p] plan_no_panic(1) [OF t] plan_no_panic(2) [OF t assms(6,7)]
      plan_eligible_no_panic [OF t e assms(3)] eligibility_select_no_panic [OF t e assms(3)]
      failover_new_no_panic(1) [OF t] failover_new_no_panic(2) [OF t assms(6)]
      classify_no_panic(1) [OF f] classify_no_panic(2) [OF f assms(6)]
    by (auto simp: plan_eligible_def)
qed

text \<open>A store is opened with the sample table and replaces it; the eligibility is of the table that was replaced.\<close>

definition next_table :: route_table where
  "next_table = sample_table\<lparr>table_generation := 8\<rparr>"

lemma sample_public:
  "public_table sample_table" "public_table next_table"
  "public_eligibility sample_table (eligibility_all sample_table)" "public_sampling sampling_always"
  "public_failover (from_primary sample_table (eligibility_all sample_table) (attempt_budget_new (nz_of 2)) (RouteId ''a''))"
proof -
  show t: "public_table sample_table" using sample_table_new by (rule validated)
  have "table_ok next_table" using sample_table_ok by (simp add: next_table_def table_ok_def del: sample_table_ok)
  then have "fst (store_replace (store_new sample_table) sample_routes) = Ok next_table"
    by (simp add: store_replace_Ok next_table_def sample_table_def store_new_def)
  with opened [OF t] show "public_table next_table" by (metis republished prod.collapse)
  show e: "public_eligibility sample_table (eligibility_all sample_table)" by (rule everything)
  show "public_sampling sampling_always" by (rule ever)
  show "public_failover (from_primary sample_table (eligibility_all sample_table) (attempt_budget_new (nz_of 2)) (RouteId ''a''))"
    using t e sample_failover by (intro planned [where u = sample_table]) (simp_all add: told_apart_def)
qed

theorem public_api_never_panics_witness:
  "plan_eligible (\<lambda>n. 0) (\<lambda>n. 0) next_table (eligibility_all sample_table) sampling_always \<noteq> Panic \<and>
   eligibility_select_with (eligibility_all sample_table) next_table (\<lambda>n. 0) = Return (Err EligGenerationMismatch) \<and>
   fst (classify (\<lambda>n. 0) FailoverOutcome
     (from_primary sample_table (eligibility_all sample_table) (attempt_budget_new (nz_of 2)) (RouteId ''a''))) \<noteq> Panic"
proof -
  have r: "in_range (\<lambda>n :: u64. 0)" "in_range (\<lambda>n :: u32. 0)" by (simp_all add: in_range_def word_gt_0)
  have apart: "told_apart next_table sample_table" and ne: "next_table \<noteq> sample_table"
    by (auto simp: told_apart_def next_table_def sample_table_def)
  from public_api_never_panics [OF sample_public(2,3) apart sample_public(4,5) r, of "\<lambda>n. 0"] ne show ?thesis by blast
qed

end
