(* ===== verification/Test_Kit.thy ===== *)
theory Test_Kit
  imports Contracts
begin

section \<open>How the unit tests of the crate are read\<close>

text \<open>
  The modules \<open>tests\<close> at the end of the source files fix the intended behaviour at concrete inputs. A
  test function becomes a truth value: it holds when every assertion of the function does, where
  \<open>unwrapped\<close>, \<open>present\<close> and \<open>returned\<close> stand for a binding that unwraps a result, an option, or the value of
  a call that might have panicked. What a test does not determine is an argument of it and the
  conformance lemmas quantify over it: the instants that a clock shows, the draws of \<open>fastrand\<close>, the
  order in which threads run, and what a closure would answer that the test declares unreachable
  or that a failing assertion in it would stop (\<open>stray\<close>, \<open>asked\<close>). A test that holds for all answers of such a
  closure does not depend on it.
\<close>

named_theorems unit_test \<comment> \<open>the definitions of unit tests\<close>

fun unwrapped :: "('a, 'e) result \<Rightarrow> ('a \<Rightarrow> bool) \<Rightarrow> bool" where
  "unwrapped (Ok a) rest = rest a"
| "unwrapped (Err e) rest = False"

fun present :: "'a option \<Rightarrow> ('a \<Rightarrow> bool) \<Rightarrow> bool" where
  "present (Some a) rest = rest a"
| "present None rest = False"

fun returned :: "'a outcome \<Rightarrow> ('a \<Rightarrow> bool) \<Rightarrow> bool" where
  "returned (Return a) rest = rest a"
| "returned Panic rest = False"

text \<open>\<open>unwrap\<close> of a call that returns a result and might panic.\<close>

definition unwrapped_call :: "('a, 'e) result outcome \<Rightarrow> ('a \<Rightarrow> bool) \<Rightarrow> bool" where
  "unwrapped_call m rest = returned m (\<lambda>r. unwrapped r rest)"

lemma unwrapped_call_simps [simp]:
  "unwrapped_call (Return r) rest = unwrapped r rest"
  "unwrapped_call Panic rest = False"
  by (simp_all add: unwrapped_call_def)

text \<open>A closure \<open>|range| { assert_eq!(range, 0..n); d }\<close>: where the assertion fails, anything.\<close>

definition asked :: "'a::len word \<Rightarrow> 'a word \<Rightarrow> ('a word \<Rightarrow> 'a word) \<Rightarrow> 'a word \<Rightarrow> 'a word" where
  "asked n d stray m = (if m = n then d else stray m)"

lemma asked_simps [simp]: "asked n d stray n = d" "m \<noteq> n \<Longrightarrow> asked n d stray m = stray m"
  by (simp_all add: asked_def)

text \<open>A loop whose body asserts something and may act on the world.\<close>

fun for_each :: "('a \<Rightarrow> 'w \<Rightarrow> bool \<times> 'w) \<Rightarrow> 'a list \<Rightarrow> 'w \<Rightarrow> bool \<times> 'w" where
  "for_each body [] w = (True, w)"
| "for_each body (x # xs) w =
     (case body x w of (b, w1) \<Rightarrow> (case for_each body xs w1 of (c, w2) \<Rightarrow> (b \<and> c, w2)))"

lemma for_each_holds:
  "(\<And>x w. x \<in> set xs \<Longrightarrow> fst (body x w)) \<Longrightarrow> fst (for_each body xs w)"
proof (induction xs arbitrary: w)
  case (Cons x xs)
  have "fst (body x w)" "fst (for_each body xs w1)" for w1
    using Cons.prems by (auto intro: Cons.IH)
  then show ?case by (simp add: split_beta)
qed simp

text \<open>\<open>saturating_mul\<close>, which only a test uses.\<close>

definition saturating_mul :: "'a::len word \<Rightarrow> 'a word \<Rightarrow> 'a word" where
  "saturating_mul a b = (if unat a * unat b < 2 ^ LENGTH('a) then a * b else - 1)"

lemma unat_saturating_mul [wsat]:
  "unat (saturating_mul a b) = min (unat a * unat b) (2 ^ LENGTH('a) - 1)" for a :: "'a::len word"
  using zero_less_power [of "2 :: nat" "LENGTH('a)"]
  by (cases "unat a * unat b < 2 ^ LENGTH('a)") (simp_all add: saturating_mul_def unat_word_ariths)

lemma as_nanos_small: "n < 1000000000000 \<Longrightarrow> as_nanos (from_millis n) = n * 1000000"
  by (simp add: dur duration_max_def)

lemma as_nanos_max: "as_nanos (dur_of duration_max) = duration_max"
  by (simp add: dur)

end
