(* ===== verification/Tests_Policies.thy ===== *)
theory Tests_Policies
  imports Test_Kit Deadline Retry Retry_Budget
begin

section \<open>Unit tests of budgets and retries\<close>

text \<open>The test modules of deadline.rs, retry.rs and retry_budget.rs.\<close>

subsection \<open>src/src/deadline.rs\<close>

definition test_remaining_saturates :: bool where
  "test_remaining_saturates =
     (let budget = bounded (from_millis 100);
          samples = map (\<lambda>elapsed. remaining budget (from_millis elapsed)) [0, 25, 99, 100, 125]
      in samples = map Some [from_millis 100, from_millis 75, from_millis 1, dur_zero, dur_zero] \<and>
         list_all (\<lambda>(a, b). the b \<le> the a) (zip samples (tl samples)))"

definition test_zero_budget_exhausted :: bool where
  "test_zero_budget_exhausted =
     (let budget = bounded dur_zero
      in is_exhausted budget dur_zero \<and> remaining budget dur_zero = Some dur_zero \<and>
         \<not> can_wait budget dur_zero dur_zero)"

definition test_deadline_boundary :: bool where
  "test_deadline_boundary =
     (let budget = bounded (from_millis 10)
      in \<not> is_exhausted budget (from_millis 9) \<and> is_exhausted budget (from_millis 10) \<and>
         is_exhausted budget (from_millis 11))"

definition test_child_within_parent :: bool where
  "test_child_within_parent =
     (let budget = bounded (from_millis 100)
      in clamp_child budget (from_millis 60) (from_millis 10) = from_millis 10 \<and>
         clamp_child budget (from_millis 60) (from_millis 80) = from_millis 40 \<and>
         clamp_child budget (from_millis 120) (from_millis 80) = dur_zero)"

definition test_wait_leaves_budget :: bool where
  "test_wait_leaves_budget =
     (let budget = bounded (from_millis 100)
      in can_wait budget (from_millis 60) (from_millis 39) \<and>
         \<not> can_wait budget (from_millis 60) (from_millis 40) \<and>
         \<not> can_wait budget (from_millis 100) dur_zero)"

definition test_unlimited_budget :: bool where
  "test_unlimited_budget =
     (let budget = unlimited; requested = from_millis 60000; mx = dur_of duration_max
      in limit budget = None \<and> remaining budget mx = None \<and> \<not> is_exhausted budget mx \<and>
         clamp_child budget mx requested = requested \<and> can_wait budget mx mx)"

lemmas deadline_tests [unit_test] =
  test_remaining_saturates_def test_zero_budget_exhausted_def test_deadline_boundary_def
  test_child_within_parent_def test_wait_leaves_budget_def test_unlimited_budget_def

lemma bounded_simps:
  "remaining (bounded l) e = Some (dur_sub l e)"
  "is_exhausted (bounded l) e \<longleftrightarrow> l \<le> e"
  "clamp_child (bounded l) e r = min r (dur_sub l e)"
  "can_wait (bounded l) e d \<longleftrightarrow> d < dur_sub l e"
  by (auto simp: budget_defs dur)

lemma unlimited_simps:
  "limit unlimited = None" "remaining unlimited e = None" "\<not> is_exhausted unlimited e"
  "clamp_child unlimited e r = r" "can_wait unlimited e d"
  by (simp_all add: budget_defs)

lemma deadline_conforms:
  "test_remaining_saturates" "test_zero_budget_exhausted" "test_deadline_boundary"
  "test_child_within_parent" "test_wait_leaves_budget" "test_unlimited_budget"
  by (simp_all add: deadline_tests bounded_simps unlimited_simps dur duration_max_def)

subsection \<open>src/src/retry.rs\<close>

definition with_deterministic_backoff :: "(exponential_backoff \<Rightarrow> bool) \<Rightarrow> bool" where
  "with_deterministic_backoff rest =
     unwrapped (backoff_new (from_millis 10) (from_millis 80) 2 NoJitter) rest"

definition delays_are :: "'w draw_inclusive \<Rightarrow> exponential_backoff \<Rightarrow> 'w \<Rightarrow> (u32 \<times> duration) list \<Rightarrow> bool" where
  "delays_are rng b w expected = list_all (\<lambda>(attempt, d). fst (delay_after rng b attempt w) = d) expected"

definition test_backoff_bounded :: "'w draw_inclusive \<Rightarrow> 'w \<Rightarrow> bool" where
  "test_backoff_bounded rng w =
     with_deterministic_backoff (\<lambda>backoff. delays_are rng backoff w
       [(1, from_millis 10), (2, from_millis 20), (3, from_millis 40), (4, from_millis 80),
        (20, from_millis 80)])"

definition expected_cap :: "u32 \<Rightarrow> duration" where
  "expected_cap attempt =
     (let exponent = attempt - 1
      in from_millis (unat (min (saturating_mul 10 (saturating_pow 2 exponent)) 80 :: u64)))"

definition test_full_jitter :: "'w draw_inclusive \<Rightarrow> 'w \<Rightarrow> bool" where
  "test_full_jitter rng w =
     unwrapped (backoff_new (from_millis 10) (from_millis 80) 2 Full) (\<lambda>backoff.
       fst (for_each (\<lambda>attempt. for_each
         (\<lambda>_ w. case delay_after rng backoff attempt w of (d, w') \<Rightarrow> (d \<le> expected_cap attempt, w'))
         [0..<256]) (map word_of_nat [1..<13]) w))"

definition test_equal_jitter :: "'w draw_inclusive \<Rightarrow> 'w \<Rightarrow> bool" where
  "test_equal_jitter rng w =
     unwrapped (backoff_new (from_millis 10) (from_millis 80) 2 Equal) (\<lambda>backoff.
       fst (for_each (\<lambda>attempt. let cap = expected_cap attempt; flr = dur_div cap 2 in for_each
         (\<lambda>_ w. case delay_after rng backoff attempt w of (d, w') \<Rightarrow> (flr \<le> d \<and> d \<le> cap, w'))
         [0..<256]) (map word_of_nat [1..<13]) w))"

definition test_stops_at_max_attempts :: "'w draw_inclusive \<Rightarrow> 'w \<Rightarrow> bool" where
  "test_stops_at_max_attempts rng w =
     present (nz_new 3) (\<lambda>three. with_deterministic_backoff (\<lambda>backoff.
       let policy = policy_new three backoff in
         fst (next_delay rng policy 1 dur_zero Retry w) \<noteq> None \<and>
         fst (next_delay rng policy 2 dur_zero Retry w) \<noteq> None \<and>
         fst (next_delay rng policy 3 dur_zero Retry w) = None))"

definition test_max_elapsed_boundary :: "'w draw_inclusive \<Rightarrow> 'w \<Rightarrow> bool" where
  "test_max_elapsed_boundary rng w =
     present (nz_new 3) (\<lambda>three. with_deterministic_backoff (\<lambda>backoff.
       let policy = with_max_elapsed (policy_new three backoff) (from_millis 25) in
         fst (next_delay rng policy 1 (from_millis 15) Retry w) = Some (from_millis 10) \<and>
         fst (next_delay rng policy 1 (from_millis 16) Retry w) = None))"

definition failing_operation :: "('w \<Rightarrow> instant) \<Rightarrow> (duration \<Rightarrow> 'w \<Rightarrow> 'w) \<Rightarrow> 'w draw_inclusive \<Rightarrow>
    (nat \<times> 'w, unit, string) env" where
  "failing_operation time pause rng =
     \<lparr>operation = (\<lambda>(calls, w). (Return (Err ''transient''), (Suc calls, w))),
      clock = (\<lambda>(calls, w). time w), sleep = (\<lambda>d (calls, w). (calls, pause d w)),
      draw = (\<lambda>n (calls, w). case rng n w of (r, w') \<Rightarrow> (r, (calls, w')))\<rparr>"

definition test_executes_configured_attempts ::
    "('w \<Rightarrow> instant) \<Rightarrow> (duration \<Rightarrow> 'w \<Rightarrow> 'w) \<Rightarrow> 'w draw_inclusive \<Rightarrow> 'w \<Rightarrow> bool" where
  "test_executes_configured_attempts time pause rng w =
     present (nz_new 3) (\<lambda>three. unwrapped (backoff_new (from_nanos 1) (from_nanos 1) 1 NoJitter) (\<lambda>backoff.
       case retry (policy_new three backoff) (failing_operation time pause rng) (by_error (\<lambda>_. Retry)) (0, w) of
         (result, calls, _) \<Rightarrow> result = Return (Err ''transient'') \<and> calls = 3))"

definition test_non_retryable_stops :: "'w draw_inclusive \<Rightarrow> 'w \<Rightarrow> bool" where
  "test_non_retryable_stops rng w =
     present (nz_new 3) (\<lambda>three. with_deterministic_backoff (\<lambda>backoff.
       fst (next_delay rng (policy_new three backoff) 1 dur_zero DoNotRetry w) = None))"

lemmas retry_tests [unit_test] =
  with_deterministic_backoff_def test_backoff_bounded_def test_full_jitter_def test_equal_jitter_def
  test_stops_at_max_attempts_def test_max_elapsed_boundary_def test_executes_configured_attempts_def
  test_non_retryable_stops_def

lemma backoff_10_80:
  "backoff_new (from_millis 10) (from_millis 80) 2 j =
     Ok \<lparr>initial = from_millis 10, maximum = from_millis 80, factor = 2, backoff_jitter = j\<rparr>"
  by (simp add: backoff_new_def dur duration_max_def word_less_nat_alt)

lemma expected_cap_delay_cap:
  assumes "backoff_new (from_millis 10) (from_millis 80) 2 j = Ok b" and "attempt \<noteq> 0"
  shows "delay_cap b attempt = expected_cap attempt"
proof -
  have b: "b = \<lparr>initial = from_millis 10, maximum = from_millis 80, factor = 2, backoff_jitter = j\<rparr>"
    using assms(1) by (simp add: backoff_10_80)
  have e: "unat (attempt - 1) = unat attempt - 1" using assms(2) by (rule unat_minus_1)
  have m: "unat (min a b) = min (unat a) (unat b)" for a b :: u64
    by (simp add: min_def word_le_nat_alt)
  have small: "min (min (10 * min x 18446744073709551615) 18446744073709551615) 80 = min (10 * x) 80"
    for x :: nat by auto
  have "expected_cap attempt = from_millis (min (10 * 2 ^ (unat attempt - 1)) 80)"
    by (simp add: expected_cap_def Let_def m wsat e small)
  moreover have "as_nanos (from_millis (min (10 * 2 ^ (unat attempt - 1)) 80)) =
      min (10 * 2 ^ (unat attempt - 1)) 80 * 1000000"
    by (rule as_nanos_small) simp
  ultimately show ?thesis
    by (simp add: duration_eq_iff as_nanos_delay_cap b as_nanos_small min_def duration_max_def)
qed

lemma attempts_not_zero: "x \<in> set (map word_of_nat [1..<13]) \<Longrightarrow> (x :: u32) \<noteq> 0"
  by auto (simp add: word_unat_eq_iff unat_of_nat)

lemma no_jitter_delay:
  "delay_after rng \<lparr>initial = i, maximum = m, factor = f, backoff_jitter = NoJitter\<rparr> a w =
     (delay_cap \<lparr>initial = i, maximum = m, factor = f, backoff_jitter = NoJitter\<rparr> a, w)"
  by (simp add: delay_after_no_jitter)

lemma deterministic_backoff_conforms:
  "test_backoff_bounded rng w" "test_stops_at_max_attempts rng w" "test_max_elapsed_boundary rng w"
  "test_non_retryable_stops rng w"
  by (simp_all add: retry_tests backoff_10_80 delays_are_def no_jitter_delay nz_new_def policy_new_def
      with_max_elapsed_def next_delay_def word_le_nat_alt duration_eq_iff less_duration_def as_nanos_delay_cap
      as_nanos_add as_nanos_small as_nanos_zero duration_max_def del: not_None_eq)

lemma full_jitter_conforms:
  assumes "draw_ok rng"
  shows "test_full_jitter rng w"
proof -
  have "d \<le> expected_cap a" if "a \<in> set (map word_of_nat [1..<13])"
    and "backoff_new (from_millis 10) (from_millis 80) 2 Full = Ok b" "delay_after rng b a v = (d, v')" for a b d v v'
    using delay_after_le_cap [OF assms that(3)] expected_cap_delay_cap [OF that(2) attempts_not_zero [OF that(1)]] by simp
  then show ?thesis unfolding test_full_jitter_def backoff_10_80 unwrapped.simps
    by (intro for_each_holds) (simp add: backoff_10_80 split: prod.split)
qed

lemma equal_jitter_conforms:
  assumes "draw_ok rng"
  shows "test_equal_jitter rng w"
proof -
  have "dur_div (expected_cap a) 2 \<le> d \<and> d \<le> expected_cap a" if "a \<in> set (map word_of_nat [1..<13])"
    and b: "backoff_new (from_millis 10) (from_millis 80) 2 Equal = Ok b" and d: "delay_after rng b a v = (d, v')" for a b d v v'
    using delay_after_le_cap [OF assms d] delay_after_equal_ge_half [of b a rng v] b d
      expected_cap_delay_cap [OF b attempts_not_zero [OF that(1)]]
    by (auto simp: backoff_10_80)
  then show ?thesis unfolding test_equal_jitter_def backoff_10_80 unwrapped.simps Let_def
    by (intro for_each_holds) (simp add: backoff_10_80 split: prod.split)
qed

lemma executes_configured_attempts: "test_executes_configured_attempts time pause rng w"
  by (simp add: test_executes_configured_attempts_def nz_new_def backoff_new_def policy_new_def retry_def
      failing_operation_def retry_loop.simps next_delay_def no_jitter_delay dur word_le_nat_alt)

subsection \<open>src/src/retry_budget.rs\<close>

definition with_config :: "u32 \<Rightarrow> u32 \<Rightarrow> (retry_budget_config \<Rightarrow> bool) \<Rightarrow> bool" where
  "with_config cap per_success rest =
     present (nz_new cap) (\<lambda>c. present (nz_new per_success) (\<lambda>r. rest (budget_config_new c r)))"

definition test_tokens_until_suppressed :: bool where
  "test_tokens_until_suppressed =
     with_config 2 1 (\<lambda>cfg.
       let budget = ns_new cfg :: primary_retry_budget;
           (first, budget) = ns_try_acquire_retry budget;
           (second, budget) = ns_try_acquire_retry budget;
           (third, budget) = ns_try_acquire_retry budget
       in first = Admitted 1 \<and> second = Admitted 0 \<and> third = Suppressed)"

fun is_admitted :: "retry_budget_decision \<Rightarrow> bool" where
  "is_admitted (Admitted n) = True"
| "is_admitted Suppressed = False"

definition test_replenish_saturates :: bool where
  "test_replenish_saturates =
     with_config 3 2 (\<lambda>cfg.
       let budget = ns_new cfg :: primary_retry_budget;
           (first, budget) = ns_try_acquire_retry budget;
           (second, budget) = ns_try_acquire_retry budget;
           (n, budget) = ns_record_success budget;
           (m, budget) = ns_record_success budget
       in is_admitted first \<and> is_admitted second \<and> n = 3 \<and> m = 3 \<and> ns_available_retries budget = 3)"

text \<open>A clone shares the state behind the \<open>Arc\<close>, so both requests act on the one budget.\<close>

definition test_clones_share :: bool where
  "test_clones_share =
     with_config 1 1 (\<lambda>cfg.
       let shared_budget = ns_new cfg :: primary_retry_budget;
           (first_request, shared_budget) = ns_try_acquire_retry shared_budget;
           (second_request, shared_budget) = ns_try_acquire_retry shared_budget;
           (_, shared_budget) = ns_record_success shared_budget
       in first_request = Admitted 0 \<and> second_request = Suppressed \<and>
          ns_available_retries shared_budget = 1)"

definition test_namespaces_isolated :: bool where
  "test_namespaces_isolated =
     with_config 1 1 (\<lambda>cfg.
       let primary = ns_new cfg :: primary_retry_budget;
           shadow = ns_new cfg :: shadow_retry_budget;
           (first, shadow) = ns_try_acquire_retry shadow;
           (second, shadow) = ns_try_acquire_retry shadow;
           left = ns_available_retries primary;
           (third, primary) = ns_try_acquire_retry primary
       in is_admitted first \<and> second = Suppressed \<and> left = 1 \<and> third = Admitted 0)"

text \<open>
  The concurrent test: each of the callers makes one \<open>try_acquire_retry\<close> under the lock; the order in which
  they get it makes no difference, as they all do the same. What each one returns is collected.
\<close>

fun acquire_each :: "nat \<Rightarrow> 'n budget_of \<Rightarrow> bool list \<times> 'n budget_of" where
  "acquire_each 0 b = ([], b)"
| "acquire_each (Suc callers) b =
     (case ns_try_acquire_retry b of (d, b1) \<Rightarrow>
       (case acquire_each callers b1 of (ds, b2) \<Rightarrow> (is_admitted d # ds, b2)))"

definition test_budget_concurrent_admission :: bool where
  "test_budget_concurrent_admission =
     with_config 8 1 (\<lambda>cfg.
       case acquire_each 32 (ns_new cfg :: primary_retry_budget) of (results, budget) \<Rightarrow>
         length (filter (\<lambda>r. r) results) = 8 \<and> ns_available_retries budget = 0)"

lemmas retry_budget_tests [unit_test] =
  with_config_def test_tokens_until_suppressed_def test_replenish_saturates_def test_clones_share_def
  test_namespaces_isolated_def test_budget_concurrent_admission_def

lemmas ns_defs =
  ns_new_def ns_try_acquire_retry_def ns_record_success_def ns_available_retries_def budget_new_def
  budget_config_new_def try_acquire_retry_def budget_record_success_def available_retries_def

lemma acquire_each_counts:
  fixes b b' :: "'n budget_of"
  shows "acquire_each n b = (ds, b') \<Longrightarrow>
     length (filter (\<lambda>r. r) ds) = min n (unat (tokens (inner b))) \<and>
     unat (tokens (inner b')) = unat (tokens (inner b)) - n"
proof (induction n arbitrary: b ds b')
  case (Suc n)
  obtain d s where d: "try_acquire_retry (inner b) = (d, s)" by fastforce
  obtain es b2 where es: "acquire_each n (Budget_Of s :: 'n budget_of) = (es, b2)" by fastforce
  have "unat (tokens s) = unat (tokens (inner b)) - 1" using tokens_acquire [of "inner b"] d by simp
  moreover have "is_admitted d \<longleftrightarrow> tokens (inner b) \<noteq> 0"
    using d by (auto simp: try_acquire_retry_def Let_def split: if_splits)
  moreover have "tokens (inner b) \<noteq> 0 \<longleftrightarrow> 0 < unat (tokens (inner b))" by (simp add: unat_gt_0)
  ultimately show ?case
    using Suc.IH [OF es] Suc.prems d es by (auto simp: ns_try_acquire_retry_def)
qed simp

lemma retry_budget_conforms:
  "test_tokens_until_suppressed" "test_replenish_saturates" "test_clones_share" "test_namespaces_isolated"
  by (simp_all add: retry_budget_tests ns_defs nz_new_def saturating_add_def min_def word_le_nat_alt)

lemma budget_concurrency_conforms: "test_budget_concurrent_admission"
proof -
  obtain ds b where run: "acquire_each 32 (ns_new (budget_config_new (nz_of 8) (nz_of 1)) :: primary_retry_budget) = (ds, b)"
    by fastforce
  from acquire_each_counts [OF run] show ?thesis
    using run by (simp add: retry_budget_tests nz_new_def ns_defs word_unat_eq_iff)
qed

end
