(* ===== verification/Tests_Guards.thy ===== *)
theory Tests_Guards
  imports Test_Kit Circuit_Breaker Bulkhead Locks
begin

section \<open>Unit tests of the circuit breaker and the bulkhead\<close>

text \<open>
  The test modules of circuit_breaker.rs and bulkhead.rs. Breaker tests take the instants that
  \<open>Instant::now\<close> shows at their successive operations, \<open>now 0\<close>, \<open>now 1\<close> and so on; the lemmas say for
  which readings they pass. The tests that run threads become assertions about a state of the
  thread system, which hold in every reachable one.
\<close>

subsection \<open>src/src/circuit_breaker.rs\<close>

definition with_breaker :: "(circuit_breaker_config \<Rightarrow> shared \<Rightarrow> bool) \<Rightarrow> bool" where
  "with_breaker rest = unwrapped (breaker_config_new 2 (from_millis 20) 1) (\<lambda>cfg. rest cfg breaker_new)"

text \<open>\<open>breaker.try_acquire().unwrap().failure()\<close> and the same with \<open>success()\<close>.\<close>

definition acquire_then_fail ::
    "circuit_breaker_config \<Rightarrow> instant \<Rightarrow> instant \<Rightarrow> shared \<Rightarrow> (shared \<Rightarrow> bool) \<Rightarrow> bool" where
  "acquire_then_fail cfg t t' s rest =
     (case try_acquire cfg t s of (r, s1) \<Rightarrow> unwrapped r (\<lambda>p.
       case permit_failure cfg t' p s1 of (u, s2) \<Rightarrow> returned u (\<lambda>_. rest s2)))"

definition acquire_then_succeed ::
    "circuit_breaker_config \<Rightarrow> instant \<Rightarrow> shared \<Rightarrow> (shared \<Rightarrow> bool) \<Rightarrow> bool" where
  "acquire_then_succeed cfg t s rest =
     (case try_acquire cfg t s of (r, s1) \<Rightarrow> unwrapped r (\<lambda>p. rest (permit_success cfg p s1)))"

definition test_opens_after_threshold :: "(nat \<Rightarrow> instant) \<Rightarrow> bool" where
  "test_opens_after_threshold now =
     with_breaker (\<lambda>cfg s.
       acquire_then_fail cfg (now 0) (now 1) s (\<lambda>s.
       case breaker_state (now 2) s of (first, s) \<Rightarrow> first = Closed \<and>
       acquire_then_fail cfg (now 3) (now 4) s (\<lambda>s.
       case breaker_state (now 5) s of (second, s) \<Rightarrow> second = Open \<and>
       fst (try_acquire cfg (now 6) s) = Err CircuitBreakerRejected)))"

definition test_success_resets :: "(nat \<Rightarrow> instant) \<Rightarrow> bool" where
  "test_success_resets now =
     with_breaker (\<lambda>cfg s.
       acquire_then_fail cfg (now 0) (now 1) s (\<lambda>s.
       acquire_then_succeed cfg (now 2) s (\<lambda>s.
       acquire_then_fail cfg (now 3) (now 4) s (\<lambda>s.
       fst (breaker_state (now 5) s) = Closed))))"

definition test_half_open_success_closes :: "(nat \<Rightarrow> instant) \<Rightarrow> bool" where
  "test_half_open_success_closes now =
     unwrapped (breaker_config_new 1 (from_millis 1) 1) (\<lambda>cfg.
       acquire_then_fail cfg (now 0) (now 1) breaker_new (\<lambda>s.
       case breaker_state (now 2) s of (first, s) \<Rightarrow> first = HalfOpen \<and>
       acquire_then_succeed cfg (now 3) s (\<lambda>s.
       fst (breaker_state (now 4) s) = Closed)))"

text \<open>The thread that panics with the lock held took it with \<open>lock().unwrap()\<close>; it leaves the state as it found it
  and the mutex poisoned, and the methods that follow run on that mutex.\<close>

definition test_poisoned_mutex :: "(nat \<Rightarrow> instant) \<Rightarrow> bool" where
  "test_poisoned_mutex now =
     with_breaker (\<lambda>cfg s.
       case critical contents (\<lambda>s. (Panic :: unit outcome, s)) (unpoisoned s) of (joined, m) \<Rightarrow> joined = Panic \<and>
       (case state_locked (now 0) m of (first, m) \<Rightarrow> first = Return Closed \<and>
       (case try_acquire_locked cfg (now 1) m of (r, m) \<Rightarrow> returned r (\<lambda>r. unwrapped r (\<lambda>p.
        case success_locked cfg p m of (u, m) \<Rightarrow> returned u (\<lambda>_.
        fst (state_locked (now 2) m) = Return Closed))))))"

lemmas breaker_tests [unit_test] =
  with_breaker_def acquire_then_fail_def acquire_then_succeed_def test_opens_after_threshold_def
  test_success_resets_def test_half_open_success_closes_def test_poisoned_mutex_def

lemmas breaker_run =
  breaker_config_new_def breaker_new_def try_acquire_def refresh_open_state_def breaker_state_def
  permit_failure_def record_failure_def permit_success_def record_success_def permit_drop_def
  transition_open_def transition_half_open_def transition_closed_def instant_add_def

lemma open_test_conforms:
  assumes "now 4 + 20000000 \<le> instant_max" and "now 5 < now 4 + 20000000" and "now 6 < now 4 + 20000000"
  shows "test_opens_after_threshold now"
  using assms
  by (simp add: breaker_tests breaker_run Let_def dur_is_zero_def as_nanos_small saturating_add_def word_le_nat_alt)

lemma half_open_test_conforms:
  assumes "now 1 + 2000000 \<le> now 2" and "now 2 \<le> instant_max"
  shows "test_half_open_success_closes now"
  using assms
  by (simp add: breaker_tests breaker_run Let_def dur_is_zero_def as_nanos_small saturating_add_def word_le_nat_alt)

lemma closed_tests_conform: "test_success_resets now" "test_poisoned_mutex now"
  by (simp_all add: breaker_tests breaker_run breaker_locked_defs unpoisoned_def Let_def dur_is_zero_def as_nanos_small saturating_add_def word_le_nat_alt)

subsection \<open>src/src/bulkhead.rs\<close>

definition test_rejects_above_capacity :: bool where
  "test_rejects_above_capacity =
     present (nz_new 1) (\<lambda>one.
       case bulkhead_try_acquire (bulkhead_new one) of (first, b) \<Rightarrow> unwrapped first (\<lambda>permit.
       case bulkhead_try_acquire b of (second, b) \<Rightarrow> second = Err BulkheadRejected \<and>
       (case bulkhead_permit_drop permit b of (dropped, b) \<Rightarrow> returned dropped (\<lambda>_.
       unwrapped (fst (bulkhead_try_acquire b)) (\<lambda>_. True)))))"

text \<open>
  What the threads assert while they hold a permit, and the test after it has joined them, in a
  state of 32 threads over a bulkhead of capacity 4. The Loom model explores two threads that
  reserve from a counter with capacity 1.
\<close>

definition test_bulkhead_concurrent_admission :: "threads \<Rightarrow> bool" where
  "test_bulkhead_concurrent_admission s =
     (let b = seen 4 s in
       bulkhead_in_flight b \<le> 4 \<and>
       (list_all ((=) Idle) (pcs s) \<longrightarrow> bulkhead_in_flight b = 0 \<and> bulkhead_available b = 4))"

definition test_loom_reservation :: "threads \<Rightarrow> bool" where
  "test_loom_reservation s =
     (counter s \<le> 1 \<and>
      (\<forall>i < length (pcs s). pcs s ! i = Holding \<longrightarrow> fst (release_slot (counter s)) = Return ()) \<and>
      (list_all ((=) Idle) (pcs s) \<longrightarrow> counter s = 0))"

lemmas bulkhead_tests [unit_test] =
  test_rejects_above_capacity_def test_bulkhead_concurrent_admission_def test_loom_reservation_def

lemma bulkhead_conforms: "test_rejects_above_capacity"
  by (simp add: bulkhead_tests nz_new_def bulkhead_new_def bulkhead_defs reserve_body_def)

lemma all_idle_no_holders: "list_all ((=) Idle) (pcs s) \<Longrightarrow> holders s = 0"
  by (auto simp: holders_def list_all_iff filter_empty_conv)

lemma idle_counter: "bulkhead_reach cap k s \<Longrightarrow> list_all ((=) Idle) (pcs s) \<Longrightarrow> counter s = 0"
  using bulkhead_reach_inv by (auto simp: bulkhead_inv_def all_idle_no_holders word_unat_eq_iff)

lemma bulkhead_concurrency_conforms:
  "bulkhead_reach 4 32 s \<Longrightarrow> test_bulkhead_concurrent_admission s"
  "bulkhead_reach 1 2 s' \<Longrightarrow> test_loom_reservation s'"
proof -
  show "test_bulkhead_concurrent_admission s" if "bulkhead_reach 4 32 s"
    using bulkhead_reach_inv [OF that] idle_counter [OF that]
    by (auto simp: bulkhead_tests seen_def bulkhead_inv_def bulkhead_in_flight_def bulkhead_available_def
        saturating_sub_def Let_def)
  show "test_loom_reservation s'" if "bulkhead_reach 1 2 s'"
    using bulkhead_reach_inv [OF that] idle_counter [OF that] release_never_panics [OF that]
    by (auto simp: bulkhead_tests bulkhead_inv_def)
qed

end
