(* ===== verification/Tests_Routing.thy ===== *)
theory Tests_Routing
  imports Test_Kit Eligibility
begin

section \<open>Unit tests of routing and eligibility\<close>

text \<open>
  The test modules of routing.rs and eligibility.rs. \<open>Arc::ptr_eq\<close> of two immutable tables is their
  equality. The concurrent tests are stated for every order in which the store's lock serves the
  writers and for every point at which a reader takes its snapshot.
\<close>

definition id_of :: "string \<Rightarrow> route_id" where
  "id_of value = the (ok (route_id_new value))"

lemma id_of [simp]: "value \<noteq> [] \<Longrightarrow> id_of value = RouteId value"
  by (simp add: id_of_def route_id_new_def)

definition single_route :: "string \<Rightarrow> u64 \<Rightarrow> route list" where
  "single_route name weight = [route_new (id_of name) weight]"

subsection \<open>src/src/routing.rs: tables\<close>

definition test_rejects_invalid_tables :: bool where
  "test_rejects_invalid_tables =
     (route_table_new 0 [] = Err EmptyRouteTable \<and>
      route_id_new '''' = Err EmptyRouteId \<and>
      route_table_new 0 [route_new (id_of ''a'') 1, route_new (id_of ''a'') 2] = Err DuplicateRouteId \<and>
      route_table_new 0 [route_new (id_of ''a'') 0, route_disabled (route_new (id_of ''b'') 9)] =
        Err NoWeightedEligibleRoute \<and>
      route_table_new 0 [route_new (id_of ''a'') (- 1), route_new (id_of ''b'') 1] = Err WeightOverflow)"

definition test_exact_weight_boundaries :: "(u64 \<Rightarrow> u64) \<Rightarrow> bool" where
  "test_exact_weight_boundaries stray =
     unwrapped (route_table_new 42
       [route_new (id_of ''zero'') 0, route_new (id_of ''a'') 2,
        route_disabled (route_new (id_of ''disabled'') 100), route_new (id_of ''b'') 3]) (\<lambda>table.
     list_all (\<lambda>(draw, expected_id).
         unwrapped_call (table_select_with table (asked 5 draw stray)) (\<lambda>r. as_str (route_ident r) = expected_id))
       (zip [0, 1, 2, 3, 4] [''a'', ''a'', ''b'', ''b'', ''b'']) \<and>
     table_generation table = 42 \<and> table_eligible_weight table = 5)"

text \<open>The source is an \<open>FnOnce\<close>, which is called at most once; that it is called shows in the result.\<close>

definition test_rejects_invalid_source :: bool where
  "test_rejects_invalid_source =
     unwrapped (route_table_new 7 [route_new (id_of ''a'') 1]) (\<lambda>table.
       table_select_with table (\<lambda>_. 1) = Return (Err DrawOutOfRange))"

definition picks :: "route_table \<Rightarrow> (route, route_table_error) result outcome list" where
  "picks table =
     map (\<lambda>sample. table_select_with table (\<lambda>_. word_of_nat sample mod table_eligible_weight table)) [0..<10000]"

definition picks_of_a :: "route_table \<Rightarrow> nat" where
  "picks_of_a table =
     length (filter (\<lambda>m. unwrapped_call m (\<lambda>r. as_str (route_ident r) = ''a'')) (picks table))"

definition test_equal_weights_equal_distribution :: bool where
  "test_equal_weights_equal_distribution =
     unwrapped (route_table_new 1 [route_new (id_of ''a'') 1, route_new (id_of ''b'') 1]) (\<lambda>one_one.
     unwrapped (route_table_new 1 [route_new (id_of ''a'') 50, route_new (id_of ''b'') 50]) (\<lambda>fifty_fifty.
       list_all (\<lambda>m. unwrapped_call m (\<lambda>_. True)) (picks one_one @ picks fifty_fifty) \<and>
       picks_of_a one_one = 10000 div 2 \<and> picks_of_a fifty_fifty = 10000 div 2))"

lemmas table_tests [unit_test] =
  test_rejects_invalid_tables_def test_exact_weight_boundaries_def test_rejects_invalid_source_def
  test_equal_weights_equal_distribution_def

lemmas table_run =
  route_table_new_def route_new_def route_disabled_def route_id_new_def checked_add_def table_select_with_def

lemma table_tests_conform:
  "test_rejects_invalid_tables" "test_exact_weight_boundaries stray" "test_rejects_invalid_source"
  by (simp_all add: table_tests table_run Let_def word_less_nat_alt word_le_nat_alt)

text \<open>Of \<open>2 * k * n\<close> successive samples, reduced modulo \<open>2 * k\<close>, half fall below \<open>k\<close>.\<close>

lemma half_below:
  assumes "0 < k"
  shows "length (filter (\<lambda>s. s mod (2 * k) < k) [0..<n * (2 * k)]) = n * k"
proof (induction n)
  case (Suc n)
  let ?P = "\<lambda>s. s mod (2 * k) < k"
  have "[n * (2 * k)..<Suc n * (2 * k)] = map (\<lambda>i. i + n * (2 * k)) [0..<2 * k]"
    by (simp add: map_add_upt)
  then have "filter ?P [n * (2 * k)..<Suc n * (2 * k)] = map (\<lambda>i. i + n * (2 * k)) (filter (\<lambda>i. i mod (2 * k) < k) [0..<2 * k])"
    by (simp only: filter_map o_def mod_mult_self1)
  moreover have "filter (\<lambda>i. i mod (2 * k) < k) [0..<2 * k] = filter (\<lambda>i. i < k) [0..<2 * k]"
    by (rule filter_cong) auto
  moreover have "length (filter (\<lambda>i. i < k) [0..<2 * k]) = k"
  proof -
    have "[0..<2 * k] = [0..<k] @ [k..<2 * k]" using upt_add_eq_append [of 0 k k] by (simp add: mult_2)
    moreover have "filter (\<lambda>i. i < k) [k..<2 * k] = []" by (simp add: filter_empty_conv)
    ultimately show ?thesis by simp
  qed
  moreover have "[0..<Suc n * (2 * k)] = [0..<n * (2 * k)] @ [n * (2 * k)..<Suc n * (2 * k)]"
    using upt_add_eq_append [of 0 "n * (2 * k)" "2 * k"] by (simp add: add.commute)
  ultimately show ?case using Suc.IH by simp
qed simp

definition even_table :: "u64 \<Rightarrow> route_table" where
  "even_table k = \<lparr>table_generation = 1, table_routes = [route_new (RouteId ''a'') k, route_new (RouteId ''b'') k],
     table_eligible_weight = k + k\<rparr>"

lemma even_table_new:
  assumes "0 < k" and "unat k + unat k < 2 ^ 64"
  shows "route_table_new 1 [route_new (RouteId ''a'') k, route_new (RouteId ''b'') k] = Ok (even_table k)"
proof -
  have "unat (k + k) = unat k + unat k" using assms(2) by (simp add: unat_word_ariths)
  with assms show ?thesis
    by (simp add: route_table_new_Ok table_ok_def even_table_def route_new_def live_def word_unat_eq_iff word_less_nat_alt)
qed

lemma even_table_pick:
  assumes "0 < k" and "unat k + unat k < 2 ^ 64"
  shows "table_select_with (even_table k) (\<lambda>_. word_of_nat s mod table_eligible_weight (even_table k)) =
    Return (Ok (route_new (RouteId (if unat (word_of_nat s :: u64) mod (2 * unat k) < unat k then ''a'' else ''b'')) k))"
proof -
  let ?d = "word_of_nat s mod (k + k) :: u64"
  have kk: "unat (k + k) = 2 * unat k" using assms(2) by (simp add: unat_word_ariths)
  then have kk2: "unat (2 * k) = 2 * unat k" by simp
  have d: "unat ?d = unat (word_of_nat s :: u64) mod (2 * unat k)" by (simp add: unat_mod_distrib kk2)
  have pos: "0 < unat k" using assms(1) by (simp add: word_less_nat_alt)
  then have lt: "unat ?d < 2 * unat k" unfolding d by simp
  have "\<not> k + k \<le> ?d" using lt unfolding word_le_nat_alt kk by linarith
  moreover have "?d < k \<longleftrightarrow> unat ?d < unat k" by (simp add: word_less_nat_alt)
  moreover have "?d - k < k" if "\<not> ?d < k"
    using that lt by (simp add: word_less_nat_alt unat_sub word_le_nat_alt not_less)
  ultimately show ?thesis using assms(1) d
    by (simp add: table_select_with_def even_table_def Let_def route_new_def word_gt_0 split: if_splits)
qed

lemma even_table_picks:
  assumes "0 < k" and "unat k + unat k < 2 ^ 64" and "10000 = n * (2 * unat k)"
  shows "list_all (\<lambda>m. unwrapped_call m (\<lambda>_. True)) (picks (even_table k))"
    and "picks_of_a (even_table k) = n * unat k"
proof -
  note pick = even_table_pick [OF assms(1,2)]
  show "list_all (\<lambda>m. unwrapped_call m (\<lambda>_. True)) (picks (even_table k))"
    unfolding picks_def list_all_iff by (auto simp: pick)
  have small: "unat (word_of_nat s :: u64) = s" if "s \<in> set [0..<10000]" for s
    using that by (simp add: unat_of_nat)
  have "picks_of_a (even_table k) = length (filter (\<lambda>s. s mod (2 * unat k) < unat k) [0..<10000])"
    unfolding picks_of_a_def picks_def filter_map length_map o_def pick
    by (intro arg_cong [where f = length] filter_cong refl) (simp add: small route_new_def)
  also have "\<dots> = n * unat k"
    using half_below [of "unat k" n] assms(1) unfolding assms(3) by (simp add: word_less_nat_alt)
  finally show "picks_of_a (even_table k) = n * unat k" .
qed

lemma distribution_conforms: "test_equal_weights_equal_distribution"
proof -
  have "route_table_new 1 [route_new (id_of ''a'') 1, route_new (id_of ''b'') 1] = Ok (even_table 1)"
    "route_table_new 1 [route_new (id_of ''a'') 50, route_new (id_of ''b'') 50] = Ok (even_table 50)"
    using even_table_new [of 1] even_table_new [of 50] by (simp_all add: word_less_nat_alt)
  then show ?thesis
    using even_table_picks [of 1 5000] even_table_picks [of 50 100]
    by (simp add: test_equal_weights_equal_distribution_def word_less_nat_alt)
qed

subsection \<open>src/src/routing.rs: the store\<close>

definition test_replacement_increments :: bool where
  "test_replacement_increments =
     unwrapped (route_table_new 9 (single_route ''old'' 1)) (\<lambda>table.
       let store = store_new table; old = store_snapshot store
       in case store_replace store (single_route ''new'' 2) of (r, store) \<Rightarrow> unwrapped r (\<lambda>new.
            table_generation old = 9 \<and> as_str (route_ident (table_routes old ! 0)) = ''old'' \<and>
            table_generation new = 10 \<and> as_str (route_ident (table_routes new ! 0)) = ''new'' \<and>
            new = store_snapshot store))"

definition test_invalid_replacement :: bool where
  "test_invalid_replacement =
     unwrapped (route_table_new 3 (single_route ''stable'' 1)) (\<lambda>table.
       let store = store_new table; before = store_snapshot store
       in case store_replace store [] of (r, store) \<Rightarrow>
            r = Err EmptyRouteTable \<and> before = store_snapshot store \<and>
            table_generation (store_snapshot store) = 3)"

definition test_generation_exhaustion :: bool where
  "test_generation_exhaustion =
     unwrapped (route_table_new (- 1) (single_route ''last'' 1)) (\<lambda>table.
       let store = store_new table; before = store_snapshot store
       in case store_replace store (single_route ''never'' 1) of (r, store) \<Rightarrow>
            r = Err GenerationExhausted \<and> before = store_snapshot store)"

text \<open>A sequence of replacements that are all unwrapped.\<close>

fun replace_all :: "route_table_store \<Rightarrow> route list list \<Rightarrow> (route_table_store \<Rightarrow> bool) \<Rightarrow> bool" where
  "replace_all store [] rest = rest store"
| "replace_all store (rs # rss) rest =
     (case store_replace store rs of (r, store') \<Rightarrow> unwrapped r (\<lambda>_. replace_all store' rss rest))"

text \<open>\<open>format!("writer-{writer}-{replacement}")\<close>, and the writers in the order the lock serves them.\<close>

fun decimal :: "nat \<Rightarrow> string" where
  "decimal n = (if n < 10 then [char_of (48 + n)] else decimal (n div 10) @ [char_of (48 + n mod 10)])"

definition writer_routes :: "nat \<times> nat \<Rightarrow> route list" where
  "writer_routes p = (case p of (writer, replacement) \<Rightarrow>
     single_route (''writer-'' @ decimal writer @ ''-'' @ decimal replacement) 1)"

definition test_concurrent_writers :: "(nat \<times> nat) list \<Rightarrow> bool" where
  "test_concurrent_writers order =
     unwrapped (route_table_new 0 (single_route ''initial'' 1)) (\<lambda>table.
       replace_all (store_new table) (map writer_routes order) (\<lambda>store.
         table_generation (store_snapshot store) = 4 * 50))"

text \<open>What a reader sees that takes its snapshot after \<open>k\<close> of the replacements, and the final assertion.\<close>

definition pair_routes :: "u64 \<Rightarrow> route list" where
  "pair_routes weight = [route_new (id_of ''left'') weight, route_new (id_of ''right'') weight]"

definition test_concurrent_readers :: "nat \<Rightarrow> bool" where
  "test_concurrent_readers k =
     unwrapped (route_table_new 0 (pair_routes 1)) (\<lambda>initial.
       let replacements = map (\<lambda>replacement. pair_routes (word_of_nat replacement + 1)) [1..<201] in
       replace_all (store_new initial) (take k replacements) (\<lambda>store.
         let table = store_snapshot store; routes = table_routes table; expected = table_generation table + 1
         in length routes = 2 \<and> route_weight (routes ! 0) = expected \<and> route_weight (routes ! 1) = expected) \<and>
       replace_all (store_new initial) replacements (\<lambda>store. table_generation (store_snapshot store) = 200))"

lemmas store_tests [unit_test] =
  test_replacement_increments_def test_invalid_replacement_def test_generation_exhaustion_def
  test_concurrent_writers_def test_concurrent_readers_def

lemma store_tests_conform:
  "test_replacement_increments" "test_invalid_replacement" "test_generation_exhaustion"
  by (simp_all add: store_tests table_run single_route_def store_new_def store_snapshot_def store_replace_def Let_def)

lemma replace_all_valid:
  assumes "list_all routes_valid rss" and "unat (table_generation (store_current store)) + length rss < 2 ^ 64"
    and "table_generation (store_current store) = g"
  shows "\<exists>w. replace_all store rss rest = rest (store_new
    (if rss = [] then store_current store
     else \<lparr>table_generation = g + word_of_nat (length rss), table_routes = last rss, table_eligible_weight = w\<rparr>))"
  using assms
proof (induction rss arbitrary: store g)
  case Nil
  then show ?case by (cases store) (simp add: store_new_def)
next
  case (Cons rs rss)
  let ?g = "g + 1"
  have g: "checked_add (table_generation (store_current store)) 1 = Some ?g"
    using Cons.prems(2,3) by (simp add: checked_add_def)
  obtain t where t: "route_table_new ?g rs = Ok t" using Cons.prems(1) routes_valid_iff [of ?g rs] by auto
  then have fields: "table_generation t = ?g" "table_routes t = rs" by (simp_all add: route_table_new_Ok)
  have un: "unat ?g = unat g + 1" using g Cons.prems(3) by (simp add: wsat)
  have step: "store_replace store rs = (Ok t, store_new t)"
    by (simp add: store_replace_def g t store_new_def)
  have "\<exists>w. replace_all (store_new t) rss rest = rest (store_new
    (if rss = [] then store_current (store_new t)
     else \<lparr>table_generation = ?g + word_of_nat (length rss), table_routes = last rss, table_eligible_weight = w\<rparr>))"
    using Cons.prems un by (intro Cons.IH) (simp_all add: store_new_def fields)
  then show ?case
  proof (cases "rss = []")
    case True
    have "t = \<lparr>table_generation = ?g, table_routes = rs, table_eligible_weight = table_eligible_weight t\<rparr>"
      using fields by simp
    then show ?thesis using True step by (auto simp: add.commute) metis
  next
    case False
    with \<open>\<exists>w. replace_all (store_new t) rss rest = _ w\<close> step show ?thesis by (simp add: ac_simps)
  qed
qed

lemma single_route_valid: "name \<noteq> [] \<Longrightarrow> routes_valid (single_route name 1)"
  by (simp add: routes_valid_def single_route_def route_new_def live_def)

lemma pair_routes_valid: "0 < unat w \<Longrightarrow> 2 * unat w < 2 ^ 64 \<Longrightarrow> routes_valid (pair_routes w)"
  by (simp add: routes_valid_def pair_routes_def route_new_def live_def word_less_nat_alt)

lemma pair_routes_fields:
  "length (pair_routes w) = 2" "route_weight (pair_routes w ! 0) = w" "route_weight (pair_routes w ! Suc 0) = w"
  by (simp_all add: pair_routes_def route_new_def)

lemma writers_conform:
  assumes "length order = 4 * 50"
  shows "test_concurrent_writers order"
proof -
  obtain t where t: "route_table_new 0 (single_route ''initial'' 1) = Ok t"
    using routes_valid_iff [of 0] single_route_valid [of "''initial''"] by auto
  then have "table_generation t = 0" by (simp add: route_table_new_Ok)
  moreover have "list_all routes_valid (map writer_routes order)"
    by (auto simp: list_all_iff writer_routes_def intro!: single_route_valid)
  ultimately show ?thesis
    using replace_all_valid [of "map writer_routes order" "store_new t" 0
        "\<lambda>store. table_generation (store_snapshot store) = 4 * 50"] assms
    by (auto simp: test_concurrent_writers_def t store_new_def store_snapshot_def split: if_splits)
qed

lemma readers_conform:
  assumes "k \<le> 200"
  shows "test_concurrent_readers k"
proof -
  let ?rs = "map (\<lambda>replacement. pair_routes (word_of_nat replacement + 1)) [1..<201] :: route list list"
  have un: "unat (word_of_nat n + 1 :: u64) = n + 1" if "n \<le> 200" for n
    using that by (simp add: unat_word_ariths unat_of_nat)
  obtain t where t: "route_table_new 0 (pair_routes 1) = Ok t"
    using routes_valid_iff [of 0] pair_routes_valid [of 1] by auto
  then have t0: "table_generation t = 0" "table_routes t = pair_routes 1" by (simp_all add: route_table_new_Ok)
  have valid: "list_all routes_valid ?rs"
    unfolding list_all_iff by (auto simp: un intro!: pair_routes_valid)
  then have "list_all routes_valid (take k ?rs)"
    unfolding list_all_iff using set_take_subset [of k ?rs] by blast
  note all = replace_all_valid [OF valid, of "store_new t" 0]
    and some = replace_all_valid [OF this, of "store_new t" 0]
  have "[Suc 0..<201] ! (k - Suc 0) = k" if "k \<noteq> 0"
    using that assms by (subst nth_upt) simp_all
  then have lst: "last (take k ?rs) = pair_routes (word_of_nat k + 1)" if "k \<noteq> 0"
    using that assms by (subst last_conv_nth) (simp_all add: min_def)
  have k: "length (take k ?rs) = k" using assms by simp
  have "\<exists>u. table_generation u = word_of_nat k \<and> table_routes u = pair_routes (word_of_nat k + 1) \<and>
      replace_all (store_new t) (take k ?rs) rest = rest (store_new u)" for rest
  proof (cases "k = 0")
    case True
    with t0 show ?thesis by auto
  next
    case False
    then have "take k ?rs \<noteq> []" using k by auto
    then obtain w where "replace_all (store_new t) (take k ?rs) rest = rest (store_new
        \<lparr>table_generation = word_of_nat k, table_routes = pair_routes (word_of_nat k + 1), table_eligible_weight = w\<rparr>)"
      using some [of rest] t0(1) assms unfolding k lst [OF False] by (auto simp: store_new_def)
    then show ?thesis by (intro exI [of _ "\<lparr>table_generation = word_of_nat k,
        table_routes = pair_routes (word_of_nat k + 1), table_eligible_weight = w\<rparr>"]) simp
  qed
  from this [of "\<lambda>store.
         let table = store_snapshot store; routes = table_routes table; expected = table_generation table + 1
         in length routes = 2 \<and> route_weight (routes ! 0) = expected \<and> route_weight (routes ! 1) = expected"]
  show ?thesis
    using all [of "\<lambda>store. table_generation (store_snapshot store) = 200"] t0(1)
    by (auto simp: test_concurrent_readers_def t store_new_def store_snapshot_def pair_routes_fields Let_def)
qed

subsection \<open>src/src/eligibility.rs\<close>

definition with_eligibility_table :: "u64 \<Rightarrow> (route_table \<Rightarrow> bool) \<Rightarrow> bool" where
  "with_eligibility_table g rest =
     unwrapped (route_table_new g
       [route_new (id_of ''healthy-a'') 2, route_new (id_of ''unhealthy'') 100,
        route_new (id_of ''healthy-b'') 3, route_disabled (route_new (id_of ''disabled'') 100),
        route_new (id_of ''zero'') 0]) rest"

definition starts_with :: "string \<Rightarrow> string \<Rightarrow> bool" where
  "starts_with pattern s \<longleftrightarrow> take (length pattern) s = pattern"

definition test_predicate_evaluated_once :: bool where
  "test_predicate_evaluated_once =
     with_eligibility_table 7 (\<lambda>table.
       case eligibility_from_predicate
           (\<lambda>visited r. (starts_with ''healthy'' (as_str (route_ident r)), visited @ [as_str (route_ident r)])) table [] of
         (e, visited) \<Rightarrow>
           visited = [''healthy-a'', ''unhealthy'', ''healthy-b''] \<and>
           elig_contains e (id_of ''healthy-a'') \<and> elig_contains e (id_of ''healthy-b'') \<and>
           \<not> elig_contains e (id_of ''unhealthy'') \<and> \<not> elig_contains e (id_of ''disabled'') \<and>
           \<not> elig_contains e (id_of ''zero''))"

text \<open>A predicate that looks only at the identifier.\<close>

definition eligible_where :: "(string \<Rightarrow> bool) \<Rightarrow> route_table \<Rightarrow> route_eligibility" where
  "eligible_where P t = fst (eligibility_from_predicate (\<lambda>s r. (P (as_str (route_ident r)), s)) t ())"

definition test_weighting_after_filtering :: "(u64 \<Rightarrow> u64) \<Rightarrow> bool" where
  "test_weighting_after_filtering stray =
     with_eligibility_table 7 (\<lambda>table.
       let e = eligible_where (\<lambda>s. s \<noteq> ''unhealthy'') table in
       unwrapped_call (eligibility_select_with e table (asked 5 0 stray)) (\<lambda>o1. present o1 (\<lambda>first.
       unwrapped_call (eligibility_select_with e table (\<lambda>_. 4)) (\<lambda>o2. present o2 (\<lambda>last.
         as_str (route_ident first) = ''healthy-a'' \<and> as_str (route_ident last) = ''healthy-b'')))))"

definition test_empty_policy_result :: "(u64 \<Rightarrow> u64) \<Rightarrow> bool" where
  "test_empty_policy_result stray =
     with_eligibility_table 7 (\<lambda>table.
       let e = eligible_where (\<lambda>s. False) table in
       elig_is_empty e \<and> unwrapped_call (eligibility_select_with e table stray) (\<lambda>r. r = None))"

definition test_no_cross_generation :: bool where
  "test_no_cross_generation =
     with_eligibility_table 7 (\<lambda>old. with_eligibility_table 8 (\<lambda>new.
       eligibility_select_with (eligibility_all old) new (\<lambda>_. 0) = Return (Err EligGenerationMismatch)))"

lemmas eligibility_tests [unit_test] =
  with_eligibility_table_def test_predicate_evaluated_once_def test_weighting_after_filtering_def
  test_empty_policy_result_def test_no_cross_generation_def

lemma eligible_where_fields:
  "elig_generation (eligible_where P t) = table_generation t"
  "elig_ids (eligible_where P t) = route_ident ` set (filter (\<lambda>r. live r \<and> P (as_str (route_ident r))) (table_routes t))"
  unfolding eligible_where_def from_predicate_fields eligible_ids_pure [of "\<lambda>r. P (as_str (route_ident r))"]
  by simp_all

text \<open>The selection once it is known which routes are left to choose from.\<close>

definition choose_from :: "route list \<Rightarrow> (u64 \<Rightarrow> u64) \<Rightarrow> (route option, eligibility_error) result outcome" where
  "choose_from rs draw =
     (case fold_weights rs 0 of
        None \<Rightarrow> Panic
      | Some weight \<Rightarrow>
          if weight = 0 then Return (Ok None)
          else let selected = draw weight in
            if selected \<ge> weight then Return (Err EligDrawOutOfRange)
            else case cursor_loop rs selected of
              Return r \<Rightarrow> Return (Ok (Some r))
            | Panic \<Rightarrow> Panic)"

lemma select_weighted_choose:
  assumes "elig_generation e = table_generation t" and "selectable t e ex = rs"
  shows "select_weighted_with t e ex draw = choose_from rs draw"
  by (simp add: select_weighted_with_def choose_from_def assms(1) flip: assms(2))

lemmas choose_run = choose_from_def checked_add_def route_new_def route_disabled_def word_le_nat_alt word_less_nat_alt

definition health_table :: "u64 \<Rightarrow> route_table" where
  "health_table g = \<lparr>table_generation = g, table_routes =
     [route_new (RouteId ''healthy-a'') 2, route_new (RouteId ''unhealthy'') 100, route_new (RouteId ''healthy-b'') 3,
      route_disabled (route_new (RouteId ''disabled'') 100), route_new (RouteId ''zero'') 0],
     table_eligible_weight = 105\<rparr>"

lemma eligibility_table: "with_eligibility_table g rest = rest (health_table g)"
  by (simp add: with_eligibility_table_def health_table_def table_run)

lemma predicate_test_conforms: "test_predicate_evaluated_once"
  by (simp add: test_predicate_evaluated_once_def eligibility_table health_table_def eligibility_from_predicate_def
      starts_with_def elig_contains_def route_new_def route_disabled_def)

lemma empty_policy_conforms: "test_empty_policy_result stray"
  by (simp add: test_empty_policy_result_def eligibility_table health_table_def elig_is_empty_def eligible_where_fields
      eligibility_select_with_def select_weighted_with_def selectable_def elig_contains_def)

lemma cross_generation_conforms: "test_no_cross_generation"
  by (simp add: test_no_cross_generation_def eligibility_table health_table_def eligibility_select_with_def select_weighted_with_def)

lemma weighting_test_conforms: "test_weighting_after_filtering stray"
proof -
  let ?e = "eligible_where (\<lambda>s. s \<noteq> ''unhealthy'') (health_table 7)"
  have ids: "elig_ids ?e = {RouteId ''healthy-a'', RouteId ''healthy-b''}"
    by (simp add: eligible_where_fields health_table_def route_new_def route_disabled_def live_def)
  have "selectable (health_table 7) ?e (\<lambda>r. False) =
      [route_new (RouteId ''healthy-a'') 2, route_new (RouteId ''healthy-b'') 3]"
    unfolding selectable_def elig_contains_def ids by (simp add: health_table_def route_new_def route_disabled_def)
  from select_weighted_choose [OF eligible_where_fields(1) this]
  show ?thesis
    by (simp add: test_weighting_after_filtering_def eligibility_table eligibility_select_with_def choose_run Let_def)
qed

end
