(* ===== verification/Tests_Failover.thy ===== *)
theory Tests_Failover
  imports Tests_Routing Failover
begin

section \<open>Unit tests of route failover\<close>

text \<open>
  The test module of failover.rs. \<open>fastrand\<close> is the source behind \<open>classify\<close> and \<open>new\<close>; where a test
  passes for every source, it does not depend on what is drawn.
\<close>

definition with_failover_table :: "(route_table \<Rightarrow> bool) \<Rightarrow> bool" where
  "with_failover_table rest =
     unwrapped (route_table_new 17
       [route_new (id_of ''a'') 1, route_new (id_of ''b'') 2, route_new (id_of ''c'') 3,
        route_new (id_of ''zero'') 0, route_disabled (route_new (id_of ''disabled'') 100)]) rest"

definition with_attempts :: "usize \<Rightarrow> (route_attempt_budget \<Rightarrow> bool) \<Rightarrow> bool" where
  "with_attempts n rest = present (nz_new n) (\<lambda>k. rest (attempt_budget_new k))"

text \<open>\<open>RouteFailover::new_with(table(), budget(n), |_| 0).unwrap()\<close>.\<close>

definition with_failover :: "usize \<Rightarrow> (route_failover \<Rightarrow> bool) \<Rightarrow> bool" where
  "with_failover n rest =
     with_failover_table (\<lambda>t. with_attempts n (\<lambda>b. unwrapped_call (failover_new_with t b (\<lambda>_. 0)) rest))"

text \<open>\<open>let RouteDecision::Failover(next) = failover.classify_with(RouteOutcome::Failover, draw).unwrap() else ...\<close>.\<close>

definition fails_over_to ::
    "(u64 \<Rightarrow> u64) \<Rightarrow> route_failover \<Rightarrow> (route_attempt \<Rightarrow> route_failover \<Rightarrow> bool) \<Rightarrow> bool" where
  "fails_over_to draw f rest =
     (case classify_with FailoverOutcome draw f of
       (Return (Ok (FailoverTo a)), f') \<Rightarrow> rest a f'
     | _ \<Rightarrow> False)"

abbreviation route_name :: "route_attempt \<Rightarrow> string" where
  "route_name a \<equiv> as_str (attempt_route a)"

definition test_retry_same_route :: "(u64 \<Rightarrow> u64) \<Rightarrow> bool" where
  "test_retry_same_route fastrand =
     with_failover 2 (\<lambda>failover. route_name (current_attempt failover) = ''a'' \<and>
       (case for_each (\<lambda>_ f. case classify fastrand RetrySameRoute f of (d, f') \<Rightarrow> (d = Return RetryCurrent, f'))
           [0..<10] failover of
         (all_retried, failover) \<Rightarrow>
           all_retried \<and> attempted_routes failover = 1 \<and> ordinal (current_attempt failover) = 0))"

definition test_failover_bounded :: "(u64 \<Rightarrow> u64) \<Rightarrow> bool" where
  "test_failover_bounded fastrand =
     with_failover 3 (\<lambda>failover.
       fails_over_to (\<lambda>_. 0) failover (\<lambda>first failover. route_name first = ''b'' \<and> ordinal first = 1 \<and>
       fails_over_to (\<lambda>_. 0) failover (\<lambda>second failover. route_name second = ''c'' \<and> ordinal second = 2 \<and>
         attempt_generation second = 17 \<and>
         fst (classify fastrand FailoverOutcome failover) = Return (StopFor RouteAttemptBudgetExhausted))))"

definition test_remaining_weights :: "(u64 \<Rightarrow> u64) \<Rightarrow> bool" where
  "test_remaining_weights stray =
     with_failover 3 (\<lambda>failover.
       fails_over_to (asked 5 4 stray) failover (\<lambda>next_route failover. route_name next_route = ''c'' \<and>
       fails_over_to (asked 2 1 stray) failover (\<lambda>final_route failover. route_name final_route = ''b'')))"

definition test_shared_eligibility :: "(u64 \<Rightarrow> u64) \<Rightarrow> (u64 \<Rightarrow> u64) \<Rightarrow> bool" where
  "test_shared_eligibility stray fastrand =
     with_failover_table (\<lambda>t. with_attempts 3 (\<lambda>b.
       let e = eligible_where (\<lambda>s. s \<noteq> ''b'') t in
       unwrapped (from_primary_eligibility t e b (id_of ''a'')) (\<lambda>failover.
       fails_over_to (asked 3 0 stray) failover (\<lambda>next_route failover. route_name next_route = ''c'' \<and>
         fst (classify fastrand FailoverOutcome failover) = Return (StopFor NoRemainingEligibleRoute)))))"

definition test_rejects_foreign_eligibility :: bool where
  "test_rejects_foreign_eligibility =
     with_failover_table (\<lambda>t. with_attempts 2 (\<lambda>b.
       unwrapped (route_table_new 18 (table_routes t)) (\<lambda>other.
       from_primary_eligibility t (eligibility_all other) b (id_of ''a'') = Err RouteFailoverError \<and>
       from_primary_eligibility t (eligible_where (\<lambda>s. s \<noteq> ''a'') t) b (id_of ''a'') = Err RouteFailoverError)))"

definition test_no_remaining_route :: "(u64 \<Rightarrow> u64) \<Rightarrow> bool" where
  "test_no_remaining_route fastrand =
     unwrapped (route_table_new 9 [route_new (id_of ''only'') 1]) (\<lambda>t. with_attempts 2 (\<lambda>b.
       returned (failover_new fastrand t b) (\<lambda>failover.
         fst (classify fastrand FailoverOutcome failover) = Return (StopFor NoRemainingEligibleRoute))))"

definition test_terminal_and_success :: "(u64 \<Rightarrow> u64) \<Rightarrow> bool" where
  "test_terminal_and_success fastrand =
     with_failover 3 (\<lambda>failover.
       case classify fastrand StopOutcome failover of (first, failover) \<Rightarrow>
       first = Return (StopFor CallerTerminal) \<and>
       (case classify fastrand Succeeded failover of (second, failover) \<Rightarrow>
         second = Return Complete \<and> attempted_routes failover = 1))"

text \<open>The source is an \<open>FnOnce\<close>, which is called at most once; that it is called shows in the error.\<close>

definition test_invalid_draw_keeps_state :: bool where
  "test_invalid_draw_keeps_state =
     with_failover 3 (\<lambda>failover.
       let before = current_attempt failover in
       case classify_with FailoverOutcome (\<lambda>n. n) failover of (r, failover) \<Rightarrow>
         r = Return (Err RouteFailoverError) \<and> current_attempt failover = before \<and>
         attempted_routes failover = 1)"

lemmas failover_tests [unit_test] =
  with_failover_table_def with_attempts_def with_failover_def fails_over_to_def test_retry_same_route_def
  test_failover_bounded_def test_remaining_weights_def test_shared_eligibility_def
  test_rejects_foreign_eligibility_def test_no_remaining_route_def test_terminal_and_success_def
  test_invalid_draw_keeps_state_def

subsection \<open>They pass\<close>

definition failover_table :: route_table where
  "failover_table = \<lparr>table_generation = 17, table_routes =
     [route_new (RouteId ''a'') 1, route_new (RouteId ''b'') 2, route_new (RouteId ''c'') 3,
      route_new (RouteId ''zero'') 0, route_disabled (route_new (RouteId ''disabled'') 100)],
     table_eligible_weight = 6\<rparr>"

lemma failover_table: "with_failover_table rest = rest failover_table"
  by (simp add: with_failover_table_def failover_table_def table_run)

lemma failover_table_generation [simp]: "table_generation failover_table = 17"
  by (simp add: failover_table_def)

lemma eligible_where_eq:
  "eligible_where P t = \<lparr>elig_generation = table_generation t,
     elig_ids = route_ident ` set (filter (\<lambda>r. live r \<and> P (as_str (route_ident r))) (table_routes t))\<rparr>"
  using eligible_where_fields [of P t] by (cases "eligible_where P t") simp

lemma eligibility_all_eq:
  "eligibility_all t = \<lparr>elig_generation = table_generation t, elig_ids = route_ident ` set (filter live (table_routes t))\<rparr>"
  using eligibility_all_fields [of t] by (cases "eligibility_all t") (simp del: eligibility_all_fields)

lemma failover_table_eligible:
  "eligibility_all failover_table =
     \<lparr>elig_generation = 17, elig_ids = {RouteId ''a'', RouteId ''b'', RouteId ''c''}\<rparr>"
  "eligible_where (\<lambda>s. s \<noteq> ''b'') failover_table =
     \<lparr>elig_generation = 17, elig_ids = {RouteId ''a'', RouteId ''c''}\<rparr>"
  "eligible_where (\<lambda>s. s \<noteq> ''a'') failover_table =
     \<lparr>elig_generation = 17, elig_ids = {RouteId ''b'', RouteId ''c''}\<rparr>"
  by (simp_all add: eligibility_all_eq eligible_where_eq failover_table_def route_new_def route_disabled_def live_def)

text \<open>The routes left to a policy on this table, and one failover on it.\<close>

lemma failover_table_left:
  "selectable failover_table \<lparr>elig_generation = g, elig_ids = ids\<rparr> (\<lambda>r. route_ident r \<in> seen) =
     filter (\<lambda>r. route_ident r \<in> ids - seen)
       [route_new (RouteId ''a'') 1, route_new (RouteId ''b'') 2, route_new (RouteId ''c'') 3,
        route_new (RouteId ''zero'') 0, route_disabled (route_new (RouteId ''disabled'') 100)]"
  by (simp add: selectable_def elig_contains_def failover_table_def)

lemma failover_table_remaining:
  "select_remaining failover_table \<lparr>elig_generation = 17, elig_ids = ids\<rparr> seen draw =
     (case choose_from (filter (\<lambda>r. route_ident r \<in> ids - seen)
         [route_new (RouteId ''a'') 1, route_new (RouteId ''b'') 2, route_new (RouteId ''c'') 3,
          route_new (RouteId ''zero'') 0, route_disabled (route_new (RouteId ''disabled'') 100)]) draw of
       Return r \<Rightarrow> Return (map_err (\<lambda>_. RouteFailoverError) r) | Panic \<Rightarrow> Panic)"
  by (simp only: select_remaining_def)
    (subst select_weighted_choose [OF _ failover_table_left], simp_all)

lemmas failover_run =
  nz_new_def attempt_budget_new_def budget_max_routes_def from_primary_def attempted_routes_def
  classify_with_def classify_def failover_table_remaining Let_def

lemma with_failover_run:
  assumes "n \<noteq> 0"
  shows "with_failover n rest = rest
    \<lparr>snapshot = failover_table, eligibility = \<lparr>elig_generation = 17, elig_ids = {RouteId ''a'', RouteId ''b'', RouteId ''c''}\<rparr>,
     route_budget = \<lparr>max_routes = nz_of n\<rparr>, attempted = {RouteId ''a''},
     current_attempt = \<lparr>attempt_generation = 17, ordinal = 0, attempt_route = RouteId ''a''\<rparr>\<rparr>"
  using assms
  by (simp add: with_failover_def failover_table with_attempts_def failover_new_with_def failover_table_eligible
      failover_run choose_run)

lemma retry_same_route_conforms: "test_retry_same_route fastrand"
proof -
  have again: "classify fastrand RetrySameRoute f = (Return RetryCurrent, f)" for f
    by (simp add: classify_def classify_with_def)
  have "for_each (\<lambda>_ f. case classify fastrand RetrySameRoute f of (d, f') \<Rightarrow> (d = Return RetryCurrent, f')) xs f =
      (True, f)" for xs :: "nat list" and f
    by (induction xs) (simp_all add: again)
  then show ?thesis
    unfolding test_retry_same_route_def by (subst with_failover_run) (simp_all add: attempted_routes_def)
qed

lemma failover_bounded_conforms: "test_failover_bounded fastrand"
  by (simp add: test_failover_bounded_def with_failover_run fails_over_to_def failover_run choose_run)

lemma remaining_weights_conforms: "test_remaining_weights stray"
  by (simp add: test_remaining_weights_def with_failover_run fails_over_to_def failover_run choose_run)

lemma shared_eligibility_conforms: "test_shared_eligibility stray fastrand"
  by (simp add: test_shared_eligibility_def failover_table with_attempts_def from_primary_eligibility_def
      failover_table_eligible elig_contains_def fails_over_to_def failover_run choose_run)

lemma foreign_eligibility_conforms: "test_rejects_foreign_eligibility"
  by (simp add: test_rejects_foreign_eligibility_def failover_table with_attempts_def nz_new_def
      from_primary_eligibility_def failover_table_eligible elig_contains_def eligibility_all_eq)
    (simp add: failover_table_def table_run)

lemma terminal_and_success_conforms: "test_terminal_and_success fastrand"
  by (simp add: test_terminal_and_success_def with_failover_run classify_def classify_with_def attempted_routes_def)

lemma invalid_draw_conforms: "test_invalid_draw_keeps_state"
  by (simp add: test_invalid_draw_keeps_state_def with_failover_run failover_run choose_run)

lemma no_remaining_conforms:
  assumes "in_range fastrand"
  shows "test_no_remaining_route fastrand"
proof -
  let ?t = "\<lparr>table_generation = 9, table_routes = [route_new (RouteId ''only'') 1], table_eligible_weight = 1\<rparr>"
  have new: "route_table_new 9 [route_new (id_of ''only'') 1] = Ok ?t" by (simp add: table_run)
  have "fastrand 1 < 1" using assms unfolding in_range_def by (metis one_neq_zero)
  then have pick: "table_select fastrand ?t = Return (route_new (RouteId ''only'') 1)"
    by (simp add: table_select_def table_select_with_def route_new_def Let_def word_less_nat_alt word_le_nat_alt)
  have "selectable ?t (eligibility_all ?t) (\<lambda>r. route_ident r \<in> {RouteId ''only''}) = []"
    by (simp add: selectable_def route_new_def)
  from select_weighted_choose [OF _ this]
  have "select_remaining ?t (eligibility_all ?t) {RouteId ''only''} draw = Return (Ok None)" for draw
    by (simp add: select_remaining_def choose_from_def)
  with new pick show ?thesis
    by (simp add: test_no_remaining_route_def with_attempts_def nz_new_def failover_new_def from_primary_def
        classify_def classify_with_def attempted_routes_def attempt_budget_new_def budget_max_routes_def
        route_new_def)
qed

end
