(* ===== verification/Tests_Shadow.thy ===== *)
theory Tests_Shadow
  imports Tests_Routing Shadow_Execution
begin

section \<open>Unit tests of shadow planning, outcomes and execution\<close>

text \<open>
  The test modules of shadow.rs, shadow_outcome.rs and shadow_policy.rs. \<open>stray\<close> and \<open>stray32\<close> are
  what closures would answer that the tests declare unreachable.
\<close>

subsection \<open>src/src/shadow.rs\<close>

definition with_shadow_table :: "(route_table \<Rightarrow> bool) \<Rightarrow> bool" where
  "with_shadow_table rest =
     unwrapped (route_table_new 17
       [route_new (id_of ''primary-a'') 2, route_new (id_of ''shadow-b'') 3, route_new (id_of ''shadow-c'') 5,
        route_disabled (route_new (id_of ''disabled'') 100)]) rest"

definition test_sampling_bounds :: bool where
  "test_sampling_bounds =
     (parts_per_million sampling_disabled = 0 \<and>
      parts_per_million sampling_always = shadow_parts_per_million \<and>
      sampling_new (shadow_parts_per_million + 1) = Err PartsPerMillionOutOfRange)"

text \<open>That no draw is consumed is the independence of the source.\<close>

definition test_extremes_do_not_draw :: "(u32 \<Rightarrow> u32) \<Rightarrow> bool" where
  "test_extremes_do_not_draw stray32 =
     (unwrapped (sample_with sampling_disabled stray32) (\<lambda>b. \<not> b) \<and>
      unwrapped (sample_with sampling_always stray32) (\<lambda>b. b))"

definition test_intermediate_boundary :: bool where
  "test_intermediate_boundary =
     unwrapped (sampling_new 250000) (\<lambda>sampling.
       unwrapped (sample_with sampling (\<lambda>_. 249999)) (\<lambda>b. b) \<and>
       unwrapped (sample_with sampling (\<lambda>_. 250000)) (\<lambda>b. \<not> b) \<and>
       sample_with sampling (\<lambda>_. shadow_parts_per_million) = Err SamplingDrawOutOfRange)"

definition test_plan_distinct_shadow :: "(u32 \<Rightarrow> u32) \<Rightarrow> (u64 \<Rightarrow> u64) \<Rightarrow> bool" where
  "test_plan_distinct_shadow stray32 stray =
     with_shadow_table (\<lambda>t.
       unwrapped_call (plan_with t sampling_always (\<lambda>_. 0) stray32 (asked 8 0 stray)) (\<lambda>pl.
         plan_generation pl = 17 \<and> as_str (plan_primary pl) = ''primary-a'' \<and>
         present (plan_shadow pl) (\<lambda>s. as_str s = ''shadow-b'' \<and> plan_primary pl \<noteq> s) \<and>
         plan_shadow_sampled pl))"

definition test_plan_shared_eligibility :: "(u32 \<Rightarrow> u32) \<Rightarrow> (u64 \<Rightarrow> u64) \<Rightarrow> bool" where
  "test_plan_shared_eligibility stray32 stray =
     with_shadow_table (\<lambda>t.
       let e = eligible_where (\<lambda>s. s \<noteq> ''shadow-b'') t in
       unwrapped_call (plan_eligible_with t e sampling_always (asked 7 0 stray) stray32 (asked 5 0 stray)) (\<lambda>pl.
         as_str (plan_primary pl) = ''primary-a'' \<and>
         present (plan_shadow pl) (\<lambda>s. as_str s = ''shadow-c'')))"

definition test_plan_rejects_foreign_and_empty :: "(u32 \<Rightarrow> u32) \<Rightarrow> (u64 \<Rightarrow> u64) \<Rightarrow> bool" where
  "test_plan_rejects_foreign_and_empty stray32 stray =
     with_shadow_table (\<lambda>t. unwrapped (route_table_new 18 (table_routes t)) (\<lambda>other.
       plan_eligible_with t (eligibility_all other) sampling_disabled (\<lambda>_. 0) stray32 stray =
         Return (Err (PlanEligibility EligGenerationMismatch)) \<and>
       plan_eligible_with t (eligible_where (\<lambda>s. False) t) sampling_disabled stray stray32 stray =
         Return (Err NoEligiblePrimary)))"

definition test_unsampled_plan :: "(u32 \<Rightarrow> u32) \<Rightarrow> (u64 \<Rightarrow> u64) \<Rightarrow> bool" where
  "test_unsampled_plan stray32 stray =
     with_shadow_table (\<lambda>t.
       unwrapped_call (plan_with t sampling_disabled (\<lambda>_. 0) stray32 stray) (\<lambda>pl.
         as_str (plan_primary pl) = ''primary-a'' \<and> \<not> plan_shadow_sampled pl \<and> plan_shadow pl = None))"

definition test_no_distinct_route :: "(u32 \<Rightarrow> u32) \<Rightarrow> (u64 \<Rightarrow> u64) \<Rightarrow> bool" where
  "test_no_distinct_route stray32 stray =
     unwrapped (route_table_new 9 [route_new (id_of ''only'') 1]) (\<lambda>single.
       unwrapped_call (plan_with single sampling_always (\<lambda>_. 0) stray32 stray) (\<lambda>pl.
         as_str (plan_primary pl) = ''only'' \<and> plan_shadow_sampled pl \<and> plan_shadow pl = None))"

definition test_invalid_shadow_draw :: "(u32 \<Rightarrow> u32) \<Rightarrow> bool" where
  "test_invalid_shadow_draw stray32 =
     with_shadow_table (\<lambda>t.
       unwrapped_call (plan_with t sampling_always (\<lambda>_. 0) stray32 (\<lambda>n. n)) (\<lambda>pl.
         as_str (plan_primary pl) = ''primary-a'' \<and> plan_shadow_sampled pl \<and> plan_shadow pl = None))"

definition test_invalid_sampling_draw :: "(u64 \<Rightarrow> u64) \<Rightarrow> bool" where
  "test_invalid_sampling_draw stray =
     with_shadow_table (\<lambda>t. unwrapped (sampling_new 500000) (\<lambda>sampling.
       unwrapped_call (plan_with t sampling (\<lambda>_. 0) (\<lambda>n. n) stray) (\<lambda>pl.
         as_str (plan_primary pl) = ''primary-a'' \<and> \<not> plan_shadow_sampled pl \<and> plan_shadow pl = None)))"

definition test_primary_failure_not_hidden :: "(u32 \<Rightarrow> u32) \<Rightarrow> (u64 \<Rightarrow> u64) \<Rightarrow> bool" where
  "test_primary_failure_not_hidden stray32 stray =
     with_shadow_table (\<lambda>t.
       plan_with t sampling_always (\<lambda>n. n) stray32 stray = Return (Err (PrimarySelection DrawOutOfRange)))"

definition test_shadow_weight_boundaries :: "(u32 \<Rightarrow> u32) \<Rightarrow> bool" where
  "test_shadow_weight_boundaries stray32 =
     with_shadow_table (\<lambda>t. list_all (\<lambda>(draw, expected).
         unwrapped_call (plan_with t sampling_always (\<lambda>_. 0) stray32 (\<lambda>_. draw)) (\<lambda>pl.
           present (plan_shadow pl) (\<lambda>s. as_str s = expected)))
       [(0, ''shadow-b''), (2, ''shadow-b''), (3, ''shadow-c''), (7, ''shadow-c'')])"

lemmas shadow_tests [unit_test] =
  with_shadow_table_def test_sampling_bounds_def test_extremes_do_not_draw_def test_intermediate_boundary_def
  test_plan_distinct_shadow_def test_plan_shared_eligibility_def test_plan_rejects_foreign_and_empty_def
  test_unsampled_plan_def test_no_distinct_route_def test_invalid_shadow_draw_def test_invalid_sampling_draw_def
  test_primary_failure_not_hidden_def test_shadow_weight_boundaries_def

definition plan_table :: route_table where
  "plan_table = \<lparr>table_generation = 17, table_routes =
     [route_new (RouteId ''primary-a'') 2, route_new (RouteId ''shadow-b'') 3, route_new (RouteId ''shadow-c'') 5,
      route_disabled (route_new (RouteId ''disabled'') 100)], table_eligible_weight = 10\<rparr>"

lemma plan_table: "with_shadow_table rest = rest plan_table"
  by (simp add: with_shadow_table_def plan_table_def table_run)

lemma plan_table_generation [simp]: "table_generation plan_table = 17"
  by (simp add: plan_table_def)

lemma route_new_ident [simp]: "route_ident (route_new i w) = i"
  by (simp add: route_new_def)

lemmas sampling_run =
  sampling_disabled_def sampling_always_def sampling_new_def sample_with_def shadow_parts_per_million_def

lemma sampling_conforms: "test_sampling_bounds" "test_extremes_do_not_draw stray32" "test_intermediate_boundary"
  by (simp_all add: test_sampling_bounds_def test_extremes_do_not_draw_def test_intermediate_boundary_def
      sampling_run Let_def word_le_nat_alt word_less_nat_alt)

text \<open>The primary route drawn at 0 and the shadow selection beside it.\<close>

lemma plan_table_primary:
  "table_select_with plan_table (\<lambda>_. 0) = Return (Ok (route_new (RouteId ''primary-a'') 2))"
  "table_select_with plan_table (\<lambda>n. n) = Return (Err DrawOutOfRange)"
  by (simp_all add: table_select_with_def plan_table_def route_new_def Let_def word_less_nat_alt)

lemma plan_table_shadow:
  "select_shadow plan_table (route_new (RouteId ''primary-a'') 2) pick_at =
     (if pick_at 8 < 3 then Some (route_new (RouteId ''shadow-b'') 3)
      else if pick_at 8 < 8 then Some (route_new (RouteId ''shadow-c'') 5) else None)"
  by (auto simp: select_shadow_def plan_table_def route_new_def route_disabled_def checked_add_def Let_def
      word_less_nat_alt word_le_nat_alt unat_sub)

lemmas plan_run = plan_with_def plan_table plan_table_primary plan_table_shadow build_plan_def sampling_run

lemma planning_conforms:
  "test_plan_distinct_shadow stray32 stray" "test_unsampled_plan stray32 stray" "test_invalid_shadow_draw stray32"
  "test_invalid_sampling_draw stray" "test_primary_failure_not_hidden stray32 stray"
  "test_shadow_weight_boundaries stray32"
  by (simp_all add: test_plan_distinct_shadow_def test_unsampled_plan_def test_invalid_shadow_draw_def
      test_invalid_sampling_draw_def test_primary_failure_not_hidden_def test_shadow_weight_boundaries_def plan_run Let_def word_less_nat_alt word_le_nat_alt)

lemma no_distinct_route_conforms: "test_no_distinct_route stray32 stray"
  by (simp add: test_no_distinct_route_def table_run plan_with_def select_shadow_def build_plan_def sampling_run
      Let_def word_less_nat_alt word_le_nat_alt)

lemma plan_shared_eligibility_conforms: "test_plan_shared_eligibility stray32 stray"
proof -
  let ?e = "eligible_where (\<lambda>s. s \<noteq> ''shadow-b'') plan_table"
  have ids: "elig_ids ?e = {RouteId ''primary-a'', RouteId ''shadow-c''}"
    by (simp add: eligible_where_fields plan_table_def route_new_def route_disabled_def live_def)
  have "selectable plan_table ?e (\<lambda>r. False) =
      [route_new (RouteId ''primary-a'') 2, route_new (RouteId ''shadow-c'') 5]"
    "selectable plan_table ?e (\<lambda>r. route_ident r = RouteId ''primary-a'') = [route_new (RouteId ''shadow-c'') 5]"
    unfolding selectable_def elig_contains_def ids by (simp_all add: plan_table_def route_new_def route_disabled_def)
  note sel = this [THEN select_weighted_choose [OF eligible_where_fields(1)]]
  have "eligibility_select_with ?e plan_table (asked 7 0 stray) =
      Return (Ok (Some (route_new (RouteId ''primary-a'') 2)))"
    "select_weighted_with plan_table ?e (\<lambda>r. route_ident r = RouteId ''primary-a'') (asked 5 0 stray) =
      Return (Ok (Some (route_new (RouteId ''shadow-c'') 5)))"
    by (simp_all add: eligibility_select_with_def sel choose_run Let_def)
  then show ?thesis
    by (simp add: test_plan_shared_eligibility_def plan_table plan_eligible_with_def build_plan_def sampling_run Let_def)
qed

lemma plan_foreign_conforms: "test_plan_rejects_foreign_and_empty stray32 stray"
proof -
  have "route_table_new 18 (table_routes plan_table) = Ok (plan_table\<lparr>table_generation := 18\<rparr>)"
    by (simp add: plan_table_def table_run)
  moreover have "selectable plan_table (eligible_where (\<lambda>s. False) plan_table) (\<lambda>r. False) = []"
    by (simp add: selectable_def elig_contains_def eligible_where_fields)
  from select_weighted_choose [OF eligible_where_fields(1) this]
  have "eligibility_select_with (eligible_where (\<lambda>s. False) plan_table) plan_table d = Return (Ok None)" for d
    by (simp add: eligibility_select_with_def choose_from_def)
  ultimately show ?thesis
    by (simp add: test_plan_rejects_foreign_and_empty_def plan_table plan_eligible_with_def)
      (simp add: eligibility_select_with_def select_weighted_with_def)
qed

subsection \<open>src/src/shadow_outcome.rs\<close>

definition test_failures_observable :: bool where
  "test_failures_observable =
     (let outc = ShadowFailed ''shadow transport failed'' in
       \<not> shadow_is_success outc \<and> shadow_error outc = Some ''shadow transport failed'' \<and>
       shadow_map_error length outc = ShadowFailed 23)"

definition test_terminal_states_explicit :: bool where
  "test_terminal_states_explicit =
     list_all (\<lambda>outc :: unit shadow_outcome. \<not> shadow_is_success outc)
       [ShadowOverloaded, ShadowCancelled, ShadowDeadlineExceeded, ShadowFailed ()]"

definition test_observation_of_plan :: "(u32 \<Rightarrow> u32) \<Rightarrow> bool" where
  "test_observation_of_plan stray32 =
     unwrapped (route_table_new 42 [route_new (id_of ''primary'') 1, route_new (id_of ''shadow'') 1]) (\<lambda>t.
     unwrapped_call (plan_with t sampling_always (\<lambda>_. 0) stray32 (\<lambda>_. 0)) (\<lambda>pl.
     present (observation_from_plan pl) (\<lambda>ob.
       observed_generation ob = 42 \<and> as_str (observed_route ob) = ''shadow'')))"

definition test_observation_absent :: "(u32 \<Rightarrow> u32) \<Rightarrow> (u64 \<Rightarrow> u64) \<Rightarrow> bool" where
  "test_observation_absent stray32 stray =
     unwrapped (route_table_new 9 [route_new (id_of ''primary'') 1]) (\<lambda>t.
     unwrapped_call (plan_with t sampling_always (\<lambda>_. 0) stray32 stray) (\<lambda>pl.
       observation_from_plan pl = None))"

lemmas outcome_tests [unit_test] =
  test_failures_observable_def test_terminal_states_explicit_def test_observation_of_plan_def
  test_observation_absent_def

lemma outcomes_conform:
  "test_failures_observable" "test_terminal_states_explicit" "test_observation_of_plan stray32"
  "test_observation_absent stray32 stray"
  by (simp_all add: outcome_tests table_run plan_with_def select_shadow_def build_plan_def sampling_run
      observation_from_plan_def Let_def word_less_nat_alt word_le_nat_alt)

subsection \<open>src/src/shadow_policy.rs\<close>

definition with_shadow_retries :: "(retry_policy \<Rightarrow> bool) \<Rightarrow> bool" where
  "with_shadow_retries rest =
     present (nz_new 3) (\<lambda>three. unwrapped (backoff_new (from_millis 10) (from_millis 10) 1 NoJitter) (\<lambda>b.
       rest (policy_new three b)))"

definition test_deadline_non_zero :: bool where
  "test_deadline_non_zero = (shadow_policy_new dur_zero = Err ZeroDeadline)"

definition test_conservative_policy :: "'w draw_inclusive \<Rightarrow> 'w \<Rightarrow> bool" where
  "test_conservative_policy rng w =
     unwrapped (shadow_policy_new (from_millis 50)) (\<lambda>policy.
       \<not> retries_enabled policy \<and> shadow_retry_policy policy = None \<and>
       fst (next_retry_delay rng policy 1 dur_zero Retry w) = None)"

definition test_effective_deadline :: bool where
  "test_effective_deadline =
     unwrapped (shadow_policy_new (from_millis 50)) (\<lambda>policy.
       effective_deadline policy (from_millis 80) = from_millis 50 \<and>
       effective_deadline policy (from_millis 20) = from_millis 20)"

definition test_retries_opt_in :: "'w draw_inclusive \<Rightarrow> 'w \<Rightarrow> bool" where
  "test_retries_opt_in rng w =
     unwrapped (shadow_policy_new (from_millis 15)) (\<lambda>base. with_shadow_retries (\<lambda>retries.
       let policy = with_retry_policy base retries in
         retries_enabled policy \<and>
         fst (next_retry_delay rng policy 1 dur_zero Retry w) = Some (from_millis 10) \<and>
         fst (next_retry_delay rng policy 2 (from_millis 10) Retry w) = None \<and>
         fst (next_retry_delay rng policy 1 dur_zero DoNotRetry w) = None))"

lemmas shadow_policy_tests [unit_test] =
  with_shadow_retries_def test_deadline_non_zero_def test_conservative_policy_def test_effective_deadline_def
  test_retries_opt_in_def

lemma shadow_policy_conforms:
  "test_deadline_non_zero" "test_conservative_policy rng w" "test_effective_deadline" "test_retries_opt_in rng w"
  by (simp_all add: shadow_policy_tests shadow_policy_new_def retries_enabled_def next_retry_delay_def
      effective_deadline_def with_retry_policy_def nz_new_def backoff_new_def policy_new_def next_delay_def
      delay_after_def dur as_nanos_delay_cap duration_max_def word_less_nat_alt word_le_nat_alt Let_def)

end
