(* ===== verification/Tests_Registry.thy ===== *)
theory Tests_Registry
  imports Tests_Routing Resource_Registry Telemetry_Adapters
begin

section \<open>Unit tests of the resource registry and the telemetry\<close>

text \<open>
  The test modules of resource_registry.rs, observability.rs, metrics_adapter.rs and
  tracing_adapter.rs. \<open>Arc::ptr_eq\<close> of two resource sets is equality of their addresses. The
  concurrent lookups are any sequence of the lock acquisitions that \<open>get_or_create\<close> is made of.
\<close>

subsection \<open>src/src/resource_registry.rs\<close>

definition with_policy :: "usize \<Rightarrow> u32 \<Rightarrow> (resource_policy \<Rightarrow> bool) \<Rightarrow> bool" where
  "with_policy bulkhead_size retries rest =
     unwrapped (breaker_config_new 3 (from_millis 1000) 1) (\<lambda>cfg.
     present (nz_new bulkhead_size) (\<lambda>n. present (nz_new retries) (\<lambda>c. present (nz_new 1) (\<lambda>one.
       rest (resource_policy_new cfg n (budget_config_new c one))))))"

definition route_a :: route_id where
  "route_a = id_of ''route-a''"

text \<open>\<open>try_acquire_retry\<close> and \<open>try_acquire\<close> through an address.\<close>

definition retry_at :: "nat \<Rightarrow> memory \<Rightarrow> retry_budget_decision option \<times> memory" where
  "retry_at a m =
     (case cells m a of
       Some (BudgetCell b) \<Rightarrow>
         (case try_acquire_retry b of (d, b') \<Rightarrow> (Some d, update_cell a (\<lambda>_. BudgetCell b') m))
     | _ \<Rightarrow> (None, m))"

definition slot_at :: "nat \<Rightarrow> memory \<Rightarrow> (bulkhead_permit, bulkhead_rejected) result option \<times> memory" where
  "slot_at a m =
     (case cells m a of
       Some (BulkheadCell b) \<Rightarrow>
         (case bulkhead_try_acquire b of (r, b') \<Rightarrow> (Some r, update_cell a (\<lambda>_. BulkheadCell b') m))
     | _ \<Rightarrow> (None, m))"

definition drop_at :: "nat \<Rightarrow> bulkhead_permit \<Rightarrow> memory \<Rightarrow> unit outcome \<times> memory" where
  "drop_at a p m =
     (case cells m a of
       Some (BulkheadCell b) \<Rightarrow>
         (case bulkhead_permit_drop p b of (r, b') \<Rightarrow> (r, update_cell a (\<lambda>_. BulkheadCell b') m))
     | _ \<Rightarrow> (Panic, m))"

definition test_repeated_lookup :: "memory \<Rightarrow> bool" where
  "test_repeated_lookup m =
     with_policy 2 2 (\<lambda>pp. with_policy 1 1 (\<lambda>sp.
       case get_or_create (m, registry_new pp sp) route_a of (first, st) \<Rightarrow>
       case get_or_create st route_a of (second, st) \<Rightarrow> first = second \<and> registry_len st = 1))"

definition test_independent_retry_budgets :: "memory \<Rightarrow> bool" where
  "test_independent_retry_budgets m =
     with_policy 2 1 (\<lambda>pp. with_policy 2 1 (\<lambda>sp.
       case get_or_create (m, registry_new pp sp) route_a of (r, (m, g)) \<Rightarrow>
       case retry_at (primary_budget (resources_primary r)) m of (first, m) \<Rightarrow>
       case retry_at (primary_budget (resources_primary r)) m of (second, m) \<Rightarrow>
       case retry_at (shadow_budget (resources_shadow r)) m of (third, m) \<Rightarrow>
         first = Some (Admitted 0) \<and> second = Some Suppressed \<and> third = Some (Admitted 0)))"

definition test_independent_bulkheads :: "memory \<Rightarrow> bool" where
  "test_independent_bulkheads m =
     with_policy 1 1 (\<lambda>pp. with_policy 1 1 (\<lambda>sp.
       case get_or_create (m, registry_new pp sp) route_a of (r, (m, g)) \<Rightarrow>
       let primary = primary_bulkhead (resources_primary r); shadow = shadow_bulkhead (resources_shadow r) in
       case slot_at primary m of (first, m) \<Rightarrow> present first (\<lambda>a. unwrapped a (\<lambda>primary_permit.
       case slot_at primary m of (second, m) \<Rightarrow> second = Some (Err BulkheadRejected) \<and>
       (case slot_at shadow m of (third, m) \<Rightarrow> present third (\<lambda>b. unwrapped b (\<lambda>shadow_permit.
       case slot_at shadow m of (fourth, m) \<Rightarrow> fourth = Some (Err BulkheadRejected) \<and>
       (case drop_at primary primary_permit m of (fifth, m) \<Rightarrow> returned fifth (\<lambda>_.
       returned (fst (drop_at shadow shadow_permit m)) (\<lambda>_. True))))))))))"

definition test_retiring :: "memory \<Rightarrow> bool" where
  "test_retiring m =
     with_policy 1 1 (\<lambda>pp. with_policy 1 1 (\<lambda>sp.
       case get_or_create (m, registry_new pp sp) route_a of (held, st) \<Rightarrow>
       case registry_retire st route_a of (r, st) \<Rightarrow> present r (\<lambda>retired.
         held = retired \<and> registry_get st route_a = None \<and>
         fst (get_or_create st route_a) \<noteq> held)))"

text \<open>
  The lookups of eight threads: \<open>Find\<close> under the read lock and, after a miss, \<open>Acquire_Handle\<close> under the write
  lock. Whatever order the locks are taken in, \<open>ops\<close> holds only these, and one of them inserts.
\<close>

definition test_concurrent_first_lookup :: "memory \<Rightarrow> route_id registry_op list \<Rightarrow> bool" where
  "test_concurrent_first_lookup m ops =
     with_policy 2 2 (\<lambda>pp. with_policy 2 2 (\<lambda>sp.
       let st = (m, registry_new pp sp); found = map snd (handles st ops) in
         list_all (\<lambda>r. r = hd found) found \<and> registry_len (run registry_ops st ops) = 1))"

definition lookup_schedule :: "route_id registry_op list \<Rightarrow> bool" where
  "lookup_schedule ops \<longleftrightarrow>
     set ops \<subseteq> {Find route_a, Acquire_Handle route_a} \<and> Acquire_Handle route_a \<in> set ops"

lemmas registry_tests [unit_test] =
  with_policy_def test_repeated_lookup_def test_independent_retry_budgets_def test_independent_bulkheads_def
  test_retiring_def test_concurrent_first_lookup_def

lemma with_policy_run:
  assumes "n \<noteq> 0" and "k \<noteq> 0"
  shows "with_policy n k rest = rest (resource_policy_new
    \<lparr>failure_threshold = 3, open_timeout = from_millis 1000, half_open_success_threshold = 1\<rparr> (nz_of n)
    (budget_config_new (nz_of k) (nz_of 1)))"
  using assms by (simp add: with_policy_def breaker_config_new_def dur_is_zero_def as_nanos_small nz_new_def)

lemmas registry_run =
  get_or_create_def registry_get_def entry_or_insert_def registry_new_def route_resources_new_def
  primary_resources_new_def shadow_resources_new_def alloc_def ns_new_def registry_retire_def registry_len_def
  resource_policy_new_def budget_config_new_def budget_new_def bulkhead_new_def

lemma registry_conforms:
  "test_repeated_lookup m" "test_retiring m"
  by (simp_all add: test_repeated_lookup_def test_retiring_def with_policy_run registry_run Let_def)

lemma namespaces_conform:
  "test_independent_retry_budgets m" "test_independent_bulkheads m"
  by (simp_all add: test_independent_retry_budgets_def test_independent_bulkheads_def with_policy_run registry_run
      retry_at_def slot_at_def drop_at_def update_cell_def try_acquire_retry_def bulkhead_defs reserve_body_def Let_def)

lemma lookup_schedule_len:
  assumes "set ops \<subseteq> {Find i, Acquire_Handle i}"
  shows "dom (registry_routes (snd (run registry_ops st ops))) =
    dom (registry_routes (snd st)) \<union> (if Acquire_Handle i \<in> set ops then {i} else {})"
  using assms
proof (induction ops arbitrary: st)
  case (Cons op ops)
  have "dom (registry_routes (snd (snd (entry_or_insert st i)))) = insert i (dom (registry_routes (snd st)))"
    by (cases rule: entry_or_insert_cases [of st i]) (auto simp: registry_get_def split_beta)
  moreover from Cons.prems have "op = Find i \<or> op = Acquire_Handle i" by auto
  ultimately show ?case
    using Cons.IH [of st] Cons.IH [of "snd (entry_or_insert st i)"] Cons.prems
    by (elim disjE) (simp_all split: if_splits)
qed simp

lemma lookup_schedule_keys:
  "set ops \<subseteq> {Find i, Acquire_Handle i} \<Longrightarrow> x \<in> set (handles st ops) \<Longrightarrow> fst x = i"
proof (induction ops arbitrary: st)
  case (Cons op ops)
  from Cons.prems(1) have "op = Find i \<or> op = Acquire_Handle i" "set ops \<subseteq> {Find i, Acquire_Handle i}" by auto
  with Cons.prems(2) show ?case by (auto split: option.splits dest: Cons.IH)
qed simp

lemma concurrent_lookup_conforms:
  assumes "lookup_schedule ops"
  shows "test_concurrent_first_lookup m ops"
proof -
  have "x = y" if "x \<in> set (map snd (handles st ops))" "y \<in> set (map snd (handles st ops))" for x y st
  proof -
    have "fst z = route_a" if "z \<in> set (handles st ops)" for z
      using lookup_schedule_keys [OF _ that] assms by (simp add: lookup_schedule_def)
    with that have "(route_a, x) \<in> set (handles st ops)" "(route_a, y) \<in> set (handles st ops)" by force+
    then show ?thesis using assms by (intro resources.answers_agree) (auto simp: lookup_schedule_def)
  qed
  then have "list_all (\<lambda>r. r = hd (map snd (handles st ops))) (map snd (handles st ops))" for st
    unfolding list_all_iff by (metis empty_iff empty_set hd_in_set)
  moreover have "registry_len (run registry_ops (m, registry_new pp sp) ops) = 1" for pp sp
    using lookup_schedule_len [of ops route_a] assms
    by (simp add: lookup_schedule_def registry_len_def registry_new_def)
  ultimately show ?thesis by (simp add: test_concurrent_first_lookup_def with_policy_run)
qed

subsection \<open>src/src/observability.rs\<close>

text \<open>The test's \<open>RecordingObserver\<close>: the world is what it has recorded.\<close>

definition recording_observer :: "resilience_event list observer" where
  "recording_observer e events = events @ [e]"

definition test_observer_receives_event :: bool where
  "test_observer_receives_event =
     (let event = RouteSelected PrimaryTraffic 7 (id_of ''route-a'')
      in recording_observer event [] = [event])"

definition test_static_labels :: bool where
  "test_static_labels =
     (traffic_role_str ShadowTraffic = ''shadow'' \<and> rejection_reason_str RejectCircuitOpen = ''circuit_open'' \<and>
      retry_suppression_reason_str SuppressRetryBudgetExhausted = ''retry_budget_exhausted'' \<and>
      outcome_class_str OutcomeDeadlineExceeded = ''deadline_exceeded'' \<and>
      budget_stage_str BeforeFailover = ''before_failover'' \<and>
      shadow_sampling_outcome_str NotSampled = ''not_sampled'')"

definition test_noop_observer :: "'w \<Rightarrow> bool" where
  "test_noop_observer w = (noop_observer (LogicalDeadlineExhausted ShadowTraffic BeforeShadow) w = w)"

subsection \<open>src/src/metrics_adapter.rs and src/src/tracing_adapter.rs\<close>

definition test_metrics_accepts_events :: bool where
  "test_metrics_accepts_events =
     (metrics_observe (RouteSelected PrimaryTraffic 17 (id_of ''primary-a'')) \<noteq> [] \<and>
      metrics_observe (LogicalDeadlineExhausted ShadowTraffic BeforeShadow) \<noteq> [])"

definition test_helper_labels :: bool where
  "test_helper_labels =
     (circuit_state_label Closed = ''closed'' \<and> circuit_state_label Open = ''open'' \<and>
      circuit_state_label HalfOpen = ''half_open'' \<and> bool_label True = ''true'' \<and>
      bool_label False = ''false'' \<and> route_label None = ''none'')"

definition test_duration_saturates :: bool where
  "test_duration_saturates = (duration_micros (dur_of duration_max) = - 1)"

definition test_tracing_accepts_events :: bool where
  "test_tracing_accepts_events =
     (trace_fields (tracing_observe (RouteSelected ShadowTraffic 11 (id_of ''shadow-a''))) \<noteq> [] \<and>
      trace_fields (tracing_observe (LogicalDeadlineExhausted PrimaryTraffic BeforeBackoff)) \<noteq> [])"

definition test_circuit_state_labels :: bool where
  "test_circuit_state_labels =
     (circuit_state_label Closed = ''closed'' \<and> circuit_state_label Open = ''open'' \<and>
      circuit_state_label HalfOpen = ''half_open'')"

lemmas telemetry_tests [unit_test] =
  test_observer_receives_event_def test_static_labels_def test_noop_observer_def test_metrics_accepts_events_def
  test_helper_labels_def test_duration_saturates_def test_tracing_accepts_events_def test_circuit_state_labels_def

lemma telemetry_conforms:
  "test_observer_receives_event" "test_static_labels" "test_noop_observer w" "test_metrics_accepts_events"
  "test_helper_labels" "test_duration_saturates" "test_tracing_accepts_events" "test_circuit_state_labels"
  by (simp_all add: telemetry_tests recording_observer_def noop_observer_def bool_label_def route_label_def info_def
      duration_micros_def as_micros_def as_nanos_dur_of duration_max_def Let_def)

end
