(* ===== verification/Tests_Runtime.thy ===== *)
theory Tests_Runtime
  imports Test_Kit Tower_Adapter
begin

section \<open>Unit tests of the runtime adapters\<close>

text \<open>
  The test modules of tokio_runtime.rs and tower_adapter.rs. Their futures are ready when they are
  polled, so what they need of Tokio is \<open>ready_first\<close>: a timeout polls its future before the timer, and
  the biased \<open>select!\<close> polls the cancellation first. A budget starts in the world \<open>w0\<close> and is used in
  \<open>w1\<close>; the lemmas say how much time may pass in between.
\<close>

definition ready_first :: "('w, 'a) tokio \<Rightarrow> bool" where
  "ready_first tk \<longleftrightarrow>
     (\<forall>d v w. tokio_timeout tk d (\<lambda>w. (v, w)) w = (Some v, w)) \<and>
     (\<forall>fut w. tokio_select tk (\<lambda>w. ((), w)) fut w = (None, w))"

definition seconds :: "nat \<Rightarrow> duration" where
  "seconds n = from_millis (n * 1000)"

subsection \<open>src/src/tokio_runtime.rs\<close>

definition test_completed_child :: "('w, nat) tokio \<Rightarrow> 'w \<Rightarrow> 'w \<Rightarrow> bool" where
  "test_completed_child tk w0 w1 =
     (let budget = tokio_start tk (bounded (seconds 1)) w0
      in fst (budget_timeout tk budget (from_millis 50) (\<lambda>w. (7, w)) w1) = Ok 7)"

text \<open>That the child is not polled is the unchanged world.\<close>

definition test_exhausted_starts_no_work :: "('w, unit) tokio \<Rightarrow> ('w, unit) future \<Rightarrow> 'w \<Rightarrow> 'w \<Rightarrow> bool" where
  "test_exhausted_starts_no_work tk child w0 w1 =
     (let budget = tokio_start tk (bounded dur_zero) w0
      in budget_timeout tk budget (seconds 1) child w1 = (Err LogicalDeadlineExceeded, w1))"

text \<open>\<open>future::pending()\<close> is never awaited to its end; whatever it would do makes no difference.\<close>

definition test_ready_cancellation :: "('w, unit) tokio \<Rightarrow> ('w, unit) future \<Rightarrow> 'w \<Rightarrow> 'w \<Rightarrow> bool" where
  "test_ready_cancellation tk pending_future w0 w1 =
     (let budget = tokio_start tk (bounded (seconds 1)) w0
      in fst (timeout_or_cancel tk budget (seconds 1) pending_future (\<lambda>w. ((), w)) w1) = Err CallerCancelled)"

definition test_backoff_suppressed :: "('w, unit) tokio \<Rightarrow> 'w \<Rightarrow> 'w \<Rightarrow> bool" where
  "test_backoff_suppressed tk w0 w1 =
     (let budget = tokio_start tk (bounded dur_zero) w0
      in fst (sleep_backoff tk budget dur_zero w1) = Err BackoffWouldExhaustBudget)"

definition test_zero_backoff_allowed :: "('w, unit) tokio \<Rightarrow> 'w \<Rightarrow> 'w \<Rightarrow> bool" where
  "test_zero_backoff_allowed tk w0 w1 =
     (let budget = tokio_start tk (bounded (seconds 1)) w0
      in fst (sleep_backoff tk budget dur_zero w1) = Ok ())"

lemmas tokio_tests [unit_test] =
  test_completed_child_def test_exhausted_starts_no_work_def test_ready_cancellation_def
  test_backoff_suppressed_def test_zero_backoff_allowed_def

lemmas tokio_run = tokio_start_def tokio_from_start_def tokio_elapsed_def elapsed_since_def seconds_def

lemma tokio_always_conforms: "test_exhausted_starts_no_work tk child w0 w1" "test_backoff_suppressed tk w0 w1"
  by (simp_all add: tokio_tests budget_timeout_def sleep_backoff_def tokio_run budget_defs dur Let_def)

lemma tokio_cancellation_conforms: "ready_first tk \<Longrightarrow> test_ready_cancellation tk pending_future w0 w1"
  by (simp add: tokio_tests timeout_or_cancel_def ready_first_def)

lemma tokio_in_time_conforms:
  assumes "tokio_clock tk w1 < tokio_clock tk w0 + 1000000000"
  shows "ready_first tk \<Longrightarrow> test_completed_child tk w0 w1"
proof -
  assume "ready_first tk"
  moreover have "\<not> is_exhausted (bounded (seconds 1)) (elapsed_since (tokio_clock tk w0) (tokio_clock tk w1))"
    using assms by (simp add: tokio_run budget_defs dur duration_max_def)
  ultimately show ?thesis
    by (simp add: tokio_tests budget_timeout_def ready_first_def tokio_start_def tokio_from_start_def
        tokio_elapsed_def Let_def)
qed

lemma tokio_zero_backoff_conforms:
  assumes "tokio_clock tk w1 < tokio_clock tk w0 + 1000000000"
    and "tokio_clock tk (tokio_sleep tk dur_zero w1) < tokio_clock tk w0 + 1000000000"
  shows "test_zero_backoff_allowed tk w0 w1"
  using assms by (simp add: tokio_tests sleep_backoff_def tokio_run budget_defs dur duration_max_def Let_def) arith

subsection \<open>src/src/tower_adapter.rs\<close>

text \<open>The world of the tests: the time, and the counters that the test service and the factory share.\<close>

record tower_world =
  tw_now :: instant
  tw_calls :: nat
  tw_ready_polls :: nat
  tw_made :: nat

record test_service =
  fail_calls :: nat
  fail_ready_after :: "nat option"

definition poll_test_service :: "test_service \<Rightarrow> (tower_world, (unit, string) result) future" where
  "poll_test_service s w =
     (let poll = tw_ready_polls w + 1; w' = w\<lparr>tw_ready_polls := poll\<rparr>
      in if (case fail_ready_after s of Some lim \<Rightarrow> poll > lim | None \<Rightarrow> False) then (Err ''not ready'', w')
         else (Ok (), w'))"

definition call_test_service :: "test_service \<Rightarrow> nat \<Rightarrow> (tower_world, (nat, string) result) future" where
  "call_test_service s request w =
     (let call = tw_calls w + 1; w' = w\<lparr>tw_calls := call\<rparr>
      in if call \<le> fail_calls s then (Err ''downstream'', w') else (Ok request, w'))"

text \<open>A runtime whose sleeps end at \<open>wake d t\<close>; futures that are ready pass a timeout.\<close>

definition test_tokio :: "(duration \<Rightarrow> instant \<Rightarrow> instant) \<Rightarrow> (tower_world, 'a) tokio" where
  "test_tokio wake =
     \<lparr>tokio_clock = tw_now, tokio_sleep = (\<lambda>d w. w\<lparr>tw_now := wake d (tw_now w)\<rparr>),
      tokio_timeout = (\<lambda>d fut w. case fut w of (v, w') \<Rightarrow> (Some v, w')),
      tokio_select = (\<lambda>cancelled fut w. (None, snd (cancelled w)))\<rparr>"

definition tower_service_of ::
    "(duration \<Rightarrow> instant \<Rightarrow> instant) \<Rightarrow> tower_world draw_inclusive \<Rightarrow> (tower_world, nat) future \<Rightarrow> test_service \<Rightarrow>
     (tower_world, nat, nat, string) service" where
  "tower_service_of wake rng factory s =
     \<lparr>make_request = factory, svc_call = call_test_service s, svc_ready = poll_test_service s,
      std_clock = tw_now, call_tokio = test_tokio wake, ready_tokio = test_tokio wake, svc_draw = rng\<rparr>"

definition with_tower_policy :: "duration \<Rightarrow> u32 \<Rightarrow> (retry_policy \<Rightarrow> bool) \<Rightarrow> bool" where
  "with_tower_policy delay tries rest =
     unwrapped (backoff_new delay delay 1 NoJitter) (\<lambda>b. present (nz_new tries) (\<lambda>n. rest (policy_new n b)))"

definition tower_budget :: "(duration \<Rightarrow> instant \<Rightarrow> instant) \<Rightarrow> duration \<Rightarrow> tower_world \<Rightarrow> tokio_budget" where
  "tower_budget wake d w = tokio_start (test_tokio wake :: (tower_world, unit) tokio) (bounded d) w"

text \<open>
  \<open>service.ready_for(&request).await.unwrap()\<close> and then \<open>service.call(request).await\<close>; the clones of a
  \<open>TestService\<close> share its counters, so an instance is its two settings.
\<close>

definition ready_then_call ::
    "(duration \<Rightarrow> instant \<Rightarrow> instant) \<Rightarrow> tower_world draw_inclusive \<Rightarrow> (tower_world, nat) future \<Rightarrow> retry_policy \<Rightarrow>
     test_service \<Rightarrow> tower_request \<Rightarrow> tower_world \<Rightarrow> ((nat, string tower_error) result \<Rightarrow> tower_world \<Rightarrow> bool) \<Rightarrow> bool" where
  "ready_then_call wake rng factory policy s rq w rest =
     (let sv = tower_layer_apply (tower_layer_new policy (by_error (\<lambda>_. Retry))) s in
      case tower_ready_for (tower_service_of wake rng factory (service_inner sv)) w of (r, w) \<Rightarrow> unwrapped r (\<lambda>_.
      case tower_service_call (\<lambda>i w. (i, w)) (tower_service_of wake rng factory) sv rq w of (fut, _, w) \<Rightarrow>
      case fut w of (res, w) \<Rightarrow> rest res w))"

definition tower_start :: "instant \<Rightarrow> tower_world" where
  "tower_start t = \<lparr>tw_now = t, tw_calls = 0, tw_ready_polls = 0, tw_made = 0\<rparr>"

definition counting_factory :: "(tower_world, nat) future" where
  "counting_factory w = (tw_made w + 1, w\<lparr>tw_made := tw_made w + 1\<rparr>)"

definition test_tower_retries ::
    "(duration \<Rightarrow> instant \<Rightarrow> instant) \<Rightarrow> tower_world draw_inclusive \<Rightarrow> instant \<Rightarrow> bool" where
  "test_tower_retries wake rng t =
     with_tower_policy (from_millis 1) 3 (\<lambda>policy.
       let w = tower_start t; rq = tower_request_new (tower_budget wake (seconds 1) w) (from_millis 100) in
       ready_then_call wake rng counting_factory policy \<lparr>fail_calls = 2, fail_ready_after = None\<rparr> rq w
         (\<lambda>res w. unwrapped res (\<lambda>v. v = 3) \<and> tw_calls w = 3 \<and> tw_made w = 3 \<and> tw_ready_polls w = 3))"

definition test_tower_readiness_failure ::
    "(duration \<Rightarrow> instant \<Rightarrow> instant) \<Rightarrow> tower_world draw_inclusive \<Rightarrow> instant \<Rightarrow> bool" where
  "test_tower_readiness_failure wake rng t =
     with_tower_policy (from_millis 1) 2 (\<lambda>policy.
       let w = tower_start t; rq = tower_request_new (tower_budget wake (seconds 1) w) (from_millis 100) in
       ready_then_call wake rng (\<lambda>w. (1, w)) policy \<lparr>fail_calls = 2 ^ 64 - 1, fail_ready_after = Some 1\<rparr> rq w
         (\<lambda>res w. res = Err (Readiness ''not ready'')))"

definition test_tower_budget_suppresses ::
    "(duration \<Rightarrow> instant \<Rightarrow> instant) \<Rightarrow> tower_world draw_inclusive \<Rightarrow> instant \<Rightarrow> bool" where
  "test_tower_budget_suppresses wake rng t =
     with_tower_policy (from_millis 20) 2 (\<lambda>policy.
       let w = tower_start t; rq = tower_request_new (tower_budget wake (from_millis 10) w) (from_millis 5) in
       ready_then_call wake rng (\<lambda>w. (1, w)) policy \<lparr>fail_calls = 2 ^ 64 - 1, fail_ready_after = None\<rparr> rq w
         (\<lambda>res w. res = Err (Runtime BackoffWouldExhaustBudget) \<and> tw_calls w = 1))"

lemmas tower_tests [unit_test] =
  with_tower_policy_def ready_then_call_def test_tower_retries_def test_tower_readiness_failure_def
  test_tower_budget_suppresses_def

text \<open>The clock of the tests: a sleep takes its duration and at most 100 milliseconds more.\<close>

definition prompt :: "(duration \<Rightarrow> instant \<Rightarrow> instant) \<Rightarrow> bool" where
  "prompt wake \<longleftrightarrow> (\<forall>d t. t + as_nanos d \<le> wake d t \<and> wake d t \<le> t + as_nanos d + 100000000)"

lemma prompt_millisecond:
  assumes "prompt wake"
  shows "wake (from_millis 1) t \<le> t + 101000000"
proof -
  have "wake (from_millis 1) t \<le> t + as_nanos (from_millis 1) + 100000000" using assms by (simp add: prompt_def)
  then show ?thesis by (simp add: as_nanos_small)
qed

lemma test_tokio_simps [simp]:
  "tokio_clock (test_tokio wake) = tw_now"
  "tokio_timeout (test_tokio wake) d fut w = (Some (fst (fut w)), snd (fut w))"
  "tokio_sleep (test_tokio wake) d w = w\<lparr>tw_now := wake d (tw_now w)\<rparr>"
  by (simp_all add: test_tokio_def split_beta)

lemma test_timeout:
  assumes "tw_now w - t < as_nanos l" 
  shows "budget_timeout (test_tokio wake) \<lparr>core = bounded l, started = t\<rparr> d fut w = (Ok (fst (fut w)), snd (fut w))"
  using assms as_nanos_le [of l]
  by (simp add: budget_timeout_def tokio_elapsed_def elapsed_since_def is_exhausted_def bounded_def dur Let_def)

lemma test_backoff:
  assumes "tw_now w - t + as_nanos d < as_nanos l" and "wake d (tw_now w) - t < as_nanos l"
  shows "sleep_backoff (test_tokio wake) \<lparr>core = bounded l, started = t\<rparr> d w =
    (Ok (), w\<lparr>tw_now := wake d (tw_now w)\<rparr>)"
  using assms as_nanos_le [of l]
  by (simp add: sleep_backoff_def tokio_elapsed_def elapsed_since_def budget_defs dur Let_def min_def)

lemma test_await_ready:
  assumes "tw_now w - t < as_nanos l"
  shows "await_ready (tower_service_of wake rng factory s) \<lparr>request_budget = \<lparr>core = bounded l, started = t\<rparr>, attempt_timeout = at\<rparr> w =
    apfst (map_err Readiness) (poll_test_service s w)"
  using assms
  by (simp add: await_ready_def tokio_remaining_def remaining_def bounded_def tower_service_of_def)
    (simp add: test_timeout bounded_def [symmetric] split_beta apfst_def map_prod_def)

lemma constant_backoff:
  "delay_cap \<lparr>initial = d, maximum = d, factor = 1, backoff_jitter = j\<rparr> a = d"
  using as_nanos_le [of d] by (simp add: duration_eq_iff as_nanos_delay_cap)

lemma constant_next_delay:
  "a < nz_get n \<Longrightarrow>
     next_delay rng (policy_new n \<lparr>initial = d, maximum = d, factor = 1, backoff_jitter = NoJitter\<rparr>) a el Retry w =
       (Some d, w)"
  by (simp add: next_delay_def policy_new_def delay_after_def constant_backoff not_le [symmetric])

lemma tower_policy_run:
  assumes "0 < as_nanos d" and "n \<noteq> 0"
  shows "with_tower_policy d n rest =
    rest (policy_new (nz_of n) \<lparr>initial = d, maximum = d, factor = 1, backoff_jitter = NoJitter\<rparr>)"
  using assms by (simp add: with_tower_policy_def backoff_new_def dur_is_zero_def nz_new_def)

text \<open>One failed attempt on the test service, and then the backoff and the readiness poll.\<close>

lemma test_tower_fails:
  fixes policy :: retry_policy
  assumes "tw_now w - t < as_nanos l" and "factory w = (req, w1)"
    and "call_test_service s req w1 = (Err e, w2)"
    and "next_delay rng policy a (elapsed_since begun (tw_now w2)) Retry w2 = (Some d, w2)"
  shows "tower_loop (tower_layer_new policy (by_error (\<lambda>_. Retry))) (tower_service_of wake rng factory s)
      \<lparr>request_budget = \<lparr>core = bounded l, started = t\<rparr>, attempt_timeout = at\<rparr> begun a w =
    (case sleep_backoff (test_tokio wake :: (tower_world, (nat, string) result) tokio) \<lparr>core = bounded l, started = t\<rparr> d w2 of
       (Err stop, w3) \<Rightarrow> (Err (Runtime stop), w3)
     | (Ok u, w3) \<Rightarrow>
         (case await_ready (tower_service_of wake rng factory s)
             \<lparr>request_budget = \<lparr>core = bounded l, started = t\<rparr>, attempt_timeout = at\<rparr> w3 of
           (Err x, w4) \<Rightarrow> (Err x, w4)
         | (Ok u', w4) \<Rightarrow>
             tower_loop (tower_layer_new policy (by_error (\<lambda>_. Retry))) (tower_service_of wake rng factory s)
               \<lparr>request_budget = \<lparr>core = bounded l, started = t\<rparr>, attempt_timeout = at\<rparr> begun (a + 1) w4))"
  using assms
  by (subst tower_loop.simps)
    (simp add: test_timeout physical_call_def tower_layer_new_def tower_service_of_def)

lemma test_tower_succeeds:
  assumes "tw_now w - t < as_nanos l" and "factory w = (req, w1)" and "call_test_service s req w1 = (Ok v, w2)"
  shows "tower_loop ly (tower_service_of wake rng factory s)
      \<lparr>request_budget = \<lparr>core = bounded l, started = t\<rparr>, attempt_timeout = at\<rparr> begun a w = (Ok v, w2)"
  using assms
  by (subst tower_loop.simps) (simp add: test_timeout physical_call_def tower_service_of_def)

lemmas tower_run =
  ready_then_call_def tower_layer_apply_def tower_ready_for_def tower_service_call_def tower_call_def
  tower_request_new_def tower_budget_def tokio_start_def tokio_from_start_def tower_start_def
  poll_test_service_def call_test_service_def

lemma tower_layer_new_eta:
  "\<lparr>layer_policy = p, layer_classify = c\<rparr> = tower_layer_new p c"
  by (simp add: tower_layer_new_def)

lemma layer_new_fields [simp]:
  "layer_policy (tower_layer_new p c) = p" "layer_classify (tower_layer_new p c) = c"
  by (simp_all add: tower_layer_new_def)

lemma tower_of_fields [simp]:
  "svc_ready (tower_service_of wake rng factory s) = poll_test_service s"
  "std_clock (tower_service_of wake rng factory s) = tw_now"
  by (simp_all add: tower_service_of_def)

lemma tower_suppression_conforms: "test_tower_budget_suppresses wake rng t"
proof -
  let ?b = "\<lparr>core = bounded (from_millis 10), started = t\<rparr>"
  have "\<not> can_wait (bounded (from_millis 10)) e (from_millis 20)" for e
    by (simp add: budget_defs dur duration_max_def) arith
  then have "sleep_backoff (test_tokio wake :: (tower_world, (nat, string) result) tokio) ?b (from_millis 20) w =
      (Err BackoffWouldExhaustBudget, w)" for w
    by (simp add: sleep_backoff_def)
  then show ?thesis
    by (simp add: test_tower_budget_suppresses_def tower_policy_run as_nanos_small tower_run tower_layer_new_eta
        test_tower_fails constant_next_delay Let_def)
qed

lemma tower_readiness_conforms:
  assumes "prompt wake"
  shows "test_tower_readiness_failure wake rng t"
proof -
  let ?t1 = "wake (from_millis 1) t"
  have t1: "?t1 - t < 1000000000" using prompt_millisecond [OF assms, of t] by linarith
  show ?thesis
    by (simp add: test_tower_readiness_failure_def tower_policy_run as_nanos_small tower_run tower_layer_new_eta
        test_tower_fails constant_next_delay test_backoff test_await_ready t1 [unfolded One_nat_def] seconds_def Let_def)
qed

lemma tower_retries_conforms:
  assumes "prompt wake"
  shows "test_tower_retries wake rng t"
proof -
  let ?t1 = "wake (from_millis 1) t"
  let ?t2 = "wake (from_millis 1) ?t1"
  have t: "?t1 - t < 1000000000" "?t1 - t + 1000000 < 1000000000" "?t2 - t < 1000000000"
    using prompt_millisecond [OF assms, of t] prompt_millisecond [OF assms, of ?t1] by linarith+
  show ?thesis
    by (simp add: test_tower_retries_def tower_policy_run as_nanos_small tower_run tower_layer_new_eta
        counting_factory_def test_tower_fails test_tower_succeeds constant_next_delay test_backoff test_await_ready
        t [unfolded One_nat_def] seconds_def Let_def)
qed

end
