(* ===== verification/Unit_Tests.thy ===== *)
theory Unit_Tests
  imports Tests_Policies Tests_Guards Tests_Failover Tests_Shadow Tests_Registry Tests_Runtime
begin

section \<open>The unit tests as a whole\<close>

text \<open>
  Every test of the modules \<open>tests\<close> of the crate holds of the model: those that need nothing but the
  code, those that need the documented laws of the clock, the random source or the runtime, and
  those that run threads, under every schedule.
\<close>

lemmas plain_conformance =
  deadline_conforms deterministic_backoff_conforms executes_configured_attempts retry_budget_conforms
  closed_tests_conform bulkhead_conforms table_tests_conform distribution_conforms store_tests_conform
  predicate_test_conforms weighting_test_conforms empty_policy_conforms cross_generation_conforms
  retry_same_route_conforms failover_bounded_conforms remaining_weights_conforms shared_eligibility_conforms
  foreign_eligibility_conforms terminal_and_success_conforms invalid_draw_conforms
  sampling_conforms planning_conforms no_distinct_route_conforms plan_shared_eligibility_conforms
  plan_foreign_conforms outcomes_conform shadow_policy_conforms registry_conforms namespaces_conform
  telemetry_conforms tokio_always_conforms tower_suppression_conforms

text \<open>The tests without threads and without a premise about their environment hold whatever the random
  sources draw, the clocks show and the closures that a test declares unreachable would answer.\<close>

lemma plain_tests_pass:
  "test_remaining_saturates \<and> test_zero_budget_exhausted \<and> test_deadline_boundary \<and> test_child_within_parent \<and>
   test_wait_leaves_budget \<and> test_unlimited_budget \<and> test_backoff_bounded rng w \<and>
   test_stops_at_max_attempts rng w \<and> test_max_elapsed_boundary rng w \<and> test_non_retryable_stops rng w \<and>
   test_executes_configured_attempts time pause rng w \<and> test_tokens_until_suppressed \<and>
   test_replenish_saturates \<and> test_clones_share \<and> test_namespaces_isolated \<and> test_success_resets now \<and>
   test_poisoned_mutex now \<and> test_rejects_above_capacity \<and> test_rejects_invalid_tables \<and>
   test_exact_weight_boundaries stray \<and> test_rejects_invalid_source \<and> test_equal_weights_equal_distribution \<and>
   test_replacement_increments \<and> test_invalid_replacement \<and> test_generation_exhaustion \<and>
   test_predicate_evaluated_once \<and> test_weighting_after_filtering stray \<and> test_empty_policy_result stray \<and>
   test_no_cross_generation \<and> test_retry_same_route fastrand \<and> test_failover_bounded fastrand \<and>
   test_remaining_weights stray \<and> test_shared_eligibility stray fastrand \<and> test_rejects_foreign_eligibility \<and>
   test_terminal_and_success fastrand \<and> test_invalid_draw_keeps_state \<and> test_sampling_bounds \<and>
   test_extremes_do_not_draw stray32 \<and> test_intermediate_boundary \<and> test_plan_distinct_shadow stray32 stray \<and>
   test_plan_shared_eligibility stray32 stray \<and> test_plan_rejects_foreign_and_empty stray32 stray \<and>
   test_unsampled_plan stray32 stray \<and> test_no_distinct_route stray32 stray \<and> test_invalid_shadow_draw stray32 \<and>
   test_invalid_sampling_draw stray \<and> test_primary_failure_not_hidden stray32 stray \<and>
   test_shadow_weight_boundaries stray32 \<and> test_failures_observable \<and> test_terminal_states_explicit \<and>
   test_observation_of_plan stray32 \<and> test_observation_absent stray32 stray \<and> test_deadline_non_zero \<and>
   test_conservative_policy rng w \<and> test_effective_deadline \<and> test_retries_opt_in rng w \<and>
   test_repeated_lookup m \<and> test_retiring m \<and> test_independent_retry_budgets m \<and> test_independent_bulkheads m \<and>
   test_observer_receives_event \<and> test_static_labels \<and> test_noop_observer v \<and> test_metrics_accepts_events \<and>
   test_helper_labels \<and> test_duration_saturates \<and> test_tracing_accepts_events \<and> test_circuit_state_labels \<and>
   test_exhausted_starts_no_work tk child w0 w1 \<and> test_backoff_suppressed tk w0 w1 \<and>
   test_tower_budget_suppresses wake tower_rng t"
  by (intro conjI plain_conformance)

text \<open>The tests whose outcome depends on how much time passes, or on a draw of \<open>fastrand\<close>, pass where the
  source keeps its range and the operations of the test are as prompt as its author relies on.\<close>

lemma jitter_tests_pass: "draw_ok rng \<Longrightarrow> test_full_jitter rng w \<and> test_equal_jitter rng w"
  by (simp add: full_jitter_conforms equal_jitter_conforms)

lemma timed_tests_pass:
  assumes "now 4 + 20000000 \<le> instant_max" and "now 5 < now 4 + 20000000" and "now 6 < now 4 + 20000000"
    and "later 1 + 2000000 \<le> later 2" and "later 2 \<le> instant_max" and "in_range fastrand"
    and "ready_first tk" and "tokio_clock tk w1 < tokio_clock tk w0 + 1000000000"
    and "ready_first tk'" and "tokio_clock tk' w1' < tokio_clock tk' w0' + 1000000000"
    and "tokio_clock tk' (tokio_sleep tk' dur_zero w1') < tokio_clock tk' w0' + 1000000000"
    and "prompt wake"
  shows "test_opens_after_threshold now \<and> test_half_open_success_closes later \<and> test_no_remaining_route fastrand \<and>
    test_completed_child tk w0 w1 \<and> test_ready_cancellation tk' pending_future w0' w1' \<and>
    test_zero_backoff_allowed tk' w0' w1' \<and> test_tower_retries wake rng t \<and>
    test_tower_readiness_failure wake rng t"
  using assms
  by (simp add: open_test_conforms half_open_test_conforms no_remaining_conforms tokio_in_time_conforms
      tokio_cancellation_conforms tokio_zero_backoff_conforms tower_retries_conforms tower_readiness_conforms)

text \<open>C40: the concurrent unit tests, which a test run samples, pass under every schedule: in every reachable
  state of the bulkhead's threads, in every order in which the table store serves its writers, for a
  reader at every point between the replacements, for every sequence of lock acquisitions of the
  first lookups, and for the callers of one retry budget.\<close>

theorem concurrent_tests_pass:
  assumes "bulkhead_reach 4 32 s" and "bulkhead_reach 1 2 s'" and "length order = 4 * 50" and "k \<le> 200"
    and "lookup_schedule ops"
  shows "test_bulkhead_concurrent_admission s \<and> test_loom_reservation s' \<and> test_concurrent_writers order \<and>
    test_concurrent_readers k \<and> test_concurrent_first_lookup m ops \<and> test_budget_concurrent_admission"
  using assms
  by (simp add: bulkhead_concurrency_conforms writers_conform readers_conform concurrent_lookup_conforms
      budget_concurrency_conforms)

theorem concurrent_tests_pass_witness:
  "test_loom_reservation \<lparr>counter = 1, pcs = [Holding, Reserving 1]\<rparr> \<and>
   test_concurrent_writers (List.product [0..<4] [0..<50]) \<and> test_concurrent_readers 7"
proof -
  have "lookup_schedule [Find route_a, Find route_a, Acquire_Handle route_a, Acquire_Handle route_a]"
    by (simp add: lookup_schedule_def)
  from concurrent_tests_pass [OF bulkhead_reach.start sample_contention, of "List.product [0..<4] [0..<50]" 7, OF _ _ this]
  show ?thesis by simp
qed

end
