(* ===== verification/Integration_Guards.thy ===== *)
theory Integration_Guards
  imports Tests_Policies Tests_Guards
begin

section \<open>Integration tests of the circuit breaker, the bulkhead and retry budgets\<close>

text \<open>
  The tests under src/tests, read as \<open>Test_Kit\<close> says. Most of them loop over small values of their
  parameters (thresholds, capacities, weights, sequences of outcomes); here the body of such a loop
  is a predicate on its parameters, and the lemmas say that it holds for all of them, not only for
  those that the loop reaches. Where a test keeps a reference model beside the code, the lemma is the
  equivalence of the two.
\<close>

named_theorems integration_test \<comment> \<open>the definitions of integration tests\<close>

subsection \<open>src/tests/circuit_breaker_properties.rs\<close>

definition test_config_precedence :: "u32 \<Rightarrow> u64 \<Rightarrow> u32 \<Rightarrow> bool" where
  "test_config_precedence failures timeout_ms probes =
     ((case breaker_config_new failures (from_millis (unat timeout_ms)) probes of
         Ok _ \<Rightarrow> Ok () | Err e \<Rightarrow> Err e) =
      (if failures = 0 then Err ZeroFailureThreshold
       else if timeout_ms = 0 then Err ZeroOpenTimeout
       else if probes = 0 then Err ZeroHalfOpenSuccessThreshold
       else Ok ()))"

text \<open>
  The sequence test: \<open>c\<close> is \<open>consecutive_failures\<close>, \<open>opened\<close> is \<open>expected_open\<close>, and \<open>now k\<close> is the first instant
  that the rest of the test reads.
\<close>

primrec follows_failure_model ::
    "circuit_breaker_config \<Rightarrow> (nat \<Rightarrow> instant) \<Rightarrow> bool list \<Rightarrow> u32 \<Rightarrow> bool \<Rightarrow> nat \<Rightarrow> shared \<Rightarrow> bool" where
  "follows_failure_model cfg now [] c opened k s = True"
| "follows_failure_model cfg now (is_failure # steps) c opened k s =
     (if opened then
        (case breaker_state (now k) s of (st, s) \<Rightarrow> st = Open \<and>
        (case try_acquire cfg (now (k + 1)) s of (r, s) \<Rightarrow> r = Err CircuitBreakerRejected \<and>
          follows_failure_model cfg now steps c opened (k + 2) s))
      else if is_failure then
        acquire_then_fail cfg (now k) (now (k + 1)) s (\<lambda>s.
          let c = c + 1; opened = (c \<ge> failure_threshold cfg) in
          case breaker_state (now (k + 2)) s of (st, s) \<Rightarrow> st = (if opened then Open else Closed) \<and>
          follows_failure_model cfg now steps c opened (k + 3) s)
      else
        acquire_then_succeed cfg (now k) s (\<lambda>s.
          case breaker_state (now (k + 1)) s of (st, s) \<Rightarrow> st = Closed \<and>
          follows_failure_model cfg now steps 0 False (k + 2) s))"

definition test_closed_sequence :: "(nat \<Rightarrow> instant) \<Rightarrow> u32 \<Rightarrow> bool list \<Rightarrow> bool" where
  "test_closed_sequence now threshold steps =
     unwrapped (breaker_config_new threshold (from_millis 60000) 1) (\<lambda>cfg.
       follows_failure_model cfg now steps 0 False 0 breaker_new)"

lemma config_precedence_holds: "test_config_precedence failures timeout_ms probes"
proof -
  have "dur_is_zero (from_millis (unat timeout_ms)) \<longleftrightarrow> timeout_ms = 0"
    by (auto simp: dur duration_max_def min_def word_unat_eq_iff)
  then show ?thesis by (simp add: test_config_precedence_def breaker_config_new_def)
qed

text \<open>Readings within the sixty seconds of the timeout.\<close>

definition within_timeout :: "(nat \<Rightarrow> instant) \<Rightarrow> bool" where
  "within_timeout now \<longleftrightarrow>
     (\<forall>i j. now i < now j + 60000000000) \<and> (\<forall>i. now i + 60000000000 \<le> instant_max)"

text \<open>A failing and a successful call in the closed state.\<close>

lemma acquire_then_fail_closed:
  assumes "mode s = ModeClosed c" and "c < failure_threshold cfg" and "open_timeout cfg = from_millis 60000"
    and "t' + 60000000000 \<le> instant_max"
  shows "acquire_then_fail cfg t t' s rest =
    rest (if failure_threshold cfg \<le> c + 1
          then s\<lparr>generation := generation s + 1, mode := ModeOpen (t' + 60000000000)\<rparr>
          else s\<lparr>mode := ModeClosed (c + 1)\<rparr>)"
proof -
  have "saturating_add c 1 = c + 1"
    using unat_plus_one [OF assms(2)] u32_less [of "c + 1"] by (simp add: saturating_add_def)
  with assms show ?thesis by (simp add: acquire_then_fail_def breaker_run Let_def as_nanos_small)
qed

lemma acquire_then_succeed_closed:
  "mode s = ModeClosed c \<Longrightarrow> acquire_then_succeed cfg t s rest = rest (s\<lparr>mode := ModeClosed 0\<rparr>)"
  by (simp add: acquire_then_succeed_def breaker_run Let_def)

lemma follows_failure_model_holds:
  assumes now: "within_timeout now"
    and cfg: "open_timeout cfg = from_millis 60000"
    and s: "if opened then \<exists>j. mode s = ModeOpen (now j + 60000000000)
            else mode s = ModeClosed c \<and> c < failure_threshold cfg"
  shows "follows_failure_model cfg now steps c opened k s"
  using s
proof (induction steps arbitrary: c opened k s)
  case (Cons is_failure steps)
  have early: "\<not> now j + 60000000000 \<le> now i" "now i + 60000000000 \<le> instant_max" for i j
    using now by (auto simp: within_timeout_def not_le)
  show ?case
  proof (cases opened)
    case True
    with Cons.prems obtain j where j: "mode s = ModeOpen (now j + 60000000000)" by auto
    with early have "refresh_open_state (now i) s = s" for i by (simp add: refresh_open_state_def)
    moreover have "follows_failure_model cfg now steps c True n s" for n
      by (rule Cons.IH) (use j in auto)
    ultimately show ?thesis using j True by (simp add: breaker_state_def try_acquire_def Let_def)
  next
    case False
    with Cons.prems have c: "mode s = ModeClosed c" "c < failure_threshold cfg" by auto
    then have positive: "0 < failure_threshold cfg" by (auto simp: word_less_nat_alt)
    show ?thesis
      using c False positive
      by (auto simp: acquire_then_fail_closed [OF c cfg early(2)] acquire_then_succeed_closed [OF c(1)]
          breaker_state_def refresh_open_state_def Let_def early not_le intro!: Cons.IH)
  qed
qed simp

lemma closed_sequence_holds:
  assumes "within_timeout now" and "threshold \<noteq> 0"
  shows "test_closed_sequence now threshold steps"
proof -
  have "follows_failure_model \<lparr>failure_threshold = threshold, open_timeout = from_millis 60000,
      half_open_success_threshold = 1\<rparr> now steps 0 False 0 breaker_new"
    by (rule follows_failure_model_holds [OF assms(1)]) (use assms(2) in \<open>simp_all add: breaker_new_def word_neq_0_conv\<close>)
  with assms(2) show ?thesis
    by (simp add: test_closed_sequence_def breaker_config_new_def dur_is_zero_def as_nanos_small)
qed

subsection \<open>src/tests/circuit_breaker_verification.rs and circuit_breaker_concurrency.rs\<close>

text \<open>\<open>breaker(1, n)\<close> with an open timeout in milliseconds, and \<open>trip_and_wait_for_half_open\<close>.\<close>

definition with_fragile :: "nat \<Rightarrow> u32 \<Rightarrow> (circuit_breaker_config \<Rightarrow> shared \<Rightarrow> bool) \<Rightarrow> bool" where
  "with_fragile millis n rest = unwrapped (breaker_config_new 1 (from_millis millis) n) (\<lambda>cfg. rest cfg breaker_new)"

definition tripped_half_open ::
    "(nat \<Rightarrow> instant) \<Rightarrow> nat \<Rightarrow> u32 \<Rightarrow> (circuit_breaker_config \<Rightarrow> shared \<Rightarrow> bool) \<Rightarrow> bool" where
  "tripped_half_open now millis n rest =
     with_fragile millis n (\<lambda>cfg s. acquire_then_fail cfg (now 0) (now 1) s (\<lambda>s.
       case breaker_state (now 2) s of (st, s) \<Rightarrow> st = Open \<and>
       (case breaker_state (now 3) s of (st, s) \<Rightarrow> st = HalfOpen \<and> rest cfg s)))"

definition test_half_open_failure_reopens :: "(nat \<Rightarrow> instant) \<Rightarrow> bool" where
  "test_half_open_failure_reopens now =
     tripped_half_open now 1 1 (\<lambda>cfg s. acquire_then_fail cfg (now 4) (now 5) s (\<lambda>s.
       case breaker_state (now 6) s of (st, s) \<Rightarrow> st = Open \<and>
         fst (try_acquire cfg (now 7) s) = Err CircuitBreakerRejected))"

definition test_dropped_permit_releases_slot :: "(nat \<Rightarrow> instant) \<Rightarrow> bool" where
  "test_dropped_permit_releases_slot now =
     tripped_half_open now 1 1 (\<lambda>cfg s.
       case try_acquire cfg (now 4) s of (r, s) \<Rightarrow> unwrapped r (\<lambda>p.
       case try_acquire cfg (now 5) s of (r, s) \<Rightarrow> r = Err CircuitBreakerRejected \<and>
       (case try_acquire cfg (now 6) (permit_drop p s) of (r, s) \<Rightarrow> unwrapped r (\<lambda>_.
         fst (try_acquire cfg (now 7) s) = Err CircuitBreakerRejected))))"

definition test_abandoned_probe :: "(nat \<Rightarrow> instant) \<Rightarrow> bool" where
  "test_abandoned_probe now =
     tripped_half_open now 2 1 (\<lambda>cfg s.
       case try_acquire cfg (now 4) s of (r, s) \<Rightarrow> unwrapped r (\<lambda>p.
       case try_acquire cfg (now 5) s of (r, s) \<Rightarrow> r = Err CircuitBreakerRejected \<and>
         unwrapped (fst (try_acquire cfg (now 6) (permit_drop p s))) (\<lambda>_. True)))"

definition test_stale_failure_ignored :: "(nat \<Rightarrow> instant) \<Rightarrow> bool" where
  "test_stale_failure_ignored now =
     with_fragile 1 1 (\<lambda>cfg s.
       case try_acquire cfg (now 0) s of (r, s) \<Rightarrow> unwrapped r (\<lambda>stale.
       acquire_then_fail cfg (now 1) (now 2) s (\<lambda>s.
       case breaker_state (now 3) s of (st, s) \<Rightarrow> st = Open \<and>
       (case breaker_state (now 4) s of (st, s) \<Rightarrow> st = HalfOpen \<and>
       acquire_then_succeed cfg (now 5) s (\<lambda>s.
       case breaker_state (now 6) s of (st, s) \<Rightarrow> st = Closed \<and>
       (case permit_failure cfg (now 7) stale s of (u, s) \<Rightarrow> returned u (\<lambda>_.
       case breaker_state (now 8) s of (st, s) \<Rightarrow> st = Closed \<and>
         unwrapped (fst (try_acquire cfg (now 9) s)) (\<lambda>_. True))))))))"

definition test_stale_success_ignored :: "(nat \<Rightarrow> instant) \<Rightarrow> bool" where
  "test_stale_success_ignored now =
     with_fragile 60000 1 (\<lambda>cfg s.
       case try_acquire cfg (now 0) s of (r, s) \<Rightarrow> unwrapped r (\<lambda>stale.
       acquire_then_fail cfg (now 1) (now 2) s (\<lambda>s.
       case breaker_state (now 3) s of (st, s) \<Rightarrow> st = Open \<and>
       (case breaker_state (now 4) (permit_success cfg stale s) of (st, s) \<Rightarrow> st = Open \<and>
         fst (try_acquire cfg (now 5) s) = Err CircuitBreakerRejected))))"

text \<open>
  The two tests with eight threads: each thread asks once, and keeps its permit until all have asked.
  They all do the same, so only the instants at which the lock serves them matter. The first test then
  drops the permits and looks at the breaker; the order of the drops does not matter either.
\<close>

primrec ask_all :: "circuit_breaker_config \<Rightarrow> instant list \<Rightarrow> shared \<Rightarrow> permit list \<times> shared" where
  "ask_all cfg [] s = ([], s)"
| "ask_all cfg (t # ts) s =
     (case try_acquire cfg t s of (r, s1) \<Rightarrow>
       (case ask_all cfg ts s1 of (ps, s2) \<Rightarrow> ((case r of Ok p \<Rightarrow> p # ps | Err _ \<Rightarrow> ps), s2)))"

definition test_probe_limit :: "(nat \<Rightarrow> instant) \<Rightarrow> nat \<Rightarrow> u32 \<Rightarrow> instant list \<Rightarrow> bool" where
  "test_probe_limit now millis probe_limit asked_at =
     tripped_half_open now millis probe_limit (\<lambda>cfg s.
       case ask_all cfg asked_at s of (permits, s) \<Rightarrow> length permits = unat probe_limit \<and>
       (case breaker_state (now 4) (fold permit_drop permits s) of (st, s) \<Rightarrow> st = HalfOpen \<and>
         unwrapped (fst (try_acquire cfg (now 5) s)) (\<lambda>_. True)))"

lemmas breaker_integration [integration_test] =
  with_fragile_def tripped_half_open_def test_half_open_failure_reopens_def
  test_dropped_permit_releases_slot_def test_abandoned_probe_def test_stale_failure_ignored_def test_stale_success_ignored_def

lemmas fragile_run =
  breaker_run abandon_def acquire_then_fail_def acquire_then_succeed_def Let_def dur_is_zero_def as_nanos_small
  saturating_add_def saturating_sub_def word_le_nat_alt

lemma half_open_reopens_holds:
  assumes "now 2 < now 1 + 1000000" and "now 1 + 1000000 \<le> now 3" and "now 3 \<le> instant_max"
    and "now 5 + 1000000 \<le> instant_max" and "now 6 < now 5 + 1000000" and "now 7 < now 5 + 1000000"
  shows "test_half_open_failure_reopens now"
  using assms by (simp add: breaker_integration fragile_run)

lemma dropped_permit_holds:
  assumes "now 2 < now 1 + 1000000" and "now 1 + 1000000 \<le> now 3" and "now 3 \<le> instant_max"
  shows "test_dropped_permit_releases_slot now"
  using assms by (simp add: breaker_integration fragile_run)

lemma abandoned_probe_holds:
  assumes "now 2 < now 1 + 2000000" and "now 1 + 2000000 \<le> now 3" and "now 3 \<le> instant_max"
  shows "test_abandoned_probe now"
  using assms by (simp add: breaker_integration fragile_run)

lemma stale_failure_holds:
  assumes "now 3 < now 2 + 1000000" and "now 2 + 1000000 \<le> now 4" and "now 4 \<le> instant_max"
  shows "test_stale_failure_ignored now"
  using assms by (simp add: breaker_integration fragile_run)

lemma stale_success_holds:
  assumes "now 2 + 60000000000 \<le> instant_max" and "now 3 < now 2 + 60000000000"
    and "now 4 < now 2 + 60000000000" and "now 5 < now 2 + 60000000000"
  shows "test_stale_success_ignored now"
  using assms by (simp add: breaker_integration fragile_run)

text \<open>
  The breaker test of shadow_isolation_properties.rs; the permit that \<open>is_ok\<close> looks at is dropped. At
  threshold 1 it covers that of shadow_isolation.rs.
\<close>

primrec shadow_fails ::
    "circuit_breaker_config \<Rightarrow> (nat \<Rightarrow> instant) \<Rightarrow> nat \<Rightarrow> nat \<Rightarrow> shared \<Rightarrow> shared \<Rightarrow>
     (nat \<Rightarrow> shared \<Rightarrow> shared \<Rightarrow> bool) \<Rightarrow> bool" where
  "shadow_fails cfg now 0 k primary shadow rest = rest k primary shadow"
| "shadow_fails cfg now (Suc n) k primary shadow rest =
     acquire_then_fail cfg (now k) (now (k + 1)) shadow (\<lambda>shadow.
       case breaker_state (now (k + 2)) primary of (st, primary) \<Rightarrow> st = Closed \<and>
       (case try_acquire cfg (now (k + 3)) primary of (r, primary) \<Rightarrow> unwrapped r (\<lambda>p.
         shadow_fails cfg now n (k + 4) (permit_drop p primary) shadow rest)))"

definition test_shadow_failures :: "(nat \<Rightarrow> instant) \<Rightarrow> u32 \<Rightarrow> bool" where
  "test_shadow_failures now threshold =
     unwrapped (breaker_config_new threshold (from_millis 60000) 1) (\<lambda>cfg.
       shadow_fails cfg now (unat threshold) 0 breaker_new breaker_new (\<lambda>k primary shadow.
         fst (breaker_state (now k) shadow) = Open \<and> fst (breaker_state (now (k + 1)) primary) = Closed))"

lemma shadow_fails_run:
  assumes "within_timeout now" and cfg: "open_timeout cfg = from_millis 60000"
    and "mode shadow = ModeClosed c" and "unat c + Suc n = unat (failure_threshold cfg)"
    and rest: "\<And>k j shadow. mode shadow = ModeOpen (now j + 60000000000) \<Longrightarrow> rest k breaker_new shadow"
  shows "shadow_fails cfg now (Suc n) k breaker_new shadow rest"
  using assms(3,4)
proof (induction n arbitrary: c k shadow)
  have fits: "now i + 60000000000 \<le> instant_max" for i using assms(1) by (simp add: within_timeout_def)
  have primary: "breaker_state t breaker_new = (Closed, breaker_new)"
    "try_acquire cfg t breaker_new =
      (Ok \<lparr>permit_generation = 0, kind = PermitClosed, completed = False\<rparr>, breaker_new)"
    "permit_drop \<lparr>permit_generation = 0, kind = PermitClosed, completed = False\<rparr> breaker_new = breaker_new" for t
    by (simp_all add: fragile_run)
  have step: "shadow_fails cfg now (Suc n) k breaker_new shadow rest =
      shadow_fails cfg now n (k + 4) breaker_new
        (if failure_threshold cfg \<le> c + 1
         then shadow\<lparr>generation := generation shadow + 1, mode := ModeOpen (now (k + 1) + 60000000000)\<rparr>
         else shadow\<lparr>mode := ModeClosed (c + 1)\<rparr>) rest"
    if "mode shadow = ModeClosed c" "c < failure_threshold cfg" for n k c shadow
    unfolding shadow_fails.simps acquire_then_fail_closed [OF that cfg fits]
    by (simp add: primary)
  { case 0
    then have c: "c < failure_threshold cfg" by (simp add: word_less_nat_alt)
    have "failure_threshold cfg \<le> c + 1" using unat_plus_one [OF c] 0(2) by (simp add: word_le_nat_alt)
    then show ?case using step [OF 0(1) c] by (simp add: rest del: shadow_fails.simps(2))
  next
    case (Suc n)
    then have c: "c < failure_threshold cfg" by (simp add: word_less_nat_alt)
    have "\<not> failure_threshold cfg \<le> c + 1" and "unat (c + 1) = Suc (unat c)"
      using unat_plus_one [OF c] Suc.prems(2) by (simp_all add: word_le_nat_alt)
    then show ?case
      using step [OF Suc.prems(1) c, of "Suc n"] Suc.IH [of _ "c + 1"] Suc.prems(2)
      by (simp del: shadow_fails.simps(2)) }
qed

lemma shadow_failures_hold:
  assumes "within_timeout now" and "threshold \<noteq> 0"
  shows "test_shadow_failures now threshold"
proof -
  let ?cfg = "\<lparr>failure_threshold = threshold, open_timeout = from_millis 60000, half_open_success_threshold = 1\<rparr>"
  obtain n where n: "unat threshold = Suc n" using assms(2) by (metis not0_implies_Suc unat_eq_zero)
  have "\<not> now j + 60000000000 \<le> now i" for i j using assms(1) by (simp add: within_timeout_def not_le)
  then have "shadow_fails ?cfg now (Suc n) 0 breaker_new breaker_new (\<lambda>k primary shadow.
      fst (breaker_state (now k) shadow) = Open \<and> fst (breaker_state (now (k + 1)) primary) = Closed)"
    by (intro shadow_fails_run [OF assms(1)])
      (auto simp: n breaker_new_def breaker_state_def refresh_open_state_def Let_def)
  with assms(2) n show ?thesis
    by (simp add: test_shadow_failures_def breaker_config_new_def dur_is_zero_def as_nanos_small)
qed

lemma tripped_half_open_run:
  assumes "millis \<noteq> 0" and "millis < 1000000" and "n \<noteq> 0" and "now 2 < now 1 + millis * 1000000"
    and "now 1 + millis * 1000000 \<le> now 3" and "now 3 \<le> instant_max"
  shows "tripped_half_open now millis n rest =
    rest \<lparr>failure_threshold = 1, open_timeout = from_millis millis, half_open_success_threshold = n\<rparr>
      \<lparr>generation = 2, mode = ModeHalfOpen 0 0\<rparr>"
  using assms by (simp add: tripped_half_open_def with_fragile_def fragile_run)

definition probe_of :: "shared \<Rightarrow> permit \<Rightarrow> bool" where
  "probe_of s p \<longleftrightarrow> \<not> completed p \<and> kind p = PermitHalfOpen \<and> permit_generation p = generation s"

lemma ask_all_half_open:
  assumes "ask_all cfg ts s = (ps, s')" and "mode s = ModeHalfOpen i k"
  shows "\<exists>i'. s' = s\<lparr>mode := ModeHalfOpen i' k\<rparr> \<and> unat i' = unat i + length ps \<and>
    length ps = min (length ts) (unat (half_open_success_threshold cfg) - unat i) \<and> list_all (probe_of s) ps"
  using assms
proof (induction ts arbitrary: s i ps)
  case Nil
  then show ?case by (cases s) auto
next
  case (Cons t ts)
  have fresh: "refresh_open_state t s = s" using Cons.prems(2) by (simp add: refresh_open_state_def)
  show ?case
  proof (cases "i < half_open_success_threshold cfg")
    case True
    let ?s = "s\<lparr>mode := ModeHalfOpen (i + 1) k\<rparr>"
    obtain qs where qs: "ask_all cfg ts ?s = (qs, s')"
        "ps = \<lparr>permit_generation = generation s, kind = PermitHalfOpen, completed = False\<rparr> # qs"
      using Cons.prems by (auto simp: try_acquire_def fresh Let_def True [folded not_le] split: prod.splits)
    have "probe_of ?s = probe_of s" by (auto simp: probe_of_def)
    with Cons.IH [OF qs(1), of "i + 1"] True qs(2) show ?thesis
      by (auto simp: unat_plus_one [OF True] probe_of_def word_less_nat_alt)
  next
    case False
    then have "ask_all cfg ts s = (ps, s')"
      using Cons.prems by (simp add: try_acquire_def fresh Let_def not_less split: prod.splits)
    with Cons.IH [OF _ Cons.prems(2)] False show ?thesis by (fastforce simp: word_less_nat_alt)
  qed
qed

lemma drop_all_probes:
  assumes "mode s = ModeHalfOpen i k" and "length ps \<le> unat i" and "list_all (probe_of s) ps"
  shows "\<exists>i'. fold permit_drop ps s = s\<lparr>mode := ModeHalfOpen i' k\<rparr> \<and> unat i' = unat i - length ps"
  using assms
proof (induction ps arbitrary: s i)
  case Nil
  then show ?case by (cases s) auto
next
  case (Cons p ps)
  let ?s = "s\<lparr>mode := ModeHalfOpen (saturating_sub i 1) k\<rparr>"
  have "permit_drop p s = ?s"
    using Cons.prems by (simp add: probe_of_def permit_drop_def abandon_def)
  moreover have "probe_of ?s = probe_of s" by (auto simp: probe_of_def)
  ultimately show ?case
    using Cons.IH [of ?s "saturating_sub i 1"] Cons.prems by (auto simp: wsat)
qed

lemma probe_limit_holds:
  assumes "millis \<noteq> 0" and "millis < 1000000" and "n \<noteq> 0" and "now 2 < now 1 + millis * 1000000"
    and "now 1 + millis * 1000000 \<le> now 3" and "now 3 \<le> instant_max" and "unat n \<le> length asked_at"
  shows "test_probe_limit now millis n asked_at"
proof -
  let ?cfg = "\<lparr>failure_threshold = 1, open_timeout = from_millis millis, half_open_success_threshold = n\<rparr>"
  let ?s = "\<lparr>generation = 2, mode = ModeHalfOpen 0 0\<rparr>"
  obtain ps s' where ask: "ask_all ?cfg asked_at ?s = (ps, s')" by fastforce
  from ask_all_half_open [OF this, of 0 0] obtain i where
    s': "s' = ?s\<lparr>mode := ModeHalfOpen i 0\<rparr>" and ps: "unat i = length ps" "length ps = unat n"
    "list_all (probe_of ?s) ps" using assms(7) by auto
  have "probe_of s' = probe_of ?s" by (auto simp: s' probe_of_def)
  with drop_all_probes [of s' i 0 ps] ps obtain j where
    j: "fold permit_drop ps s' = s'\<lparr>mode := ModeHalfOpen j 0\<rparr>" "unat j = 0" by (auto simp: s')
  then have "j = 0" by (simp add: word_unat_eq_iff)
  then show ?thesis
    using j(1) ps(2) assms(3) unfolding test_probe_limit_def tripped_half_open_run [OF assms(1-6)]
    by (simp add: ask s' breaker_state_def try_acquire_def refresh_open_state_def Let_def word_neq_0_conv)
qed

subsection \<open>src/tests/bulkhead_properties.rs\<close>

text \<open>The loops that fill the bulkhead and drain it; \<open>permits\<close> is the vector that is pushed to and popped from.\<close>

primrec fills ::
    "usize \<Rightarrow> nat \<Rightarrow> usize \<Rightarrow> bulkhead \<Rightarrow> bulkhead_permit list \<Rightarrow> (bulkhead \<Rightarrow> bulkhead_permit list \<Rightarrow> bool) \<Rightarrow> bool" where
  "fills cap 0 admissions b permits rest = rest b permits"
| "fills cap (Suc n) admissions b permits rest =
     (bulkhead_in_flight b = admissions \<and> bulkhead_available b = cap - admissions \<and>
      (case bulkhead_try_acquire b of (r, b) \<Rightarrow> unwrapped r (\<lambda>p.
        bulkhead_in_flight b = admissions + 1 \<and> bulkhead_available b = cap - admissions - 1 \<and>
        bulkhead_in_flight b + bulkhead_available b = cap \<and> fills cap n (admissions + 1) b (p # permits) rest)))"

primrec drains :: "usize \<Rightarrow> bulkhead_permit list \<Rightarrow> bulkhead \<Rightarrow> (bulkhead \<Rightarrow> bool) \<Rightarrow> bool" where
  "drains cap [] b rest = rest b"
| "drains cap (p # permits) b rest =
     (let before = bulkhead_in_flight b in
      case bulkhead_permit_drop p b of (r, b) \<Rightarrow> returned r (\<lambda>_.
        bulkhead_in_flight b = before - 1 \<and> bulkhead_in_flight b + bulkhead_available b = cap \<and>
        drains cap permits b rest))"

definition test_bulkhead_accounting :: "usize \<Rightarrow> bool" where
  "test_bulkhead_accounting cap =
     present (nz_new cap) (\<lambda>n. fills cap (unat cap) 0 (bulkhead_new n) [] (\<lambda>b permits.
       fst (bulkhead_try_acquire b) = Err BulkheadRejected \<and> bulkhead_in_flight b = cap \<and>
       bulkhead_available b = 0 \<and>
       drains cap permits b (\<lambda>b. bulkhead_in_flight b = 0 \<and> bulkhead_available b = cap)))"

definition test_explicit_release :: "usize \<Rightarrow> bool" where
  "test_explicit_release cap =
     present (nz_new cap) (\<lambda>n.
       case bulkhead_try_acquire (bulkhead_new n) of (r, b) \<Rightarrow> unwrapped r (\<lambda>permit.
         bulkhead_in_flight b = 1 \<and>
         (case bulkhead_permit_release permit b of (u, b) \<Rightarrow> returned u (\<lambda>_.
           bulkhead_in_flight b = 0 \<and> bulkhead_available b = cap \<and>
           (case bulkhead_try_acquire b of (r, b) \<Rightarrow> unwrapped r (\<lambda>_. bulkhead_in_flight b = 1))))))"

definition test_call_releases :: "usize \<Rightarrow> bool" where
  "test_call_releases cap =
     present (nz_new cap) (\<lambda>n. let b = bulkhead_new n in
       case bulkhead_call (\<lambda>w b. (Return (Ok (42 :: nat) :: (nat, string) result), w, b)) () b of (r, _, b) \<Rightarrow>
         r = Return (Ok 42) \<and> bulkhead_in_flight b = 0 \<and> bulkhead_available b = cap \<and>
       (case bulkhead_call (\<lambda>w b. (Return (Err ''boom'' :: (unit, string) result), w, b)) () b of (r, _, b) \<Rightarrow>
         r = Return (Err (BulkheadInner ''boom'')) \<and> bulkhead_in_flight b = 0 \<and> bulkhead_available b = cap))"

text \<open>Collecting permits, and dropping the vector of them.\<close>

primrec acquires ::
    "nat \<Rightarrow> bulkhead \<Rightarrow> bulkhead_permit list \<Rightarrow> (bulkhead \<Rightarrow> bulkhead_permit list \<Rightarrow> bool) \<Rightarrow> bool" where
  "acquires 0 b permits rest = rest b permits"
| "acquires (Suc n) b permits rest =
     (case bulkhead_try_acquire b of (r, b) \<Rightarrow> unwrapped r (\<lambda>p. acquires n b (permits @ [p]) rest))"

primrec drops :: "bulkhead_permit list \<Rightarrow> bulkhead \<Rightarrow> (bulkhead \<Rightarrow> bool) \<Rightarrow> bool" where
  "drops [] b rest = rest b"
| "drops (p # permits) b rest = (case bulkhead_permit_drop p b of (r, b) \<Rightarrow> returned r (\<lambda>_. drops permits b rest))"

text \<open>The world of the operation is the variable \<open>invoked\<close>.\<close>

definition test_saturated_call :: "usize \<Rightarrow> bool" where
  "test_saturated_call cap =
     present (nz_new cap) (\<lambda>n. acquires (unat cap) (bulkhead_new n) [] (\<lambda>b permits.
       case bulkhead_call (\<lambda>_ b. (Return (Ok () :: (unit, unit) result), True, b)) False b of (r, invoked, b) \<Rightarrow>
         r = Return (Err (BulkheadRefused BulkheadRejected)) \<and> \<not> invoked \<and>
         bulkhead_in_flight b = cap \<and> bulkhead_available b = 0 \<and>
         drops permits b (\<lambda>b. bulkhead_in_flight b = 0 \<and> bulkhead_available b = cap)))"

text \<open>The bulkhead test of shadow_isolation_properties.rs; at capacity 1 it covers that of shadow_isolation.rs.\<close>

definition test_shadow_saturation :: "usize \<Rightarrow> bool" where
  "test_shadow_saturation cap =
     present (nz_new cap) (\<lambda>n. let primary = bulkhead_new n in
       acquires (unat cap) (bulkhead_new n) [] (\<lambda>shadow shadow_permits.
         fst (bulkhead_try_acquire shadow) = Err BulkheadRejected \<and>
         bulkhead_in_flight primary = 0 \<and> bulkhead_available primary = cap \<and>
         acquires (unat cap) primary [] (\<lambda>primary primary_permits.
           bulkhead_in_flight primary = cap \<and> bulkhead_available primary = 0 \<and>
           drops shadow_permits shadow (\<lambda>shadow.
             bulkhead_in_flight shadow = 0 \<and> bulkhead_in_flight primary = cap \<and>
             drops primary_permits primary (\<lambda>primary. bulkhead_in_flight primary = 0)))))"

lemmas bulkhead_integration [integration_test] =
  test_bulkhead_accounting_def test_explicit_release_def test_call_releases_def test_saturated_call_def test_shadow_saturation_def

abbreviation held :: bulkhead_permit where
  "held \<equiv> \<lparr>released = False\<rparr>"

lemma available_below [simp]:
  "a \<le> cap \<Longrightarrow> bulkhead_available \<lparr>bulkhead_capacity = cap, slots_held = a\<rparr> = cap - a"
  by (simp add: bulkhead_available_def bulkhead_in_flight_def saturating_sub_def)

lemma fills_run:
  assumes "unat a + n = unat cap"
  shows "fills cap n a \<lparr>bulkhead_capacity = cap, slots_held = a\<rparr> (replicate (unat a) held) rest =
    rest \<lparr>bulkhead_capacity = cap, slots_held = cap\<rparr> (replicate (unat cap) held)"
  using assms
proof (induction n arbitrary: a)
  case 0
  then have "a = cap" by (simp add: word_unat_eq_iff)
  then show ?case by simp
next
  case (Suc n)
  then have a: "a < cap" by (simp add: word_less_nat_alt)
  note up = unat_plus_one [OF a]
  have "a + 1 \<le> cap" using Suc.prems by (simp add: word_le_nat_alt up)
  with Suc.IH [of "a + 1"] Suc.prems a show ?case
    by (simp add: up bulkhead_try_acquire_def reserve_body_def bulkhead_in_flight_def a [folded not_le] less_imp_le)
qed

lemma drains_run:
  assumes "unat a = n" and "a \<le> cap"
  shows "drains cap (replicate n held) \<lparr>bulkhead_capacity = cap, slots_held = a\<rparr> rest =
    rest \<lparr>bulkhead_capacity = cap, slots_held = 0\<rparr>"
  using assms
proof (induction n arbitrary: a)
  case 0
  then have "a = 0" by (simp add: word_unat_eq_iff)
  then show ?case by simp
next
  case (Suc n)
  then have a: "a \<noteq> 0" by auto
  have down: "unat (a - 1) = n" using Suc.prems(1) unat_minus_1 [OF a] by simp
  then have "a - 1 \<le> cap" using Suc.prems by (simp add: word_le_nat_alt)
  with Suc.IH [OF down] a show ?case
    by (simp add: held_permit_drop word_neq_0_conv bulkhead_in_flight_def)
qed

lemma acquires_run:
  assumes "unat a + n = unat cap"
  shows "acquires n \<lparr>bulkhead_capacity = cap, slots_held = a\<rparr> (replicate (unat a) held) rest =
    rest \<lparr>bulkhead_capacity = cap, slots_held = cap\<rparr> (replicate (unat cap) held)"
  using assms
proof (induction n arbitrary: a)
  case 0
  then have "a = cap" by (simp add: word_unat_eq_iff)
  then show ?case by simp
next
  case (Suc n)
  then have a: "a < cap" by (simp add: word_less_nat_alt)
  note up = unat_plus_one [OF a]
  from Suc.IH [of "a + 1"] Suc.prems a show ?case
    by (simp add: up bulkhead_try_acquire_def reserve_body_def a [folded not_le] replicate_append_same)
qed

lemma drops_run:
  assumes "unat a = n"
  shows "drops (replicate n held) \<lparr>bulkhead_capacity = cap, slots_held = a\<rparr> rest =
    rest \<lparr>bulkhead_capacity = cap, slots_held = 0\<rparr>"
  using assms
proof (induction n arbitrary: a)
  case 0
  then have "a = 0" by (simp add: word_unat_eq_iff)
  then show ?case by simp
next
  case (Suc n)
  then have a: "a \<noteq> 0" by auto
  have down: "unat (a - 1) = n" using Suc.prems(1) unat_minus_1 [OF a] by simp
  from Suc.IH [OF down] a show ?case by (simp add: held_permit_drop word_neq_0_conv)
qed

lemma bulkhead_accounting_holds:
  assumes "cap \<noteq> 0"
  shows "test_bulkhead_accounting cap" and "test_saturated_call cap" and "test_shadow_saturation cap"
proof -
  note full = fills_run [of 0 "unat cap" cap, simplified]
  note empty = drains_run [of cap "unat cap" cap, simplified]
  show "test_bulkhead_accounting cap"
    using assms by (simp add: bulkhead_integration nz_new_def bulkhead_new_def full empty bulkhead_in_flight_def)
      (simp add: bulkhead_try_acquire_def reserve_body_def)
  note all = acquires_run [of 0 "unat cap" cap, simplified] and none = drops_run [of cap "unat cap" cap, simplified]
  show "test_saturated_call cap" and "test_shadow_saturation cap"
    using assms by (simp_all add: bulkhead_integration nz_new_def bulkhead_new_def all none bulkhead_call_def
        bulkhead_try_acquire_def reserve_body_def bulkhead_in_flight_def)
qed

lemma explicit_release_holds: "cap \<noteq> 0 \<Longrightarrow> test_explicit_release cap" "cap \<noteq> 0 \<Longrightarrow> test_call_releases cap"
  by (simp_all add: bulkhead_integration nz_new_def bulkhead_new_def bulkhead_defs reserve_body_def bulkhead_call_def
      bulkhead_in_flight_def Let_def)

subsection \<open>src/tests/retry_budget_properties.rs\<close>

text \<open>The reference model \<open>available\<close> beside the budget, over any sequence of operations.\<close>

primrec follows_token_model :: "u32 \<Rightarrow> u32 \<Rightarrow> budget_op list \<Rightarrow> u32 \<Rightarrow> primary_retry_budget \<Rightarrow> bool" where
  "follows_token_model cap per_success [] available b = True"
| "follows_token_model cap per_success (x # xs) available b =
     (case x of
       Success \<Rightarrow>
         let available = min (saturating_add available per_success) cap in
         (case ns_record_success b of (n, b) \<Rightarrow> n = available \<and> ns_available_retries b = available \<and>
           available \<le> cap \<and> follows_token_model cap per_success xs available b)
     | budget_op.Acquire \<Rightarrow>
         (case ns_try_acquire_retry b of (d, b) \<Rightarrow>
           if available = 0 then d = Suppressed \<and> ns_available_retries b = available \<and>
             follows_token_model cap per_success xs available b
           else let available = available - 1 in d = Admitted available \<and> ns_available_retries b = available \<and>
             available \<le> cap \<and> follows_token_model cap per_success xs available b))"

definition test_token_model :: "u32 \<Rightarrow> u32 \<Rightarrow> budget_op list \<Rightarrow> bool" where
  "test_token_model cap per_success xs =
     with_config cap per_success (\<lambda>cfg. follows_token_model cap per_success xs cap (ns_new cfg))"

fun successes_of :: "nat \<Rightarrow> 'n budget_of \<Rightarrow> 'n budget_of" where
  "successes_of 0 b = b"
| "successes_of (Suc n) b = successes_of n (snd (ns_record_success b))"

definition test_replenishment :: "u32 \<Rightarrow> u32 \<Rightarrow> bool" where
  "test_replenishment cap per_success =
     with_config cap per_success (\<lambda>cfg.
       case acquire_each (unat cap) (ns_new cfg :: primary_retry_budget) of (results, b) \<Rightarrow>
         list_all (\<lambda>r. r) results \<and> ns_available_retries b = 0 \<and>
       (case ns_record_success b of (n, b) \<Rightarrow>
         n = min per_success cap \<and> ns_available_retries b = min per_success cap \<and>
         ns_available_retries (successes_of (unat cap) b) = cap))"

lemma token_model_holds:
  assumes "cap \<noteq> 0" and "per_success \<noteq> 0"
  shows "test_token_model cap per_success xs"
proof -
  let ?cfg = "budget_config_new (nz_of cap) (nz_of per_success)"
  have "follows_token_model cap per_success xs n (Budget_Of \<lparr>budget_config = ?cfg, tokens = n\<rparr>)"
    if "n \<le> cap" for n
    using that
  proof (induction xs arbitrary: n)
    case (Cons x xs)
    have "n - 1 \<le> cap" if "n \<noteq> 0"
      using that Cons.prems by (simp add: word_le_nat_alt unat_minus_1)
    then show ?case
      using Cons assms by (cases x) (auto simp: ns_defs Let_def)
  qed simp
  from this [of cap] assms show ?thesis
    by (simp add: test_token_model_def with_config_def nz_new_def ns_defs)
qed

lemma successes_of_tokens:
  "unat (tokens (inner (successes_of n b))) =
     (if n = 0 then unat (tokens (inner b))
      else min (unat (tokens (inner b)) + n * unat (nz_get (replenish_per_success (budget_config (inner b)))))
        (unat (nz_get (capacity (budget_config (inner b))))))"
proof (induction n arbitrary: b)
  case (Suc n)
  have "budget_config (snd (budget_record_success (inner b))) = budget_config (inner b)"
    using budget_config_step [of "inner b" Success] by simp
  then show ?case
    by (auto simp: Suc.IH ns_record_success_def split_beta tokens_success)
qed simp

lemma acquire_each_shape:
  fixes b b' :: "'n budget_of"
  shows "acquire_each n b = (ds, b') \<Longrightarrow> length ds = n \<and> budget_config (inner b') = budget_config (inner b)"
proof (induction n arbitrary: b ds b')
  case (Suc n)
  then show ?case
    by (fastforce simp: ns_try_acquire_retry_def try_acquire_retry_def Let_def split: prod.splits if_splits)
qed simp

lemma replenishment_holds:
  assumes "cap \<noteq> 0" and "per_success \<noteq> 0"
  shows "test_replenishment cap per_success"
proof -
  let ?cfg = "budget_config_new (nz_of cap) (nz_of per_success)"
  obtain ds b where run: "acquire_each (unat cap) (ns_new ?cfg :: primary_retry_budget) = (ds, b)" by fastforce
  note counts = acquire_each_counts [OF run] and shape = acquire_each_shape [OF run]
  have b: "b = Budget_Of \<lparr>budget_config = ?cfg, tokens = 0\<rparr>"
    using counts shape assms
    by (cases b; cases "inner b") (simp add: ns_defs word_unat_eq_iff)
  have "length (filter (\<lambda>r. r) ds) = length ds"
    using counts shape assms by (simp add: ns_defs)
  then have "list_all (\<lambda>r. r) ds"
    by (metis filter_id_conv list_all_iff length_filter_less nat_less_le)
  moreover have "unat cap \<le> unat cap * unat per_success" using assms by (simp add: Suc_le_eq unat_gt_0)
  then have "unat cap \<le> unat (min per_success cap) + unat cap * unat per_success" by (rule trans_le_add2)
  then have "tokens (inner (successes_of (unat cap) (Budget_Of \<lparr>budget_config = ?cfg, tokens = min per_success cap\<rparr> :: primary_retry_budget))) = cap"
    using assms by (simp add: word_unat_eq_iff successes_of_tokens) (simp add: ns_defs)
  moreover have "saturating_add 0 per_success = per_success" by (simp add: saturating_add_def u32_less)
  ultimately show ?thesis
    using assms by (simp add: test_replenishment_def with_config_def nz_new_def run) (simp add: b ns_defs Let_def)
qed

text \<open>Taking all tokens: each decision and the rest of the stock. A clone shares the state, another budget does not.\<close>

primrec empties :: "u32 list \<Rightarrow> 'n budget_of \<Rightarrow> ('n budget_of \<Rightarrow> bool) \<Rightarrow> bool" where
  "empties [] b rest = rest b"
| "empties (expected_remaining # es) b rest =
     (case ns_try_acquire_retry b of (d, b) \<Rightarrow>
       d = Admitted expected_remaining \<and> ns_available_retries b = expected_remaining \<and> empties es b rest)"

definition countdown :: "u32 \<Rightarrow> u32 list" where
  "countdown cap = rev (map word_of_nat [0..<unat cap])"

definition test_cloned_handles :: "u32 \<Rightarrow> bool" where
  "test_cloned_handles cap =
     with_config cap 1 (\<lambda>cfg. empties (countdown cap) (ns_new cfg :: primary_retry_budget) (\<lambda>b.
       case ns_try_acquire_retry b of (d, b) \<Rightarrow> d = Suppressed \<and>
       (case ns_record_success b of (n, b) \<Rightarrow> n = 1 \<and> ns_available_retries b = 1)))"

definition test_strict_isolation :: "u32 \<Rightarrow> bool" where
  "test_strict_isolation cap =
     with_config cap 1 (\<lambda>cfg. let primary = ns_new cfg :: primary_retry_budget in
       empties (countdown cap) (ns_new cfg :: shadow_retry_budget) (\<lambda>shadow.
         ns_available_retries primary = cap \<and>
         (case ns_try_acquire_retry shadow of (d, shadow) \<Rightarrow> d = Suppressed \<and> ns_available_retries primary = cap \<and>
         (case ns_record_success shadow of (_, shadow) \<Rightarrow> ns_available_retries shadow = 1 \<and>
           ns_available_retries primary = cap \<and>
         (case ns_try_acquire_retry primary of (d, primary) \<Rightarrow> d = Admitted (cap - 1) \<and>
           ns_available_retries shadow = 1)))))"

lemmas retry_budget_integration [integration_test] =
  test_token_model_def test_replenishment_def test_cloned_handles_def test_strict_isolation_def

lemma empties_run:
  "n < 2 ^ 32 \<Longrightarrow> empties (rev (map word_of_nat [0..<n]))
     (Budget_Of \<lparr>budget_config = cfg, tokens = word_of_nat n\<rparr> :: 'n budget_of) rest =
   rest (Budget_Of \<lparr>budget_config = cfg, tokens = 0\<rparr>)"
proof (induction n)
  case (Suc n)
  then have "word_of_nat (Suc n) \<noteq> (0 :: u32)" "(word_of_nat (Suc n) :: u32) - 1 = word_of_nat n"
    by (simp_all add: word_unat_eq_iff unat_of_nat del: of_nat_Suc) (simp add: unat_of_nat)
  with Suc show ?case by (simp add: ns_defs Let_def del: of_nat_Suc)
qed simp

lemma shared_and_isolated_hold:
  assumes "cap \<noteq> 0"
  shows "test_cloned_handles cap" and "test_strict_isolation cap"
proof -
  have one: "min (saturating_add 0 1) cap = 1"
    using assms by (simp add: saturating_add_def min_def word_le_nat_alt Suc_le_eq unat_gt_0)
  note all = empties_run [of "unat cap", simplified, OF u32_less]
  show "test_cloned_handles cap" "test_strict_isolation cap"
    using assms one by (simp_all add: retry_budget_integration with_config_def nz_new_def countdown_def all ns_defs Let_def)
qed

end
