(* ===== verification/Integration_Tests.thy ===== *)
theory Integration_Tests
  imports Integration_Guards Tests_Failover Tests_Shadow Tests_Runtime
begin

section \<open>Integration tests of retries, routing and shadowing, and the reference models\<close>

text \<open>
  The rest of the tests under src/tests, in the manner of \<open>Integration_Guards\<close>. The tests of
  tokio_retry.rs run the asynchronous loop; like the unit tests of the blocking loop they need nothing of
  their clock and their sleep.
\<close>

subsection \<open>src/tests/retry_properties.rs and tokio_retry.rs\<close>

definition test_backoff_validation :: "u64 \<Rightarrow> u64 \<Rightarrow> u32 \<Rightarrow> bool" where
  "test_backoff_validation initial_ms maximum_ms fac =
     ((case backoff_new (from_millis (unat initial_ms)) (from_millis (unat maximum_ms)) fac NoJitter of
         Ok _ \<Rightarrow> None | Err e \<Rightarrow> Some e) =
      (if initial_ms = 0 then Some ZeroInitialDelay
       else if maximum_ms < initial_ms then Some MaximumBelowInitial
       else if fac < 1 then Some FactorBelowOne
       else None))"

definition test_backoff_monotonic :: "'w draw_inclusive \<Rightarrow> 'w \<Rightarrow> u64 \<Rightarrow> u64 \<Rightarrow> u32 \<Rightarrow> u32 list \<Rightarrow> bool" where
  "test_backoff_monotonic rng w initial_ms multiplier fac attempt_numbers =
     (let maximum_ms = saturating_mul initial_ms multiplier in
      unwrapped (backoff_new (from_millis (unat initial_ms)) (from_millis (unat maximum_ms)) fac NoJitter) (\<lambda>b.
        fst (for_each (\<lambda>attempt previous.
          let delay = fst (delay_after rng b attempt w)
          in (delay \<ge> previous \<and> delay \<le> from_millis (unat maximum_ms), delay)) attempt_numbers dur_zero)))"

definition with_policy_backoff :: "(exponential_backoff \<Rightarrow> bool) \<Rightarrow> bool" where
  "with_policy_backoff rest = unwrapped (backoff_new (from_millis 1) (from_millis 16) 2 NoJitter) rest"

definition test_policy_budget :: "'w draw_inclusive \<Rightarrow> 'w \<Rightarrow> u32 \<Rightarrow> u64 \<Rightarrow> u32 \<Rightarrow> u64 \<Rightarrow> bool" where
  "test_policy_budget rng w max_n max_elapsed_ms attempt elapsed_ms =
     with_policy_backoff (\<lambda>b. present (nz_new max_n) (\<lambda>n.
       let policy = with_max_elapsed (policy_new n b) (from_millis (unat max_elapsed_ms));
           elapsed = from_millis (unat elapsed_ms);
           decision = fst (next_delay rng policy attempt elapsed Retry w)
       in if attempt \<ge> max_n then decision = None
          else (case decision of
                  Some delay \<Rightarrow> dur_add elapsed delay \<le> from_millis (unat max_elapsed_ms)
                | None \<Rightarrow> True)))"

definition test_terminal_decision :: "'w draw_inclusive \<Rightarrow> 'w \<Rightarrow> u32 \<Rightarrow> u32 \<Rightarrow> u64 \<Rightarrow> bool" where
  "test_terminal_decision rng w max_n attempt elapsed_ms =
     with_policy_backoff (\<lambda>b. present (nz_new max_n) (\<lambda>n.
       fst (next_delay rng (policy_new n b) attempt (from_millis (unat elapsed_ms)) DoNotRetry w) = None))"

text \<open>The operations of tokio_retry.rs count their calls: the first fails until the third, the second always.\<close>

definition counting_env ::
    "(nat \<Rightarrow> ('t, string) result) \<Rightarrow> ('w \<Rightarrow> instant) \<Rightarrow> (duration \<Rightarrow> 'w \<Rightarrow> 'w) \<Rightarrow> 'w draw_inclusive \<Rightarrow>
     (nat \<times> 'w, 't, string) env" where
  "counting_env answer time pause rng =
     \<lparr>operation = (\<lambda>(calls, w). (Return (answer (calls + 1)), (calls + 1, w))),
      clock = (\<lambda>(calls, w). time w), sleep = (\<lambda>d (calls, w). (calls, pause d w)),
      draw = (\<lambda>n (calls, w). case rng n w of (r, w') \<Rightarrow> (r, (calls, w')))\<rparr>"

definition with_nano_policy :: "(retry_policy \<Rightarrow> bool) \<Rightarrow> bool" where
  "with_nano_policy rest =
     present (nz_new 3) (\<lambda>three. unwrapped (backoff_new (from_nanos 1) (from_nanos 1) 1 NoJitter) (\<lambda>b.
       rest (policy_new three b)))"

definition test_retries_until_success ::
    "('w \<Rightarrow> instant) \<Rightarrow> (duration \<Rightarrow> 'w \<Rightarrow> 'w) \<Rightarrow> 'w draw_inclusive \<Rightarrow> 'w \<Rightarrow> bool" where
  "test_retries_until_success time pause rng w =
     with_nano_policy (\<lambda>policy.
       case retry_async policy
           (counting_env (\<lambda>attempt. if attempt < 3 then Err ''transient'' else Ok ''ok'') time pause rng)
           (by_error (\<lambda>_. Retry)) (0, w) of
         (result, calls, _) \<Rightarrow> result = Return (Ok ''ok'') \<and> calls = 3)"

definition test_permanent_failure_stops ::
    "('w \<Rightarrow> instant) \<Rightarrow> (duration \<Rightarrow> 'w \<Rightarrow> 'w) \<Rightarrow> 'w draw_inclusive \<Rightarrow> 'w \<Rightarrow> bool" where
  "test_permanent_failure_stops time pause rng w =
     with_nano_policy (\<lambda>policy.
       case retry_async policy (counting_env (\<lambda>_. (Err ''permanent'' :: (unit, string) result)) time pause rng)
           (by_error (\<lambda>_. DoNotRetry)) (0, w) of
         (result, calls, _) \<Rightarrow> result = Return (Err ''permanent'') \<and> calls = 1)"

lemmas retry_integration [integration_test] =
  test_backoff_validation_def test_backoff_monotonic_def with_policy_backoff_def test_policy_budget_def
  test_terminal_decision_def counting_env_def with_nano_policy_def test_retries_until_success_def
  test_permanent_failure_stops_def

lemma as_nanos_u64_millis: "as_nanos (from_millis (unat n)) = unat n * 1000000" for n :: u64
  using u64_less [of n] by (simp add: dur duration_max_def)

lemma backoff_validation_holds: "test_backoff_validation initial_ms maximum_ms fac"
  by (simp add: test_backoff_validation_def backoff_new_def dur_is_zero_def as_nanos_u64_millis
      less_duration_def word_less_nat_alt word_unat_eq_iff)

lemma backoff_monotonic_holds:
  assumes "initial_ms \<noteq> 0" and "multiplier \<noteq> 0" and "fac \<noteq> 0" and "sorted attempt_numbers"
  shows "test_backoff_monotonic rng w initial_ms multiplier fac attempt_numbers"
proof -
  let ?mx = "from_millis (unat (saturating_mul initial_ms multiplier))"
  let ?b = "\<lparr>initial = from_millis (unat initial_ms), maximum = ?mx, factor = fac, backoff_jitter = NoJitter\<rparr>"
  have "unat initial_ms \<le> unat (saturating_mul initial_ms multiplier)"
    using assms(2) u64_less [of initial_ms] by (simp add: wsat Suc_le_eq unat_gt_0)
  then have "backoff_new (from_millis (unat initial_ms)) ?mx fac NoJitter = Ok ?b"
    using assms(1,3) by (simp add: backoff_new_def dur_is_zero_def as_nanos_u64_millis less_duration_def
        word_less_nat_alt word_unat_eq_iff)
  moreover have "fst (for_each (\<lambda>attempt previous. let delay = fst (delay_after rng ?b attempt w)
      in (delay \<ge> previous \<and> delay \<le> ?mx, delay)) attempt_numbers d)"
    if "\<forall>a \<in> set attempt_numbers. d \<le> delay_cap ?b a" for d
    using that assms(4)
  proof (induction attempt_numbers arbitrary: d)
    case (Cons a as)
    have "\<forall>x \<in> set as. delay_cap ?b a \<le> delay_cap ?b x"
      using Cons.prems(2) assms(3) by (auto intro: delay_cap_mono)
    with Cons.IH [of "delay_cap ?b a"] Cons.prems delay_cap_le_maximum [of ?b a] show ?case
      by (simp add: no_jitter_delay split_beta)
  qed simp
  ultimately show ?thesis by (simp add: test_backoff_monotonic_def less_eq_duration_def dur_zero_def dur)
qed

lemma policy_budget_holds:
  assumes "max_n \<noteq> 0"
  shows "test_policy_budget rng w max_n max_elapsed_ms attempt elapsed_ms"
    and "test_terminal_decision rng w max_n attempt elapsed_ms"
  using assms
  by (auto simp: retry_integration backoff_new_def dur_is_zero_def as_nanos_small less_duration_def less_eq_duration_def nz_new_def
      policy_new_def with_max_elapsed_def next_delay_def not_less Let_def split: prod.split)

lemma tokio_retry_holds:
  "test_retries_until_success time pause rng w" "test_permanent_failure_stops time pause rng w"
  by (simp_all add: retry_integration nz_new_def backoff_new_def policy_new_def retry_async_def
      retry_async_loop.simps next_delay_def no_jitter_delay dur word_le_nat_alt)

subsection \<open>src/tests/routing_properties.rs\<close>

text \<open>
  The partition test, for a list of routes: \<open>expected_weight\<close> is the sum over the enabled routes, and
  each of them is selected by as many draws as its weight.
\<close>

definition expected_weight :: "route list \<Rightarrow> u64" where
  "expected_weight rs = sum_list (map route_weight (filter route_enabled rs))"

definition selections :: "(u64 \<Rightarrow> u64) \<Rightarrow> u64 \<Rightarrow> route_table \<Rightarrow> (route, route_table_error) result outcome list" where
  "selections stray expected t =
     map (\<lambda>k. table_select_with t (asked expected (word_of_nat k) stray)) [0..<unat (table_eligible_weight t)]"

definition test_partition :: "(u64 \<Rightarrow> u64) \<Rightarrow> route list \<Rightarrow> bool" where
  "test_partition stray rs =
     (if expected_weight rs = 0 then (case route_table_new 7 rs of Err _ \<Rightarrow> True | Ok _ \<Rightarrow> False)
      else unwrapped (route_table_new 7 rs) (\<lambda>t. table_eligible_weight t = expected_weight rs \<and>
        list_all (\<lambda>m. unwrapped_call m (\<lambda>r. route_enabled r \<and> route_weight r > 0))
          (selections stray (expected_weight rs) t) \<and>
        list_all (\<lambda>r. length (filter (\<lambda>m. unwrapped_call m (\<lambda>s. route_ident s = route_ident r))
            (selections stray (expected_weight rs) t)) =
          (if route_enabled r then unat (route_weight r) else 0)) (table_routes t)))"

text \<open>The source is an \<open>FnOnce\<close>, which is called at most once; that it is called shows in the result.\<close>

definition test_single_draw :: "u64 \<Rightarrow> bool" where
  "test_single_draw weight =
     unwrapped (route_table_new 0 [route_new (id_of ''route-0'') weight]) (\<lambda>t.
       unwrapped_call (table_select_with t (\<lambda>n. n - 1)) (\<lambda>r. as_str (route_ident r) = ''route-0'') \<and>
       table_select_with t (\<lambda>n. n) = Return (Err DrawOutOfRange))"

lemmas routing_integration [integration_test] =
  expected_weight_def selections_def test_partition_def test_single_draw_def

lemma unat_expected_weight:
  assumes "live_weight rs < 2 ^ 64"
  shows "unat (expected_weight rs) = live_weight rs"
  using assms
proof (induction rs)
  case (Cons r rs)
  then have "unat (expected_weight rs) = live_weight rs" by simp
  then show ?case
    using Cons.prems by (auto simp: expected_weight_def live_def unat_word_ariths word_gt_0)
qed (simp add: expected_weight_def)

text \<open>Counting draws one by one is counting the set of them.\<close>

lemma count_draws:
  fixes n :: "'a::len word"
  shows "length (filter (\<lambda>k. P (word_of_nat k)) [0..<unat n]) = card {d. d < n \<and> P d}"
proof -
  have small: "unat (word_of_nat k :: 'a word) = k" if "k < unat n" for k
    using less_trans [OF that unat_less [of n]] by (simp add: unat_of_nat)
  have "bij_betw unat {d. d < n \<and> P d} {k. k < unat n \<and> P (word_of_nat k)}"
    by (rule bij_betw_byWitness [where f' = word_of_nat]) (auto simp: word_less_nat_alt small)
  moreover have "length (filter (\<lambda>k. P (word_of_nat k)) [0..<unat n]) = card {k. k < unat n \<and> P (word_of_nat k)}"
    by (simp add: length_filter_conv_card) (rule arg_cong [where f = card], auto)
  ultimately show ?thesis by (simp add: bij_betw_same_card)
qed

lemma selected_ident_iff:
  assumes "table_ok t" and "d < table_eligible_weight t" and "r \<in> set (table_routes t)"
  shows "unwrapped_call (table_select_with t (\<lambda>n. d)) (\<lambda>s. route_ident s = route_ident r) \<longleftrightarrow>
    table_chosen t d = Some r"
proof -
  obtain s where s: "table_select_with t (\<lambda>n. d) = Return (Ok s)" "s \<in> set (table_routes t)"
    using table_select_with_cases [OF assms(1), of "\<lambda>n. d"] assms(2) by auto
  have "inj_on route_ident (set (table_routes t))" using assms(1) by (simp add: table_ok_def distinct_map)
  with s assms(3) show ?thesis by (auto simp: table_chosen_def dest: inj_onD)
qed

lemma partition_holds:
  assumes "distinct (map route_ident rs)" and "live_weight rs < 2 ^ 64"
  shows "test_partition stray rs"
proof (cases "expected_weight rs = 0")
  case True
  then have "\<not> routes_valid rs" using unat_expected_weight [OF assms(2)] by (simp add: routes_valid_def)
  then have "\<nexists>t. route_table_new 7 rs = Ok t" by (simp add: routes_valid_iff)
  with True show ?thesis by (auto simp: test_partition_def split: result.split)
next
  case False
  have weight: "unat (expected_weight rs) = live_weight rs" by (rule unat_expected_weight [OF assms(2)])
  with False have "routes_valid rs"
    using assms unat_gt_0 [of "expected_weight rs"] by (simp add: routes_valid_def)
  then obtain t where new: "route_table_new 7 rs = Ok t" using routes_valid_iff [of 7 rs] by blast
  then have t: "table_ok t" "table_routes t = rs" by (simp_all add: route_table_new_Ok)
  then have total: "table_eligible_weight t = expected_weight rs"
    using weight by (simp add: table_ok_def word_unat_eq_iff)
  have pick: "table_select_with t (asked (expected_weight rs) d stray) = table_select_with t (\<lambda>n. d)" for d
    by (simp add: table_select_with_def total)
  have below: "word_of_nat k < table_eligible_weight t" if "k < unat (table_eligible_weight t)" for k
    using that less_trans [OF that unat_less [of "table_eligible_weight t"]]
    by (simp add: word_less_nat_alt unat_of_nat)
  have "unwrapped_call (table_select_with t (\<lambda>n. d)) (\<lambda>r. route_enabled r \<and> route_weight r > 0)"
    if "d < table_eligible_weight t" for d
    using table_select_with_cases [OF t(1), of "\<lambda>n. d"] that by (auto simp: live_def)
  then have "list_all (\<lambda>m. unwrapped_call m (\<lambda>r. route_enabled r \<and> route_weight r > 0))
      (selections stray (expected_weight rs) t)"
    unfolding selections_def list_all_iff by (auto simp: pick below)
  moreover have "length (filter (\<lambda>m. unwrapped_call m (\<lambda>s. route_ident s = route_ident r))
      (selections stray (expected_weight rs) t)) = (if route_enabled r then unat (route_weight r) else 0)"
    if r: "r \<in> set rs" for r
  proof -
    have "length (filter (\<lambda>m. unwrapped_call m (\<lambda>s. route_ident s = route_ident r))
        (selections stray (expected_weight rs) t)) =
      length (filter (\<lambda>k. table_chosen t (word_of_nat k) = Some r) [0..<unat (table_eligible_weight t)])"
      unfolding selections_def filter_map length_map o_def pick
      by (intro arg_cong [where f = length] filter_cong refl selected_ident_iff [OF t(1)])
        (use below r t(2) in auto)
    also have "\<dots> = card {d. d < table_eligible_weight t \<and> table_chosen t d = Some r}"
      by (rule count_draws)
    also have "\<dots> = (if live r then unat (route_weight r) else 0)"
    proof (cases "live r")
      case True
      then show ?thesis using r t by (subst table.card_chosen) (auto simp: table_distinct_routes)
    next
      case False
      then have "\<not> (d < table_eligible_weight t \<and> table_chosen t d = Some r)" for d
        using table.chosen_Some [OF t(1), of d] by force
      with False show ?thesis by simp
    qed
    finally show ?thesis by (auto simp: live_def word_gt_0)
  qed
  ultimately show ?thesis
    using False by (simp add: test_partition_def new total t(2) list_all_iff)
qed

lemma single_draw_holds:
  assumes "weight \<noteq> 0"
  shows "test_single_draw weight"
proof -
  have below: "weight - 1 < weight" using assms by (simp add: word_less_nat_alt unat_minus_1 unat_gt_0)
  show ?thesis
    using assms below [folded not_le] by (simp add: test_single_draw_def table_run Let_def word_gt_0 below u64_less)
qed

subsection \<open>src/tests/shadow_sampling_properties.rs\<close>

definition test_sampling_thresholds :: "u32 \<Rightarrow> bool" where
  "test_sampling_thresholds ppm =
     unwrapped (sampling_new ppm) (\<lambda>sampling.
       unwrapped (sample_with sampling (\<lambda>_. 0)) (\<lambda>b. b) \<and>
       unwrapped (sample_with sampling (\<lambda>_. ppm - 1)) (\<lambda>b. b) \<and>
       unwrapped (sample_with sampling (\<lambda>_. ppm)) (\<lambda>b. \<not> b) \<and>
       unwrapped (sample_with sampling (\<lambda>_. shadow_parts_per_million - 1)) (\<lambda>b. \<not> b) \<and>
       sample_with sampling (\<lambda>n. n) = Err SamplingDrawOutOfRange)"

text \<open>The plans of the next test, for any table and any draw of the primary route.\<close>

definition plans_primary ::
    "route_table \<Rightarrow> shadow_sampling \<Rightarrow> (u64 \<Rightarrow> u64) \<Rightarrow> (u32 \<Rightarrow> u32) \<Rightarrow> (u64 \<Rightarrow> u64) \<Rightarrow> route_id \<Rightarrow> bool" where
  "plans_primary t sampling d1 d2 d3 expected =
     unwrapped_call (plan_with t sampling d1 d2 d3) (\<lambda>pl. plan_primary pl = expected)"

definition test_primary_unchanged :: "(u32 \<Rightarrow> u32) \<Rightarrow> (u64 \<Rightarrow> u64) \<Rightarrow> route_table \<Rightarrow> u64 \<Rightarrow> bool" where
  "test_primary_unchanged stray32 stray t d =
     unwrapped_call (table_select_with t (\<lambda>_. d)) (\<lambda>r. let expected = route_ident r in
       plans_primary t sampling_disabled (\<lambda>_. d) stray32 stray expected \<and>
       unwrapped (sampling_new 500000) (\<lambda>half.
         plans_primary t half (\<lambda>_. d) (\<lambda>_. 0) (\<lambda>_. 0) expected \<and>
         plans_primary t half (\<lambda>_. d) (\<lambda>_. 500000) stray expected \<and>
         plans_primary t half (\<lambda>_. d) (\<lambda>n. n) stray expected))"

definition test_distinct_shadow :: "(u32 \<Rightarrow> u32) \<Rightarrow> route_table \<Rightarrow> u64 \<Rightarrow> bool" where
  "test_distinct_shadow stray32 t d =
     unwrapped_call (table_select_with t (\<lambda>_. d)) (\<lambda>primary.
       let shadow_total = table_eligible_weight t - route_weight primary in
       list_all (\<lambda>k. unwrapped_call (plan_with t sampling_always (\<lambda>_. d) stray32 (\<lambda>_. word_of_nat k)) (\<lambda>pl.
         plan_shadow_sampled pl \<and> present (plan_shadow pl) (\<lambda>s. plan_primary pl \<noteq> s))) [0..<unat shadow_total])"

lemmas shadow_integration [integration_test] =
  test_sampling_thresholds_def plans_primary_def test_primary_unchanged_def test_distinct_shadow_def

lemma sampling_thresholds_hold:
  assumes "ppm \<noteq> 0" and "ppm < shadow_parts_per_million"
  shows "test_sampling_thresholds ppm"
proof -
  have nat: "0 < unat ppm" "unat ppm < 1000000"
    using assms by (simp_all add: unat_gt_0 word_less_nat_alt shadow_parts_per_million_def)
  then have "ppm \<noteq> 1000000" by auto
  with nat assms(1) show ?thesis
    by (simp add: test_sampling_thresholds_def sampling_run Let_def word_less_nat_alt word_le_nat_alt unat_minus_1)
qed

lemma primary_unchanged_holds:
  assumes "table_ok t" and "d < table_eligible_weight t"
  shows "test_primary_unchanged stray32 stray t d"
proof -
  obtain r where r: "table_select_with t (\<lambda>_. d) = Return (Ok r)"
    using table_select_with_cases [OF assms(1), of "\<lambda>n. d"] assms(2) by auto
  then have "plans_primary t sampling (\<lambda>_. d) d2 d3 (route_ident r)" for sampling d2 d3
    by (simp add: plans_primary_def plan_with_def build_plan_def Let_def)
  with r show ?thesis by (simp add: test_primary_unchanged_def sampling_new_def shadow_parts_per_million_def word_less_nat_alt)
qed

lemma live_weight_others:
  "distinct (map route_ident rs) \<Longrightarrow> r \<in> set rs \<Longrightarrow> live r \<Longrightarrow>
     live_weight rs = unat (route_weight r) + live_weight (filter (\<lambda>s. route_ident s \<noteq> route_ident r) rs)"
proof (induction rs)
  case (Cons s rs)
  show ?case
  proof (cases "s = r")
    case True
    then have "filter (\<lambda>s. route_ident s \<noteq> route_ident r) rs = rs"
      using Cons.prems(1) by (auto simp: filter_id_conv image_iff)
    with True Cons.prems show ?thesis by simp
  next
    case False
    with Cons have "route_ident s \<noteq> route_ident r" by auto
    with False Cons show ?thesis by simp
  qed
qed simp

lemma distinct_shadow_holds:
  assumes "table_ok t" and "d < table_eligible_weight t"
  shows "test_distinct_shadow stray32 t d"
proof -
  obtain r where r: "table_select_with t (\<lambda>_. d) = Return (Ok r)" "r \<in> set (table_routes t)" "live r"
    using table_select_with_cases [OF assms(1), of "\<lambda>n. d"] assms(2) by auto
  let ?ex = "\<lambda>s. route_ident s = route_ident r"
  let ?total = "elig_total (t, eligibility_all t, ?ex)"
  have v: "elig_valid (t, eligibility_all t, ?ex)" using assms(1) by (simp add: elig_valid_def)
  have "selectable t (eligibility_all t) ?ex = filter live (filter (\<lambda>s. route_ident s \<noteq> route_ident r) (table_routes t))"
    unfolding derived_selectable [OF assms(1) derived_from_all] filter_filter
    by (rule filter_cong) (auto simp: elig_contains_def)
  then have "unat ?total = live_weight (filter (\<lambda>s. route_ident s \<noteq> route_ident r) (table_routes t))"
    using elig_total(2) [OF v] by (simp add: elig_candidates_def live_weight_def)
  then have total: "?total = table_eligible_weight t - route_weight r"
    using assms(1) live_weight_others [OF _ r(2,3)]
    by (simp add: table_ok_def word_unat_eq_iff unat_sub word_le_nat_alt)
  have "\<exists>s. select_shadow t r (\<lambda>_. word_of_nat k) = Some s" if "k < unat (table_eligible_weight t - route_weight r)" for k
  proof -
    have "word_of_nat k < ?total"
      using that less_trans [OF that unat_less [of "table_eligible_weight t - route_weight r"]]
      by (simp add: total word_less_nat_alt unat_of_nat)
    then show ?thesis
      using eligible.chosen_Some [OF v] by (fastforce simp: select_shadow_eq [OF assms(1)] Let_def)
  qed
  moreover have "sample_with sampling_always stray32 = Ok True"
    by (simp add: sample_with_def sampling_always_def shadow_parts_per_million_def)
  ultimately show ?thesis
    using select_shadow_Some(3) [OF assms(1)]
    by (fastforce simp: test_distinct_shadow_def r(1) list_all_iff plan_with_def build_plan_def Let_def)
qed

subsection \<open>src/tests/routing_eligibility.rs\<close>

text \<open>One eligibility decision governs the plan and the failover of a request.\<close>

definition test_one_eligibility :: "(u32 \<Rightarrow> u32) \<Rightarrow> (u64 \<Rightarrow> u64) \<Rightarrow> bool" where
  "test_one_eligibility stray32 stray =
     unwrapped (route_table_new 41
       [route_new (id_of ''a'') 1, route_new (id_of ''rejected'') 100, route_new (id_of ''c'') 2,
        route_new (id_of ''d'') 3]) (\<lambda>t.
     let e = eligible_where (\<lambda>s. s \<noteq> ''rejected'') t in
     unwrapped_call (plan_eligible_with t e sampling_always (asked 6 0 stray) stray32 (asked 5 0 stray)) (\<lambda>pl.
       plan_generation pl = 41 \<and> as_str (plan_primary pl) = ''a'' \<and>
       present (plan_shadow pl) (\<lambda>s. as_str s = ''c'') \<and>
       with_attempts 3 (\<lambda>b. unwrapped (from_primary_eligibility t e b (plan_primary pl)) (\<lambda>failover.
         fails_over_to (asked 5 0 stray) failover (\<lambda>first failover. route_name first = ''c'' \<and>
         fails_over_to (asked 3 0 stray) failover (\<lambda>second failover. route_name second = ''d'' \<and>
           route_name first \<noteq> ''rejected'' \<and> route_name second \<noteq> ''rejected''))))))"

definition governed_routes :: "route list" where
  "governed_routes = [route_new (RouteId ''a'') 1, route_new (RouteId ''rejected'') 100,
     route_new (RouteId ''c'') 2, route_new (RouteId ''d'') 3]"

definition governed_table :: route_table where
  "governed_table = \<lparr>table_generation = 41, table_routes = governed_routes, table_eligible_weight = 106\<rparr>"

abbreviation governed_eligibility :: route_eligibility where
  "governed_eligibility \<equiv>
     \<lparr>elig_generation = 41, elig_ids = {RouteId ''a'', RouteId ''c'', RouteId ''d''}\<rparr>"

lemma governed:
  "route_table_new 41 governed_routes = Ok governed_table"
  "eligible_where (\<lambda>s. s \<noteq> ''rejected'') governed_table = governed_eligibility"
  by (simp_all add: governed_table_def governed_routes_def table_run eligible_where_eq live_def)

lemma governed_selection:
  "select_weighted_with governed_table governed_eligibility ex d =
     choose_from (filter (\<lambda>r. route_ident r \<noteq> RouteId ''rejected'' \<and> \<not> ex r) governed_routes) d"
  by (rule select_weighted_choose)
    (simp_all add: governed_table_def selectable_def elig_contains_def governed_routes_def route_new_def)

lemma one_eligibility_holds: "test_one_eligibility stray32 stray"
proof -
  let ?pl = "\<lparr>plan_generation = 41, plan_primary = RouteId ''a'', plan_shadow = Some (RouteId ''c''),
    plan_shadow_sampled = True\<rparr>"
  have gen: "table_generation governed_table = 41" by (simp add: governed_table_def)
  have "plan_eligible_with governed_table governed_eligibility sampling_always (asked 6 0 stray) stray32 (asked 5 0 stray) =
      Return (Ok ?pl)"
    by (simp add: plan_eligible_with_def eligibility_select_with_def governed_selection governed_routes_def
        choose_run sampling_run build_plan_def gen Let_def)
  then show ?thesis
    unfolding test_one_eligibility_def
    by (simp add: governed_routes_def [symmetric] governed)
      (simp add: with_attempts_def nz_new_def attempt_budget_new_def budget_max_routes_def
        from_primary_eligibility_def elig_contains_def from_primary_def gen fails_over_to_def classify_with_def
        attempted_routes_def select_remaining_def governed_selection governed_routes_def choose_run Let_def)
qed

subsection \<open>src/tests/shadow_isolation.rs: primary completion\<close>

text \<open>
  The test of the planning contract calls nothing of the crate: a spawned shadow task sleeps and then sets a
  flag, and the primary does not wait for it. \<open>spawn\<close>, the flag and Tokio are parameters; the lemma needs of
  Tokio's current-thread runtime that \<open>spawn\<close> only queues the task.
\<close>

definition shadow_task :: "('w, nat) tokio \<Rightarrow> ('w \<Rightarrow> 'w) \<Rightarrow> ('w, unit) future" where
  "shadow_task tk set_completed w = ((), set_completed (tokio_sleep tk (from_millis 100) w))"

definition test_primary_not_awaiting ::
    "('w, nat) tokio \<Rightarrow> (('w, unit) future \<Rightarrow> 'w \<Rightarrow> 'w) \<Rightarrow> ('w \<Rightarrow> 'w) \<Rightarrow> ('w \<Rightarrow> bool) \<Rightarrow> 'w \<Rightarrow> bool" where
  "test_primary_not_awaiting tk spawn set_completed shadow_completed w =
     (case tokio_timeout tk (from_millis 20) (\<lambda>w. (42, w)) (spawn (shadow_task tk set_completed) w) of
       (primary_result, w') \<Rightarrow> primary_result = Some 42 \<and> \<not> shadow_completed w')"

lemmas primary_integration [integration_test] = shadow_task_def test_primary_not_awaiting_def

lemma primary_not_awaiting_holds:
  assumes "ready_first tk" and "\<forall>fut w. shadow_completed (spawn fut w) = shadow_completed w" and "\<not> shadow_completed w"
  shows "test_primary_not_awaiting tk spawn set_completed shadow_completed w"
  using assms by (simp add: test_primary_not_awaiting_def ready_first_def)

subsection \<open>The tests with reference models\<close>

text \<open>C39: the reference models of the property tests agree with the code beyond the bounds of the tests: for
  every threshold and every sequence of outcomes the breaker is open exactly when the count of
  consecutive failures says so; for every capacity the bulkhead's accounts balance; for every
  sequence of retries and successes the budget holds what the saturating model does; and for every
  list of distinct routes each is selected by as many draws as its weight.\<close>

theorem property_tests_hold:
  assumes "within_timeout now" and "threshold \<noteq> 0" and "slots \<noteq> 0" and "cap \<noteq> 0" and "per_success \<noteq> 0"
    and "distinct (map route_ident rs)" and "live_weight rs < 2 ^ 64"
    and "initial_ms \<noteq> 0" and "multiplier \<noteq> 0" and "fac \<noteq> 0" and "sorted attempt_numbers" and "max_n \<noteq> 0"
  shows "test_closed_sequence now threshold steps \<and> test_shadow_failures now threshold \<and>
    test_bulkhead_accounting slots \<and> test_saturated_call slots \<and> test_shadow_saturation slots \<and>
    test_token_model cap per_success xs \<and> test_replenishment cap per_success \<and> test_partition stray rs \<and>
    test_backoff_monotonic rng w initial_ms multiplier fac attempt_numbers \<and>
    test_policy_budget rng w max_n max_elapsed_ms attempt elapsed_ms"
  using assms
  by (simp add: closed_sequence_holds shadow_failures_hold bulkhead_accounting_holds token_model_holds replenishment_holds
      partition_holds backoff_monotonic_holds policy_budget_holds)

theorem property_tests_hold_witness:
  "test_closed_sequence (\<lambda>k. min k 1000) 3 [True, False, True, True, True, True] \<and> test_bulkhead_accounting 33 \<and>
   test_token_model 5 2 [budget_op.Acquire, budget_op.Acquire, Success, budget_op.Acquire] \<and>
   test_partition (\<lambda>n. 0) sample_routes \<and>
   test_backoff_monotonic (\<lambda>n w. (n, w)) () 10 8 2 [1, 2, 3, 40] \<and>
   test_policy_budget (\<lambda>n w. (n, w)) () 4 100 2 90"
proof -
  have "within_timeout (\<lambda>k. min k 1000)" by (auto simp: within_timeout_def instant_max_def)
  then show ?thesis
    using property_tests_hold [where now = "\<lambda>k. min k 1000" and threshold = 3 and slots = 33 and cap = 5 and
        per_success = 2 and rs = sample_routes and initial_ms = 10 and multiplier = 8 and fac = 2 and
        attempt_numbers = "[1, 2, 3, 40]" and max_n = 4 and stray = "\<lambda>n. 0" and w = "()" and
        rng = "\<lambda>n w. (n, w)" and max_elapsed_ms = 100 and attempt = 2 and elapsed_ms = 90 and
        steps = "[True, False, True, True, True, True]" and
        xs = "[budget_op.Acquire, budget_op.Acquire, Success, budget_op.Acquire]"] sample_routes_live
    by simp
qed

end
