(* ===== verification/Spec2Isabelle.thy ===== *)
theory Spec2Isabelle
  imports Deadline Retry Retry_Budget Breaker_System Breaker_Spec Bulkhead Routing Eligibility Failover
    Shadow Shadow_Execution Resource_Registry Observability Telemetry_Adapters Tokio_Runtime Tower_Adapter
    Route_Traffic Async_Retry Atomic_Counter Locks Loom_Breaker Public_Api
    Unit_Tests Integration_Tests
begin

text \<open>
  \<^bold>\<open>softwheel-resilience\<close>: a verification library of the crate (the Rust files under src/src).

  \<^bold>\<open>The program.\<close> The crate offers the policies that a client composes around a remote call: a logical
  time budget, retries with backoff and shared retry budgets, a circuit breaker, a bulkhead, weighted
  routing with eligibility and failover, shadow traffic, a registry of per-route resources, an
  observation vocabulary with two telemetry adapters, and two runtime adapters (Tokio, Tower). The
  core is synchronous; the state that threads share sits behind a mutex, a read-write lock or one
  atomic counter.

  \<^bold>\<open>The theories\<close>, in the order of their dependencies:
    \<^item> \<open>Prelude\<close>: results, panics as values (\<open>outcome\<close>), saturating and checked machine integers,
      \<open>NonZero\<close> types, \<open>Duration\<close> (whole nanoseconds up to the maximum of the Rust type) and \<open>Instant\<close>.
    \<^item> \<open>Contracts\<close>: the interfaces as locales, with the lemmas that follow from their laws alone:
      \<open>state_machine\<close> and \<open>simulation\<close> (invariants and refinement over operation sequences), \<open>token_pool\<close>
      (what bounds the admissions of a pool), \<open>weighted_choice\<close> (exact distribution of a cursor
      walk), \<open>retry_schedule\<close> (bounded admissions of retries), \<open>request_budget\<close> (waits and child
      timeouts inside a budget), \<open>keyed_registry\<close> (answers agree between insertions). Each is
      interpreted on the model of the code that provides it, in that component's theory.
    \<^item> \<open>Deadline\<close> (deadline.rs): \<open>LogicalRequestBudget\<close>; interpretation \<open>budget\<close>.
    \<^item> \<open>Retry\<close>, \<open>Async_Retry\<close> (retry.rs): backoff, jitter, the retry policy, the blocking and the asynchronous loop;
      the future of \<open>retry_async\<close> as a state machine that is polled, woken and dropped.
    \<^item> \<open>Retry_Budget\<close> (retry_budget.rs): the shared token stock and its two namespaces.
    \<^item> \<open>Circuit_Breaker\<close>, \<open>Breaker_System\<close>, \<open>Breaker_Spec\<close> (circuit_breaker.rs): the critical sections of the
      breaker and its permits; any number of callers over one breaker as a step relation; the
      documented Closed/Open/HalfOpen machine and the refinement of it by sequential calls.
    \<^item> \<open>Loom_Breaker\<close> (src/tests/loom_circuit_breaker.rs): the copy of the breaker that Loom checks, its two programs
      of threads, and their refinement by the code; interpretation of \<open>simulation\<close>.
    \<^item> \<open>Bulkhead\<close>, \<open>Atomic_Counter\<close> (bulkhead.rs): the compare-exchange loop at the granularity of its instructions,
      the semaphore that callers are promised and its refinement by the loop, permits and \<open>call\<close>; the loop over the
      trait \<open>AtomicCounter\<close>, whose contract is the locale \<open>lock_free_counter\<close>, interpreted on \<open>AtomicUsize\<close>.
    \<^item> \<open>Routing\<close> and \<open>Eligibility\<close> (routing.rs, eligibility.rs): tables, validation, weighted selection,
      the table store; eligibility decisions and selection among eligible routes.
    \<^item> \<open>Failover\<close> (failover.rs): the route-failover policy of one request.
    \<^item> \<open>Shadow\<close>, \<open>Shadow_Execution\<close> (shadow.rs, shadow_policy.rs, shadow_outcome.rs): sampling, planning, the
      execution policy, outcomes and observations of shadow traffic.
    \<^item> \<open>Resource_Registry\<close>, \<open>Route_Traffic\<close> (resource_registry.rs): resources as cells of an explicit memory,
      the registry over its two lock acquisitions, and the traffic that uses the cells.
    \<^item> \<open>Locks\<close> (the lock methods of circuit_breaker.rs, retry_budget.rs, routing.rs, resource_registry.rs): mutexes and
      read-write locks with their poison, and the methods that hold them; the locale \<open>lock_transparent\<close> with an
      interpretation for each of the four objects.
    \<^item> \<open>Observability\<close>, \<open>Telemetry_Adapters\<close> (observability.rs, metrics_adapter.rs, tracing_adapter.rs): events,
      labels, and what each adapter hands to its facade.
    \<^item> \<open>Tokio_Runtime\<close>, \<open>Tower_Adapter\<close> (tokio_runtime.rs, tower_adapter.rs): timeouts, cancellation and
      backoff on a runtime that is a parameter; the Tower retry loop over a service that is one.
    \<^item> \<open>Public_Api\<close>: the values that clients of the routing modules can build, as the inductive predicates
      \<open>public_table\<close>, \<open>public_store\<close>, \<open>public_eligibility\<close>, \<open>public_sampling\<close> and \<open>public_failover\<close> with one rule per
      public way to obtain one.
    \<^item> \<open>Test_Kit\<close>, \<open>Tests_Policies\<close>, \<open>Tests_Guards\<close>, \<open>Tests_Routing\<close>, \<open>Tests_Failover\<close>, \<open>Tests_Shadow\<close>, \<open>Tests_Registry\<close>,
      \<open>Tests_Runtime\<close>, \<open>Unit_Tests\<close>: the modules \<open>tests\<close> of the source files. A test function is a truth value
      over the model, and what the test leaves open (clock readings, draws, schedules, answers of
      closures that it declares unreachable) is an argument.
    \<^item> \<open>Integration_Guards\<close>, \<open>Integration_Tests\<close>: the tests under src/tests in the same manner; what their
      loops run over (thresholds, capacities, sequences, tables) is an argument, too.
    \<^item> this theory: what one logical request does across routing, eligibility, planning, failover and
      observation.

  \<^bold>\<open>State and operations.\<close> A Rust struct is a record with the fields of the struct, an enum a datatype;
  names that would clash carry a prefix of the component. A method that changes state returns the new
  state; a method under a lock is one function, and concurrency is any interleaving of these
  functions (a list of operations, or an inductive step relation where callers keep permits). Time
  is an argument read from a clock that is a parameter. Random sources (\<open>fastrand\<close>, the draws that
  the \<open>_with\<close> methods take), user closures, wrapped services and Tokio are parameters. A closure
  threads the caller's state, so a classifier or an operation may be stateful, and an operation
  may panic, which the retry loops propagate. What is relied on of parameters is a named
  predicate: \<open>draw_ok\<close> and \<open>in_range\<close> (a draw lies in its range), \<open>clock_ok\<close> (an instant plus the open
  timeout is representable), \<open>tokio_ok\<close>, \<open>timeout_local\<close>, \<open>undisturbed\<close>, \<open>ready_first\<close> and \<open>prompt\<close> (laws of Tokio's
  clock, sleep, timeout and \<open>select!\<close>), \<open>counts_makes\<close> (a ghost counter counts request creations),
  \<open>readiness_reserves\<close> (what Tower promises of \<open>poll_ready\<close>), \<open>awaits\<close> (an awaited call is its future polled to the end), \<open>children_end\<close>
  (polled on, a child future is ready some time), \<open>told_apart\<close> (two tables are one or
  differ in their generation), \<open>counts_children\<close> and \<open>quiet\<close> (ghost counters of operations begun and of child futures alive). Where the code can panic, the model
  returns \<open>Panic\<close>.

  \<^bold>\<open>What is shown.\<close> The breaker refines its documented specification for a sequential caller, admits at
  most the configured number of half-open probes under every interleaving, and ignores permits of
  older generations. The bulkhead's counter is the number of permits held under every interleaving
  of its atomic instructions, and what callers see of them is a history of a semaphore, refusals
  included. Retry loops terminate after at most \<open>max_attempts\<close> attempts with bounded waits between them, also behind Tower, where nothing is attempted after the logical
  deadline and only an instance that has reserved room is called. The future of the asynchronous retry completes
  within the same bounds if its children do, and may be dropped at every suspension point without a further attempt or a
  child left behind. Table validation accepts exactly the valid tables, and every selection (table, eligible
  routes, shadow route, sampling) has exactly the configured distribution over its draws. Failover
  never revisits a route and gives none up early; one request stays on one routing generation.
  Resources of different routes, incarnations and namespaces are disjoint, so their traffic does not
  interfere. Metric series are bounded by the routes; trace records identify their events. A retry
  budget is the mathematical count of its tokens. A poisoned lock is never seen from outside. No
  operation on values that the public routing interface can build panics while draws stay in
  their range, provided that eligibility is not used with another table of the same generation, as it cannot be
  within one store. The model passes the crate's unit tests, those that run threads under every
  schedule, the Loom tests under every schedule, for any number of threads, and the reference models of the
  property tests agree with the code for every parameter and not only up to the bounds of the tests.

  \<^bold>\<open>Bounds and termination.\<close> No fuel is used. The retry loops end because an admitted retry increases an attempt
  counter below \<open>max_attempts\<close>. The only unbounded loop of the code, the compare-exchange retry, is modelled as
  steps of a relation (where it may spin), as a function of the list of values that failed exchanges
  observe, and as a partial function over any counter, for which \<open>Atomic_Counter.reservation_is_lock_free\<close> shows that
  it returns.

  \<^bold>\<open>What the model showed of the code.\<close> \<open>Circuit_Breaker.opening_can_panic\<close>: an accepted open timeout can
  make the opening transition panic. \<open>Eligibility.foreign_eligibility_accepted\<close>: the generation check does
  not tell tables of different stores apart. \<open>Telemetry_Adapters.metrics_none_ambiguous\<close>: the metrics
  label of a missing route is also a valid route name.

  \<^bold>\<open>Not modelled.\<close> lib.rs (re-exports); the getters, which are the record selectors; \<open>std::error::Error\<close> and derived
  impls; memory ordering weaker than interleaving; a histogram's conversion of durations to floating
  point; the suspension points of the Tower future and of the Tokio budget, whose awaited calls run to their end;
  the plumbing of the test-only Loom and recording types that some tests define; the benchmarks and the
  documents; the order in which README.md recommends that a client nest the policies, as there is no code of it.
\<close>

section \<open>One logical request\<close>





end
